(* ===== verification/Prelude.thy ===== *)
theory Prelude
  imports Main "HOL-Library.Word"
begin

text \<open>
  Shared vocabulary of the development: the machine integer types of the kernel, its status
  codes (src/core/kernel/include/kernel/status.h), the collections the component proofs use,
  and the generic facts on words, byte arrays and list scans that several components share.

  Conventions used throughout.
  \<^item> A pointer argument that the C code compares with NULL is an option: \<open>None\<close> is NULL and
    \<open>Some x\<close> is a pointer to the object \<open>x\<close>. An operation that writes through the pointer
    returns the new object. An out-parameter is an option of its current contents.
  \<^item> A counted loop that stops at the first hit is \<^const>\<open>find\<close> over the index interval.
  \<^item> Lock acquisition and release have no effect in the sequential model of one operation;
    where interleaving matters it is an explicit step relation.
  \<^item> Sizes and indices are natural numbers with the wrap-around written out where the C
    expression can overflow; counters, masks, identifiers and generations are words.
\<close>

unbundle bit_operations_syntax

type_synonym u8 = "8 word"
type_synonym u16 = "16 word"
type_synonym u32 = "32 word"
type_synonym u64 = "64 word"
type_synonym kstatus = int

named_theorems status_simps \<open>the numeric values of the kernel status codes\<close>
named_theorems mask_folds \<open>numeric masks of the packing code as \<open>mask n\<close>\<close>
named_theorems loop_simps \<open>facts about first-hit scans and bounded loops\<close>

section \<open>Status codes\<close>

definition K_OK :: kstatus where
  [status_simps]: "K_OK = 0"

definition K_ERR_INVALID_ARG :: kstatus where
  [status_simps]: "K_ERR_INVALID_ARG = -1"

definition K_ERR_BAD_STATE :: kstatus where
  [status_simps]: "K_ERR_BAD_STATE = -2"

definition K_ERR_NOT_FOUND :: kstatus where
  [status_simps]: "K_ERR_NOT_FOUND = -3"

definition K_ERR_ALREADY_EXISTS :: kstatus where
  [status_simps]: "K_ERR_ALREADY_EXISTS = -4"

definition K_ERR_TIMEOUT :: kstatus where
  [status_simps]: "K_ERR_TIMEOUT = -7"

definition K_ERR_OVERFLOW :: kstatus where
  [status_simps]: "K_ERR_OVERFLOW = -11"

definition K_ERR_AGAIN :: kstatus where
  [status_simps]: "K_ERR_AGAIN = -13"

definition K_ERR_DENIED :: kstatus where
  [status_simps]: "K_ERR_DENIED = -16"

definition K_ERR_NO_RESOURCES :: kstatus where
  [status_simps]: "K_ERR_NO_RESOURCES = -19"

definition K_ERR_NO_MEMORY :: kstatus where
  [status_simps]: "K_ERR_NO_MEMORY = -256"

definition K_ERR_PMM_EXHAUSTED :: kstatus where
  [status_simps]: "K_ERR_PMM_EXHAUSTED = -260"

definition K_ERR_CAP_INVALID :: kstatus where
  [status_simps]: "K_ERR_CAP_INVALID = -768"

definition K_ERR_CAP_WRONG_TYPE :: kstatus where
  [status_simps]: "K_ERR_CAP_WRONG_TYPE = -769"

definition K_ERR_CAP_REVOKED :: kstatus where
  [status_simps]: "K_ERR_CAP_REVOKED = -770"

definition K_ERR_CAP_DENIED :: kstatus where
  [status_simps]: "K_ERR_CAP_DENIED = -771"

definition K_ERR_CAP_OWNERSHIP :: kstatus where
  [status_simps]: "K_ERR_CAP_OWNERSHIP = -772"

definition K_ERR_CAP_STALE :: kstatus where
  [status_simps]: "K_ERR_CAP_STALE = -775"

definition K_ERR_IPC_QUEUE_FULL :: kstatus where
  [status_simps]: "K_ERR_IPC_QUEUE_FULL = -1026"

definition K_ERR_IPC_CROSS_CORE :: kstatus where
  [status_simps]: "K_ERR_IPC_CROSS_CORE = -1032"

section \<open>Bits of words\<close>

text \<open>The simplifier writes \<open>1 << k\<close> as \<open>2 ^ k\<close>.\<close>

lemma and_exp_0 [simp]:
  fixes w :: "'a::len word"
  shows "w AND 2 ^ k = 0 \<longleftrightarrow> \<not> bit w k"
  by (rule and_exp_eq_0_iff_not_bit)

lemma bit_or_exp [simp]:
  fixes w :: "'a::len word"
  shows "bit (w OR 2 ^ k) n \<longleftrightarrow> bit w n \<or> (n = k \<and> k < LENGTH('a))"
  by (auto simp: bit_or_iff bit_exp_iff)

lemma bit_and_not_exp [simp]:
  fixes w :: "'a::len word"
  shows "bit (w AND NOT (2 ^ k)) n \<longleftrightarrow> bit w n \<and> n \<noteq> k"
  by (auto simp: bit_and_iff bit_not_iff bit_exp_iff dest: bit_imp_le_length)

lemma bit_below: "(w :: 'a::len word) < 2 ^ k \<Longrightarrow> k < LENGTH('a) \<Longrightarrow> bit w n \<Longrightarrow> n < k"
  by (metis bit_take_bit_iff less_mask_eq take_bit_eq_mask)

lemma mask_folds_u64 [mask_folds]:
  "(0xFFFFFFFF :: u64) = mask 32" "(0xFFFF :: u64) = mask 16" "(0xFF :: u64) = mask 8"
  "(0xFFFFFFFFFFFFFF :: u64) = mask 56" "(0x3F :: u64) = mask 6" "(0x1F :: u64) = mask 5" "(0xF :: u64) = mask 4"
  by (simp_all add: mask_eq_exp_minus_1)

lemma mask_folds_u32 [mask_folds]:
  "(0xFFFF :: u32) = mask 16" "(0x7F :: u32) = mask 7" "(0x1F :: u32) = mask 5"
  by (simp_all add: mask_eq_exp_minus_1)

section \<open>Bit access in byte arrays\<close>

text \<open>
  The expressions \<open>b[i / 8] & (1 << (i % 8))\<close>, \<open>b[i / 8] |= \<dots>\<close> and \<open>b[i / 8] &= ~\<dots>\<close>
  that the bitmap and the identifier allocator share.
\<close>

definition byte_test :: "u8 list \<Rightarrow> nat \<Rightarrow> bool" where
  "byte_test bs i \<longleftrightarrow> bs ! (i div 8) AND push_bit (i mod 8) 1 \<noteq> 0"

definition byte_set :: "u8 list \<Rightarrow> nat \<Rightarrow> u8 list" where
  "byte_set bs i = bs[i div 8 := bs ! (i div 8) OR push_bit (i mod 8) 1]"

definition byte_clear :: "u8 list \<Rightarrow> nat \<Rightarrow> u8 list" where
  "byte_clear bs i = bs[i div 8 := bs ! (i div 8) AND NOT (push_bit (i mod 8) 1)]"

lemma length_byte_set [simp]: "length (byte_set bs i) = length bs"
  by (simp add: byte_set_def)

lemma length_byte_clear [simp]: "length (byte_clear bs i) = length bs"
  by (simp add: byte_clear_def)

lemma same_byte_bit: "i div 8 = j div 8 \<Longrightarrow> i mod 8 = j mod 8 \<Longrightarrow> i = (j::nat)"
  by (metis div_mult_mod_eq)

lemma byte_test_set [simp]:
  "i div 8 < length bs \<Longrightarrow> byte_test (byte_set bs i) j \<longleftrightarrow> j = i \<or> byte_test bs j"
  by (cases "j div 8 = i div 8")
     (auto simp: byte_test_def byte_set_def dest: same_byte_bit)

lemma byte_test_clear [simp]:
  "i div 8 < length bs \<Longrightarrow> byte_test (byte_clear bs i) j \<longleftrightarrow> j \<noteq> i \<and> byte_test bs j"
  by (cases "j div 8 = i div 8")
     (auto simp: byte_test_def byte_clear_def dest: same_byte_bit)

lemma byte_test_zero [simp]: "i div 8 < n \<Longrightarrow> \<not> byte_test (replicate n 0) i"
  by (simp add: byte_test_def)

lemma byte_index_bound: "i < n \<Longrightarrow> i div 8 < (n + 7) div (8::nat)"
  by linarith

section \<open>First-hit scans\<close>

lemma find_upt_Some_iff [loop_simps]:
  "find P [a..<n] = Some i \<longleftrightarrow> a \<le> i \<and> i < n \<and> P i \<and> (\<forall>j. a \<le> j \<longrightarrow> j < i \<longrightarrow> \<not> P j)"
proof
  assume "find P [a..<n] = Some i"
  then obtain k where k: "k < n - a" "P (a + k)" "i = a + k" "\<forall>j<k. \<not> P (a + j)"
    by (auto simp: find_Some_iff)
  have "\<not> P j" if "a \<le> j" "j < i" for j
    using that k(3,4) by (metis add_diff_inverse_nat less_diff_conv2 add.commute not_le)
  with k show "a \<le> i \<and> i < n \<and> P i \<and> (\<forall>j. a \<le> j \<longrightarrow> j < i \<longrightarrow> \<not> P j)" by auto
next
  assume r: "a \<le> i \<and> i < n \<and> P i \<and> (\<forall>j. a \<le> j \<longrightarrow> j < i \<longrightarrow> \<not> P j)"
  then show "find P [a..<n] = Some i"
    by (auto simp: find_Some_iff intro!: exI [of _ "i - a"])
qed

lemma find_upt_None_iff [loop_simps]:
  "find P [a..<n] = None \<longleftrightarrow> (\<forall>i. a \<le> i \<longrightarrow> i < n \<longrightarrow> \<not> P i)"
  by (auto simp: find_None_iff)

end
