(* ===== verification/Interfaces.thy ===== *)
theory Interfaces
  imports Prelude
begin

text \<open>
  The contracts that components promise to their clients, as locales: bit sets, identifier
  pools, bounded first-in first-out queues and guarded transition systems. Each is
  interpreted on the kernel's own definitions in the theory of the component that provides it.
\<close>

section \<open>Bit sets over a bounded index range\<close>

locale bitset =
  fixes bs_inv :: "'s \<Rightarrow> bool"
    and bs_size :: "'s \<Rightarrow> nat"
    and bs_test :: "'s \<Rightarrow> nat \<Rightarrow> bool"
    and bs_set :: "'s \<Rightarrow> nat \<Rightarrow> 's"
    and bs_clear :: "'s \<Rightarrow> nat \<Rightarrow> 's"
  assumes inv_set: "bs_inv s \<Longrightarrow> bs_inv (bs_set s i)"
    and inv_clear: "bs_inv s \<Longrightarrow> bs_inv (bs_clear s i)"
    and size_set: "bs_size (bs_set s i) = bs_size s"
    and size_clear: "bs_size (bs_clear s i) = bs_size s"
    and test_bound: "bs_test s i \<Longrightarrow> i < bs_size s"
    and test_set: "bs_inv s \<Longrightarrow> bs_test (bs_set s i) j \<longleftrightarrow> (j = i \<and> i < bs_size s) \<or> bs_test s j"
    and test_clear: "bs_inv s \<Longrightarrow> bs_test (bs_clear s i) j \<longleftrightarrow> j \<noteq> i \<and> bs_test s j"
begin

lemma fold_set:
  assumes "bs_inv s"
  shows "bs_inv (fold (\<lambda>k t. bs_set t (f k)) ks s) \<and>
         bs_size (fold (\<lambda>k t. bs_set t (f k)) ks s) = bs_size s \<and>
         (\<forall>j. bs_test (fold (\<lambda>k t. bs_set t (f k)) ks s) j \<longleftrightarrow>
              (j \<in> f ` set ks \<and> j < bs_size s) \<or> bs_test s j)"
  using assms
  by (induction ks arbitrary: s) (auto simp: inv_set size_set test_set)

lemma fold_clear:
  assumes "bs_inv s"
  shows "bs_inv (fold (\<lambda>k t. bs_clear t (f k)) ks s) \<and>
         bs_size (fold (\<lambda>k t. bs_clear t (f k)) ks s) = bs_size s \<and>
         (\<forall>j. bs_test (fold (\<lambda>k t. bs_clear t (f k)) ks s) j \<longleftrightarrow>
              j \<notin> f ` set ks \<and> bs_test s j)"
  using assms
  by (induction ks arbitrary: s) (auto simp: inv_clear size_clear test_clear)

lemma members_finite: "finite {i. bs_test s i}"
  by (rule finite_subset [of _ "{..<bs_size s}"]) (auto dest: test_bound)

lemma members_set: "bs_inv s \<Longrightarrow> i < bs_size s \<Longrightarrow> {j. bs_test (bs_set s i) j} = insert i {j. bs_test s j}"
  by (auto simp: test_set)

lemma members_clear: "bs_inv s \<Longrightarrow> {j. bs_test (bs_clear s i) j} = {j. bs_test s j} - {i}"
  by (auto simp: test_clear)

lemma card_set:
  "bs_inv s \<Longrightarrow> i < bs_size s \<Longrightarrow> \<not> bs_test s i \<Longrightarrow>
   card {j. bs_test (bs_set s i) j} = Suc (card {j. bs_test s j})"
  by (simp add: members_set members_finite)

lemma card_clear:
  "bs_inv s \<Longrightarrow> bs_test s i \<Longrightarrow> Suc (card {j. bs_test (bs_clear s i) j}) = card {j. bs_test s j}"
  unfolding members_clear by (rule card_Suc_Diff1) (simp_all add: members_finite)

lemma card_bound: "card {i. bs_test s i} \<le> bs_size s"
proof -
  have "card {i. bs_test s i} \<le> card {..<bs_size s}"
    by (rule card_mono) (auto dest: test_bound)
  then show ?thesis by simp
qed

lemma full_iff: "card {i. bs_test s i} = bs_size s \<longleftrightarrow> (\<forall>i < bs_size s. bs_test s i)"
proof
  assume c: "card {i. bs_test s i} = bs_size s"
  have "{i. bs_test s i} = {..<bs_size s}"
    by (rule card_subset_eq) (use c in \<open>auto dest: test_bound\<close>)
  then show "\<forall>i < bs_size s. bs_test s i" by blast
next
  assume "\<forall>i < bs_size s. bs_test s i"
  then have "{i. bs_test s i} = {..<bs_size s}" by (auto dest: test_bound)
  then show "card {i. bs_test s i} = bs_size s" by simp
qed

end

section \<open>Identifier pools\<close>

locale id_pool =
  fixes pool_inv :: "'p \<Rightarrow> bool"
    and pool_cap :: "'p \<Rightarrow> nat"
    and pool_used :: "'p \<Rightarrow> nat set"
    and pool_alloc :: "'p \<Rightarrow> (nat \<times> 'p) option"
    and pool_free :: "'p \<Rightarrow> nat \<Rightarrow> 'p option"
  assumes used_bound: "pool_inv p \<Longrightarrow> pool_used p \<subseteq> {..<pool_cap p}"
    and alloc_Some: "pool_inv p \<Longrightarrow> pool_alloc p = Some (i, q) \<Longrightarrow>
        pool_inv q \<and> pool_cap q = pool_cap p \<and> i < pool_cap p \<and>
        i \<notin> pool_used p \<and> pool_used q = insert i (pool_used p)"
    and alloc_None: "pool_inv p \<Longrightarrow> pool_alloc p = None \<longleftrightarrow> pool_used p = {..<pool_cap p}"
    and free_Some: "pool_inv p \<Longrightarrow> pool_free p i = Some q \<Longrightarrow>
        pool_inv q \<and> pool_cap q = pool_cap p \<and> i \<in> pool_used p \<and> pool_used q = pool_used p - {i}"
    and free_None: "pool_inv p \<Longrightarrow> pool_free p i = None \<longleftrightarrow> i \<notin> pool_used p"
begin

fun alloc_many :: "nat \<Rightarrow> 'p \<Rightarrow> (nat list \<times> 'p) option" where
  "alloc_many 0 p = Some ([], p)"
| "alloc_many (Suc n) p =
     (case pool_alloc p of
        None \<Rightarrow> None
      | Some (i, q) \<Rightarrow> (case alloc_many n q of None \<Rightarrow> None | Some (is, r) \<Rightarrow> Some (i # is, r)))"

lemma used_finite: "pool_inv p \<Longrightarrow> finite (pool_used p)"
  using used_bound finite_subset by blast

lemma alloc_many_distinct:
  "pool_inv p \<Longrightarrow> alloc_many n p = Some (is, q) \<Longrightarrow>
   pool_inv q \<and> pool_cap q = pool_cap p \<and> length is = n \<and> distinct is \<and>
   set is \<inter> pool_used p = {} \<and> pool_used q = set is \<union> pool_used p"
proof (induction n arbitrary: p "is")
  case 0
  then show ?case by simp
next
  case (Suc n)
  then obtain i p1 is1 where a: "pool_alloc p = Some (i, p1)"
      and r: "alloc_many n p1 = Some (is1, q)" and eq: "is = i # is1"
    by (auto split: option.splits)
  note s = alloc_Some [OF Suc.prems(1) a]
  from Suc.IH [OF _ r] s eq show ?case by auto
qed

lemma alloc_many_total:
  "pool_inv p \<Longrightarrow> n + card (pool_used p) \<le> pool_cap p \<Longrightarrow> \<exists>is q. alloc_many n p = Some (is, q)"
proof (induction n arbitrary: p)
  case 0
  then show ?case by simp
next
  case (Suc n)
  have "pool_alloc p \<noteq> None"
    using Suc.prems alloc_None by fastforce
  then obtain i q where a: "pool_alloc p = Some (i, q)" by auto
  note s = alloc_Some [OF Suc.prems(1) a]
  then have "card (pool_used q) = Suc (card (pool_used p))"
    using used_finite [OF Suc.prems(1)] by simp
  then obtain "is" r where "alloc_many n q = Some (is, r)"
    using Suc.IH [of q] s Suc.prems(2) by auto
  with a show ?case by simp
qed

end

section \<open>Bounded first-in first-out queues\<close>

locale bounded_fifo =
  fixes q_inv :: "'q \<Rightarrow> bool"
    and q_room :: "'q \<Rightarrow> nat"
    and q_elem :: "'q \<Rightarrow> 'a \<Rightarrow> bool"
    and q_list :: "'q \<Rightarrow> 'a list"
    and q_push :: "'q \<Rightarrow> 'a \<Rightarrow> 'q option"
    and q_pop :: "'q \<Rightarrow> ('a \<times> 'q) option"
  assumes push_Some: "q_inv q \<Longrightarrow> q_elem q x \<Longrightarrow> q_push q x = Some r \<Longrightarrow>
        q_inv r \<and> q_room r = q_room q \<and> q_elem r = q_elem q \<and> q_list r = q_list q @ [x]"
    and push_None: "q_inv q \<Longrightarrow> q_elem q x \<Longrightarrow> q_push q x = None \<longleftrightarrow> length (q_list q) = q_room q"
    and pop_Some: "q_inv q \<Longrightarrow> q_pop q = Some (x, r) \<Longrightarrow>
        q_inv r \<and> q_room r = q_room q \<and> q_elem r = q_elem q \<and> q_list q = x # q_list r"
    and pop_None: "q_inv q \<Longrightarrow> q_pop q = None \<longleftrightarrow> q_list q = []"
begin

fun push_all :: "'q \<Rightarrow> 'a list \<Rightarrow> 'q option" where
  "push_all q [] = Some q"
| "push_all q (x # xs) = (case q_push q x of None \<Rightarrow> None | Some r \<Rightarrow> push_all r xs)"

fun pop_many :: "nat \<Rightarrow> 'q \<Rightarrow> ('a list \<times> 'q) option" where
  "pop_many 0 q = Some ([], q)"
| "pop_many (Suc n) q =
     (case q_pop q of
        None \<Rightarrow> None
      | Some (x, r) \<Rightarrow> (case pop_many n r of None \<Rightarrow> None | Some (xs, t) \<Rightarrow> Some (x # xs, t)))"

lemma push_all_list:
  "q_inv q \<Longrightarrow> \<forall>x \<in> set xs. q_elem q x \<Longrightarrow> push_all q xs = Some r \<Longrightarrow>
   q_inv r \<and> q_room r = q_room q \<and> q_list r = q_list q @ xs"
proof (induction xs arbitrary: q)
  case Nil
  then show ?case by simp
next
  case (Cons x xs)
  then obtain t where p: "q_push q x = Some t" and a: "push_all t xs = Some r"
    by (auto split: option.splits)
  from push_Some [OF Cons.prems(1) _ p] Cons.IH [OF _ _ a] Cons.prems(2) show ?case by simp
qed

lemma push_all_total:
  "q_inv q \<Longrightarrow> \<forall>x \<in> set xs. q_elem q x \<Longrightarrow> length (q_list q) + length xs \<le> q_room q \<Longrightarrow>
   \<exists>r. push_all q xs = Some r"
proof (induction xs arbitrary: q)
  case Nil
  then show ?case by simp
next
  case (Cons x xs)
  then have "q_push q x \<noteq> None" by (simp add: push_None)
  then obtain t where p: "q_push q x = Some t" by auto
  with push_Some [OF Cons.prems(1) _ p] Cons.IH [of t] Cons.prems(2,3) show ?case by auto
qed

lemma pop_many_list:
  "q_inv q \<Longrightarrow> n \<le> length (q_list q) \<Longrightarrow>
   \<exists>r. pop_many n q = Some (take n (q_list q), r) \<and> q_inv r \<and> q_list r = drop n (q_list q)"
proof (induction n arbitrary: q)
  case 0
  then show ?case by simp
next
  case (Suc n)
  then have "q_pop q \<noteq> None" by (auto simp: pop_None)
  then obtain x t where p: "q_pop q = Some (x, t)" by auto
  note s = pop_Some [OF Suc.prems(1) p]
  with Suc.IH [of t] Suc.prems(2) obtain r where
    "pop_many n t = Some (take n (q_list t), r)" "q_inv r" "q_list r = drop n (q_list t)"
    by auto
  with p s show ?case by auto
qed

lemma push_all_pop_many:
  assumes "q_inv q" and "q_list q = []" and "\<forall>x \<in> set xs. q_elem q x" and "length xs \<le> q_room q"
  shows "\<exists>r t. push_all q xs = Some r \<and> pop_many (length xs) r = Some (xs, t) \<and> q_list t = []"
proof -
  from assms obtain r where r: "push_all q xs = Some r" using push_all_total [of q xs] by auto
  from push_all_list [OF assms(1,3) r] assms(2) have "q_inv r" "q_list r = xs" by auto
  with pop_many_list [of r "length xs"] r show ?thesis by auto
qed

end

section \<open>Transition systems with an inductive invariant\<close>

locale invariant_system =
  fixes init :: "'s \<Rightarrow> bool"
    and step :: "'s \<Rightarrow> 's \<Rightarrow> bool"
    and invariant :: "'s \<Rightarrow> bool"
  assumes init_inv: "init s \<Longrightarrow> invariant s"
    and step_inv: "invariant s \<Longrightarrow> step s t \<Longrightarrow> invariant t"
begin

lemma reach_inv: "init s \<Longrightarrow> step\<^sup>*\<^sup>* s t \<Longrightarrow> invariant t"
proof -
  assume "init s" and st: "step\<^sup>*\<^sup>* s t"
  then have "invariant s" by (simp add: init_inv)
  with st show "invariant t" by (induction rule: rtranclp_induct) (auto intro: step_inv)
qed

end

end
