(* ===== verification/Ds_Bitmap.thy ===== *)
theory Ds_Bitmap
  imports Interfaces
begin

text \<open>
  The fixed-size bitmap over caller-owned storage
  (src/core/kernel/src/ds/bh_bitmap.c, src/core/kernel/include/bharat/kernel/ds/bh_bitmap.h).
  The abstraction of a bitmap is the set of its set bits.
\<close>

section \<open>Model\<close>

record bh_bitmap =
  bm_bits :: "u8 list"
  bm_size_bits :: nat

definition bh_bitmap_init :: "bh_bitmap option \<Rightarrow> u8 list option \<Rightarrow> nat \<Rightarrow> kstatus \<times> bh_bitmap option" where
  "bh_bitmap_init bitmap storage size_bits =
     (case (bitmap, storage) of
        (Some _, Some st) \<Rightarrow>
          let n = (size_bits + 7) div 8
          in (K_OK, Some \<lparr>bm_bits = replicate n 0 @ drop n st, bm_size_bits = size_bits\<rparr>)
      | _ \<Rightarrow> (K_ERR_INVALID_ARG, bitmap))"

definition bh_bitmap_set :: "bh_bitmap \<Rightarrow> nat \<Rightarrow> kstatus \<times> bh_bitmap" where
  "bh_bitmap_set bitmap b =
     (if b \<ge> bm_size_bits bitmap then (K_ERR_INVALID_ARG, bitmap)
      else (K_OK, bitmap\<lparr>bm_bits := byte_set (bm_bits bitmap) b\<rparr>))"

definition bh_bitmap_clear :: "bh_bitmap \<Rightarrow> nat \<Rightarrow> kstatus \<times> bh_bitmap" where
  "bh_bitmap_clear bitmap b =
     (if b \<ge> bm_size_bits bitmap then (K_ERR_INVALID_ARG, bitmap)
      else (K_OK, bitmap\<lparr>bm_bits := byte_clear (bm_bits bitmap) b\<rparr>))"

definition bh_bitmap_test :: "bh_bitmap \<Rightarrow> nat \<Rightarrow> bool" where
  "bh_bitmap_test bitmap b =
     (if b \<ge> bm_size_bits bitmap then False else byte_test (bm_bits bitmap) b)"

definition bh_bitmap_find_first_clear :: "bh_bitmap \<Rightarrow> nat \<Rightarrow> kstatus \<times> nat" where
  "bh_bitmap_find_first_clear bitmap out_bit =
     (case find (\<lambda>i. \<not> bh_bitmap_test bitmap i) [0..<bm_size_bits bitmap] of
        Some i \<Rightarrow> (K_OK, i)
      | None \<Rightarrow> (K_ERR_NOT_FOUND, out_bit))"

definition bh_bitmap_find_first_set :: "bh_bitmap \<Rightarrow> nat \<Rightarrow> kstatus \<times> nat" where
  "bh_bitmap_find_first_set bitmap out_bit =
     (case find (\<lambda>i. bh_bitmap_test bitmap i) [0..<bm_size_bits bitmap] of
        Some i \<Rightarrow> (K_OK, i)
      | None \<Rightarrow> (K_ERR_NOT_FOUND, out_bit))"

text \<open>The bound check adds two values of type \<open>size_t\<close>, so the sum wraps at \<open>2 ^ 64\<close>.\<close>

definition bh_bitmap_set_range :: "bh_bitmap \<Rightarrow> nat \<Rightarrow> nat \<Rightarrow> kstatus \<times> bh_bitmap" where
  "bh_bitmap_set_range bitmap start cnt =
     (if (start + cnt) mod 2 ^ 64 > bm_size_bits bitmap then (K_ERR_INVALID_ARG, bitmap)
      else (K_OK, fold (\<lambda>i bm. snd (bh_bitmap_set bm ((start + i) mod 2 ^ 64))) [0..<cnt] bitmap))"

definition bh_bitmap_clear_range :: "bh_bitmap \<Rightarrow> nat \<Rightarrow> nat \<Rightarrow> kstatus \<times> bh_bitmap" where
  "bh_bitmap_clear_range bitmap start cnt =
     (if (start + cnt) mod 2 ^ 64 > bm_size_bits bitmap then (K_ERR_INVALID_ARG, bitmap)
      else (K_OK, fold (\<lambda>i bm. snd (bh_bitmap_clear bm ((start + i) mod 2 ^ 64))) [0..<cnt] bitmap))"

section \<open>Invariant and abstraction\<close>

definition bitmap_wf :: "bh_bitmap \<Rightarrow> bool" where
  "bitmap_wf bm \<longleftrightarrow> (bm_size_bits bm + 7) div 8 \<le> length (bm_bits bm)"

definition bitmap_members :: "bh_bitmap \<Rightarrow> nat set" where
  "bitmap_members bm = {i. bh_bitmap_test bm i}"

lemma bitmap_wf_index: "bitmap_wf bm \<Longrightarrow> i < bm_size_bits bm \<Longrightarrow> i div 8 < length (bm_bits bm)"
  using byte_index_bound [of i "bm_size_bits bm"] by (auto simp: bitmap_wf_def)

lemma bitmap_set_size [simp]: "bm_size_bits (snd (bh_bitmap_set bm i)) = bm_size_bits bm"
  by (simp add: bh_bitmap_set_def)

lemma bitmap_clear_size [simp]: "bm_size_bits (snd (bh_bitmap_clear bm i)) = bm_size_bits bm"
  by (simp add: bh_bitmap_clear_def)

lemma bitmap_set_wf [simp]: "bitmap_wf bm \<Longrightarrow> bitmap_wf (snd (bh_bitmap_set bm i))"
  by (simp add: bh_bitmap_set_def bitmap_wf_def)

lemma bitmap_clear_wf [simp]: "bitmap_wf bm \<Longrightarrow> bitmap_wf (snd (bh_bitmap_clear bm i))"
  by (simp add: bh_bitmap_clear_def bitmap_wf_def)

lemma bitmap_test_set:
  "bitmap_wf bm \<Longrightarrow>
   bh_bitmap_test (snd (bh_bitmap_set bm i)) j \<longleftrightarrow> (j = i \<and> i < bm_size_bits bm) \<or> bh_bitmap_test bm j"
  by (auto simp: bh_bitmap_test_def bh_bitmap_set_def bitmap_wf_index)

lemma bitmap_test_clear:
  "bitmap_wf bm \<Longrightarrow>
   bh_bitmap_test (snd (bh_bitmap_clear bm i)) j \<longleftrightarrow> j \<noteq> i \<and> bh_bitmap_test bm j"
  by (auto simp: bh_bitmap_test_def bh_bitmap_clear_def bitmap_wf_index)

lemma bitmap_test_size: "bh_bitmap_test bm i \<Longrightarrow> i < bm_size_bits bm"
  by (simp add: bh_bitmap_test_def split: if_splits)

interpretation bitmap: bitset bitmap_wf bm_size_bits bh_bitmap_test
    "\<lambda>bm i. snd (bh_bitmap_set bm i)" "\<lambda>bm i. snd (bh_bitmap_clear bm i)"
  by unfold_locales (auto simp: bitmap_test_set bitmap_test_clear dest: bitmap_test_size)

lemma bitmap_range_image:
  "start + cnt < 2 ^ 64 \<Longrightarrow> (\<lambda>i. (start + i) mod 2 ^ 64) ` set [0..<cnt] = {start..<start + cnt}"
proof -
  assume b: "start + cnt < 2 ^ 64"
  have "(\<lambda>i. (start + i) mod 2 ^ 64) ` set [0..<cnt] = (\<lambda>i. start + i) ` {0..<cnt}"
    using b by (intro image_cong) auto
  also have "\<dots> = {start..<start + cnt}"
    by (simp add: add.commute)
  finally show ?thesis .
qed

section \<open>Properties\<close>



end
