(* ===== verification/Ds_Handle_Table.thy ===== *)
theory Ds_Handle_Table
  imports Interfaces
begin

text \<open>
  Fixed-capacity handle tables with generations (src/core/kernel/src/ds/bh_handle_table.c).
  A handle packs a slot index and the generation the slot had when the handle was issued; an
  object pointer is a 64-bit address, 0 for NULL.
\<close>

section \<open>Model\<close>

record bh_handle_slot =
  hs_generation :: u32
  hs_type :: u32
  hs_object :: u64
  hs_rights :: u64
  hs_active :: bool

record bh_handle_table =
  ht_slots :: "bh_handle_slot list"
  ht_capacity :: nat
  ht_count :: nat

definition bh_handle_make :: "u32 \<Rightarrow> u32 \<Rightarrow> u64" where
  "bh_handle_make index generation = push_bit 32 (ucast generation) OR ucast index"

definition bh_handle_index :: "u64 \<Rightarrow> u32" where
  "bh_handle_index handle = ucast (handle AND 0xFFFFFFFF)"

definition bh_handle_generation :: "u64 \<Rightarrow> u32" where
  "bh_handle_generation handle = ucast (drop_bit 32 handle)"

definition handle_slot_zero :: bh_handle_slot where
  "handle_slot_zero = \<lparr>hs_generation = 0, hs_type = 0, hs_object = 0, hs_rights = 0, hs_active = False\<rparr>"

definition bh_handle_table_init ::
    "bh_handle_table option \<Rightarrow> bh_handle_slot list option \<Rightarrow> nat \<Rightarrow> kstatus \<times> bh_handle_table option" where
  "bh_handle_table_init table storage capacity =
     (case (table, storage) of
        (Some _, Some st) \<Rightarrow>
          if capacity = 0 then (K_ERR_INVALID_ARG, table)
          else (K_OK, Some \<lparr>ht_slots = replicate capacity handle_slot_zero @ drop capacity st,
                            ht_capacity = capacity, ht_count = 0\<rparr>)
      | _ \<Rightarrow> (K_ERR_INVALID_ARG, table))"

definition handle_slot_claim :: "bh_handle_slot \<Rightarrow> u64 \<Rightarrow> u32 \<Rightarrow> u64 \<Rightarrow> bh_handle_slot" where
  "handle_slot_claim s object type rights =
     s\<lparr>hs_active := True, hs_object := object, hs_type := type, hs_rights := rights,
       hs_generation := hs_generation s + 1\<rparr>"

definition bh_handle_alloc ::
    "bh_handle_table option \<Rightarrow> u64 \<Rightarrow> u32 \<Rightarrow> u64 \<Rightarrow> u64 option \<Rightarrow>
     kstatus \<times> bh_handle_table option \<times> u64 option" where
  "bh_handle_alloc table object type rights out_handle =
     (case (table, out_handle) of
        (Some t, Some _) \<Rightarrow>
          if object = 0 then (K_ERR_INVALID_ARG, table, out_handle)
          else (case find (\<lambda>i. \<not> hs_active (ht_slots t ! i)) [0..<ht_capacity t] of
                  Some i \<Rightarrow>
                    let s = handle_slot_claim (ht_slots t ! i) object type rights
                    in (K_OK, Some (t\<lparr>ht_slots := (ht_slots t)[i := s], ht_count := ht_count t + 1\<rparr>),
                        Some (bh_handle_make (of_nat i) (hs_generation s)))
                | None \<Rightarrow> (K_ERR_NO_MEMORY, table, out_handle))
      | _ \<Rightarrow> (K_ERR_INVALID_ARG, table, out_handle))"

definition bh_handle_lookup ::
    "bh_handle_table option \<Rightarrow> u64 \<Rightarrow> u32 \<Rightarrow> u64 option \<Rightarrow> u64 option \<Rightarrow>
     kstatus \<times> u64 option \<times> u64 option" where
  "bh_handle_lookup table handle expected_type out_object out_rights =
     (case (table, out_object) of
        (Some t, Some _) \<Rightarrow>
          let index = unat (bh_handle_index handle) in
          if index \<ge> ht_capacity t then (K_ERR_INVALID_ARG, out_object, out_rights)
          else let slot = ht_slots t ! index in
          if \<not> hs_active slot \<or> hs_generation slot \<noteq> bh_handle_generation handle
          then (K_ERR_NOT_FOUND, out_object, out_rights)
          else if expected_type \<noteq> 0 \<and> hs_type slot \<noteq> expected_type
          then (K_ERR_CAP_WRONG_TYPE, out_object, out_rights)
          else (K_OK, Some (hs_object slot), map_option (\<lambda>_. hs_rights slot) out_rights)
      | _ \<Rightarrow> (K_ERR_INVALID_ARG, out_object, out_rights))"

definition bh_handle_revoke :: "bh_handle_table option \<Rightarrow> u64 \<Rightarrow> kstatus \<times> bh_handle_table option" where
  "bh_handle_revoke table handle =
     (case table of
        None \<Rightarrow> (K_ERR_INVALID_ARG, table)
      | Some t \<Rightarrow>
          let index = unat (bh_handle_index handle) in
          if index \<ge> ht_capacity t then (K_ERR_INVALID_ARG, table)
          else let slot = ht_slots t ! index in
          if \<not> hs_active slot \<or> hs_generation slot \<noteq> bh_handle_generation handle
          then (K_ERR_NOT_FOUND, table)
          else (K_OK, Some (t\<lparr>ht_slots := (ht_slots t)[index := slot\<lparr>hs_active := False, hs_object := 0\<rparr>],
                              ht_count := ht_count t - 1\<rparr>)))"

definition bh_handle_validate :: "bh_handle_table option \<Rightarrow> u64 \<Rightarrow> bool" where
  "bh_handle_validate table handle =
     (case table of
        None \<Rightarrow> False
      | Some t \<Rightarrow>
          let index = unat (bh_handle_index handle) in
          if index \<ge> ht_capacity t then False
          else let slot = ht_slots t ! index in
               hs_active slot \<and> hs_generation slot = bh_handle_generation handle)"

section \<open>Packing\<close>

lemma handle_index_make [simp]: "bh_handle_index (bh_handle_make i g) = i"
  by (rule bit_word_eqI)
     (auto simp: bh_handle_index_def bh_handle_make_def mask_folds bit_simps dest: bit_imp_le_length)

lemma handle_generation_make [simp]: "bh_handle_generation (bh_handle_make i g) = g"
  by (rule bit_word_eqI)
     (auto simp: bh_handle_generation_def bh_handle_make_def bit_simps dest: bit_imp_le_length)

section \<open>Invariant\<close>

definition ht_active :: "bh_handle_table \<Rightarrow> nat set" where
  "ht_active t = {i. i < ht_capacity t \<and> hs_active (ht_slots t ! i)}"

definition ht_wf :: "bh_handle_table \<Rightarrow> bool" where
  "ht_wf t \<longleftrightarrow> ht_capacity t \<le> length (ht_slots t) \<and> ht_capacity t < 2 ^ 32 \<and>
     ht_count t = card (ht_active t)"

lemma ht_active_finite [simp]: "finite (ht_active t)"
  by (rule finite_subset [of _ "{..<ht_capacity t}"]) (auto simp: ht_active_def)

lemma ht_index_of_nat: "ht_wf t \<Longrightarrow> i < ht_capacity t \<Longrightarrow> unat (of_nat i :: u32) = i"
  by (simp add: ht_wf_def unat_of_nat)

lemma ht_length: "ht_wf t \<Longrightarrow> i < ht_capacity t \<Longrightarrow> i < length (ht_slots t)"
  by (simp add: ht_wf_def)

lemma handle_alloc_cases:
  assumes "ht_wf t" and "obj \<noteq> 0"
  obtains (full) "\<forall>i < ht_capacity t. hs_active (ht_slots t ! i)"
      "bh_handle_alloc (Some t) obj ty r (Some hout) = (K_ERR_NO_MEMORY, Some t, Some hout)"
  | (ok) i t' where "i < ht_capacity t" "\<not> hs_active (ht_slots t ! i)"
      "t' = t\<lparr>ht_slots := (ht_slots t)[i := handle_slot_claim (ht_slots t ! i) obj ty r],
               ht_count := ht_count t + 1\<rparr>"
      "bh_handle_alloc (Some t) obj ty r (Some hout) =
         (K_OK, Some t', Some (bh_handle_make (of_nat i) (hs_generation (ht_slots t ! i) + 1)))"
proof (cases "find (\<lambda>i. \<not> hs_active (ht_slots t ! i)) [0..<ht_capacity t]")
  case None
  then have "bh_handle_alloc (Some t) obj ty r (Some hout) = (K_ERR_NO_MEMORY, Some t, Some hout)"
    using assms(2) by (simp add: bh_handle_alloc_def)
  with None full show ?thesis by (simp add: loop_simps)
next
  case (Some i)
  then have "bh_handle_alloc (Some t) obj ty r (Some hout) =
      (K_OK, Some (t\<lparr>ht_slots := (ht_slots t)[i := handle_slot_claim (ht_slots t ! i) obj ty r],
               ht_count := ht_count t + 1\<rparr>),
       Some (bh_handle_make (of_nat i) (hs_generation (ht_slots t ! i) + 1)))"
    using assms(2) by (simp add: bh_handle_alloc_def handle_slot_claim_def)
  with Some ok [of i] show ?thesis by (simp add: loop_simps)
qed

lemma ht_active_upd:
  "i < ht_capacity t \<Longrightarrow> ht_capacity t \<le> length (ht_slots t) \<Longrightarrow>
   ht_active (t\<lparr>ht_slots := (ht_slots t)[i := s], ht_count := c\<rparr>) =
     (if hs_active s then insert i (ht_active t) else ht_active t - {i})"
  by (auto simp: ht_active_def nth_list_update)

lemma handle_alloc_wf:
  assumes "ht_wf t" and "bh_handle_alloc (Some t) obj ty r (Some hout) = (st, Some t', out)"
  shows "ht_wf t' \<and> ht_capacity t' = ht_capacity t"
proof (cases "obj = 0")
  case True
  then show ?thesis using assms by (simp add: bh_handle_alloc_def)
next
  case False
  from assms(1) False show ?thesis
  proof (cases rule: handle_alloc_cases [where ty = ty and r = r and hout = hout])
    case full
    then show ?thesis using assms by simp
  next
    case (ok i u)
    then have "i \<notin> ht_active t" by (simp add: ht_active_def)
    then show ?thesis using ok assms ht_active_upd [of i t]
      by (simp add: ht_wf_def handle_slot_claim_def)
  qed
qed

lemma handle_revoke_ok:
  assumes "bh_handle_revoke (Some t) h = (K_OK, Some t')"
  shows "unat (bh_handle_index h) < ht_capacity t \<and>
         hs_active (ht_slots t ! unat (bh_handle_index h)) \<and>
         hs_generation (ht_slots t ! unat (bh_handle_index h)) = bh_handle_generation h \<and>
         t' = t\<lparr>ht_slots := (ht_slots t)[unat (bh_handle_index h) :=
                 (ht_slots t ! unat (bh_handle_index h))\<lparr>hs_active := False, hs_object := 0\<rparr>],
               ht_count := ht_count t - 1\<rparr>"
  using assms by (auto simp: bh_handle_revoke_def Let_def status_simps split: if_splits)

lemma handle_revoke_shape: "\<exists>st t'. bh_handle_revoke (Some t) h = (st, Some t')"
  by (simp add: bh_handle_revoke_def Let_def)

lemma handle_alloc_shape: "\<exists>st t' out. bh_handle_alloc (Some t) obj ty r (Some hout) = (st, Some t', out)"
  by (simp add: bh_handle_alloc_def Let_def split: option.split)

lemma handle_revoke_wf:
  assumes "ht_wf t" and "bh_handle_revoke (Some t) h = (st, Some t')"
  shows "ht_wf t' \<and> ht_capacity t' = ht_capacity t"
proof (cases "st = K_OK")
  case True
  let ?i = "unat (bh_handle_index h)"
  note r = handle_revoke_ok [OF assms(2) [unfolded True]]
  then have "?i \<in> ht_active t" by (simp add: ht_active_def)
  then show ?thesis using r assms(1) ht_active_upd [of ?i t] by (simp add: ht_wf_def)
next
  case False
  then show ?thesis using assms by (auto simp: bh_handle_revoke_def Let_def split: if_splits)
qed

section \<open>Sequences of operations\<close>

datatype handle_op = HAlloc u64 u32 u64 | HRevoke u64

fun handle_step :: "bh_handle_table \<Rightarrow> handle_op \<Rightarrow> bh_handle_table" where
  "handle_step t (HAlloc obj ty r) = the (fst (snd (bh_handle_alloc (Some t) obj ty r (Some 0))))"
| "handle_step t (HRevoke h) = the (snd (bh_handle_revoke (Some t) h))"

definition is_alloc :: "handle_op \<Rightarrow> bool" where
  "is_alloc opn = (case opn of HAlloc _ _ _ \<Rightarrow> True | HRevoke _ \<Rightarrow> False)"

text \<open>
  After a revocation the slot of the handle has seen some number \<open>m\<close> of further allocations:
  with \<open>m = 0\<close> it is inactive, otherwise its generation has moved on by \<open>m\<close>.
\<close>

definition slot_moved :: "u64 \<Rightarrow> bh_handle_table \<Rightarrow> nat \<Rightarrow> bool" where
  "slot_moved h t k \<longleftrightarrow>
     (\<exists>m \<le> k. hs_generation (ht_slots t ! unat (bh_handle_index h)) = bh_handle_generation h + of_nat m \<and>
             (m = 0 \<longrightarrow> \<not> hs_active (ht_slots t ! unat (bh_handle_index h))))"

lemma slot_moved_alloc:
  assumes "ht_wf t" and "slot_moved h t k"
  shows "slot_moved h (handle_step t (HAlloc obj ty r)) (Suc k)"
proof (cases "obj = 0")
  case True
  with assms(2) show ?thesis by (auto simp: bh_handle_alloc_def slot_moved_def intro: le_SucI)
next
  case False
  from assms(1) False show ?thesis
  proof (cases rule: handle_alloc_cases [where ty = ty and r = r and hout = 0])
    case full
    with assms(2) show ?thesis by (auto simp: slot_moved_def intro: le_SucI)
  next
    case (ok i u)
    from assms(2) obtain m where m: "m \<le> k"
        "hs_generation (ht_slots t ! unat (bh_handle_index h)) = bh_handle_generation h + of_nat m"
        "m = 0 \<longrightarrow> \<not> hs_active (ht_slots t ! unat (bh_handle_index h))"
      by (auto simp: slot_moved_def)
    show ?thesis
    proof (cases "i = unat (bh_handle_index h)")
      case True
      with ok m assms(1) show ?thesis
        by (auto simp: slot_moved_def handle_slot_claim_def ht_length intro!: exI [of _ "Suc m"])
    next
      case False
      with ok m show ?thesis by (auto simp: slot_moved_def intro!: exI [of _ m])
    qed
  qed
qed

lemma slot_moved_revoke:
  assumes "ht_wf t" and "slot_moved h t k"
  shows "slot_moved h (handle_step t (HRevoke h')) k"
proof -
  obtain st t' where r: "bh_handle_revoke (Some t) h' = (st, Some t')"
    using handle_revoke_shape by blast
  have "slot_moved h t' k"
  proof (cases "st = K_OK")
    case True
    note u = handle_revoke_ok [OF r [unfolded True]]
    from assms(2) show ?thesis
      using u assms(1) by (cases "unat (bh_handle_index h') = unat (bh_handle_index h)")
        (auto simp: slot_moved_def ht_length)
  next
    case False
    with r have "t' = t" by (auto simp: bh_handle_revoke_def Let_def split: if_splits)
    with assms(2) show ?thesis by simp
  qed
  with r show ?thesis by simp
qed

lemma handle_step_wf: "ht_wf t \<Longrightarrow> ht_wf (handle_step t opn)"
proof (cases opn)
  case (HAlloc obj ty r)
  assume w: "ht_wf t"
  obtain st t' out where a: "bh_handle_alloc (Some t) obj ty r (Some 0) = (st, Some t', out)"
    using handle_alloc_shape by blast
  with handle_alloc_wf [OF w a] HAlloc show ?thesis by simp
next
  case (HRevoke h)
  assume w: "ht_wf t"
  obtain st t' where r: "bh_handle_revoke (Some t) h = (st, Some t')"
    using handle_revoke_shape by blast
  with handle_revoke_wf [OF w r] HRevoke show ?thesis by simp
qed

lemma slot_moved_run:
  "ht_wf t \<Longrightarrow> slot_moved h t k \<Longrightarrow>
   slot_moved h (foldl handle_step t ops) (k + length (filter is_alloc ops))"
proof (induction ops arbitrary: t k)
  case Nil
  then show ?case by simp
next
  case (Cons opn ops)
  note w = handle_step_wf [OF Cons.prems(1), of opn]
  show ?case
  proof (cases opn)
    case (HAlloc obj ty r)
    with Cons.IH [OF w, of "Suc k"] slot_moved_alloc [OF Cons.prems] show ?thesis
      by (simp add: is_alloc_def)
  next
    case (HRevoke h')
    with Cons.IH [OF w, of k] slot_moved_revoke [OF Cons.prems] show ?thesis
      by (simp add: is_alloc_def)
  qed
qed

lemma slot_moved_invalid:
  assumes "slot_moved h t k" and "k < 2 ^ 32"
  shows "\<not> bh_handle_validate (Some t) h"
proof -
  from assms(1) obtain m where m: "m \<le> k"
      "hs_generation (ht_slots t ! unat (bh_handle_index h)) = bh_handle_generation h + of_nat m"
      "m = 0 \<longrightarrow> \<not> hs_active (ht_slots t ! unat (bh_handle_index h))"
    by (auto simp: slot_moved_def)
  have "m \<noteq> 0 \<Longrightarrow> (of_nat m :: u32) \<noteq> 0"
    using m(1) assms(2) by (simp add: word_of_nat_eq_0_iff dvd_imp_le nat_dvd_not_less)
  with m show ?thesis by (auto simp: bh_handle_validate_def Let_def)
qed

section \<open>Properties\<close>

text \<open>
  C22: A handle that a well-formed table has just issued looks up to the object and the rights
  it was issued for, when the expected type is the issued one or is not checked.
\<close>

theorem handle_alloc_lookup:
  assumes "ht_wf t"
    and "bh_handle_alloc (Some t) obj ty r (Some hout) = (K_OK, Some t', Some h)"
    and "expected = 0 \<or> expected = ty"
  shows "bh_handle_lookup (Some t') h expected (Some oout) (Some rout) = (K_OK, Some obj, Some r)"
proof -
  have "obj \<noteq> 0" using assms(2) by (auto simp: bh_handle_alloc_def status_simps)
  with assms(1) show ?thesis
  proof (cases rule: handle_alloc_cases [where ty = ty and r = r and hout = hout])
    case full
    with assms(2) show ?thesis by (simp add: status_simps)
  next
    case (ok i u)
    with assms show ?thesis
      by (auto simp: bh_handle_lookup_def ht_index_of_nat ht_length handle_slot_claim_def)
  qed
qed

theorem handle_alloc_lookup_witness:
  "bh_handle_lookup (Some \<lparr>ht_slots = [\<lparr>hs_generation = 1, hs_type = 3, hs_object = 64, hs_rights = 5,
       hs_active = True\<rparr>], ht_capacity = 1, ht_count = 1\<rparr>) (bh_handle_make 0 1) 3 (Some 0) (Some 0)
     = (K_OK, Some 64, Some 5)"
proof -
  let ?t = "\<lparr>ht_slots = [handle_slot_zero], ht_capacity = 1, ht_count = 0\<rparr>"
  have w: "ht_wf ?t" by (auto simp: ht_wf_def ht_active_def handle_slot_zero_def)
  have a: "bh_handle_alloc (Some ?t) 64 3 5 (Some 0) =
      (K_OK, Some \<lparr>ht_slots = [\<lparr>hs_generation = 1, hs_type = 3, hs_object = 64, hs_rights = 5,
       hs_active = True\<rparr>], ht_capacity = 1, ht_count = 1\<rparr>, Some (bh_handle_make 0 1))"
    by (simp add: bh_handle_alloc_def handle_slot_zero_def handle_slot_claim_def upt_conv_Cons)
  show ?thesis by (rule handle_alloc_lookup [OF w a]) simp
qed

text \<open>
  C23: A revoked handle stays invalid: no sequence of further allocations and revocations makes
  it valid again, as long as the sequence has fewer than \<open>2 ^ 32\<close> allocations (then the 32-bit
  generation of its slot has not come round).
\<close>

theorem handle_revoked_stays_invalid:
  assumes "ht_wf t"
    and "bh_handle_revoke (Some t) h = (K_OK, Some t')"
    and "length (filter is_alloc ops) < 2 ^ 32"
  shows "\<not> bh_handle_validate (Some (foldl handle_step t' ops)) h"
proof -
  note r = handle_revoke_ok [OF assms(2)]
  have "slot_moved h t' 0"
    using r assms(1) by (auto simp: slot_moved_def ht_length)
  with handle_revoke_wf [OF assms(1,2)] have "slot_moved h (foldl handle_step t' ops) (length (filter is_alloc ops))"
    using slot_moved_run [of t' h 0 ops] by simp
  then show ?thesis using assms(3) by (rule slot_moved_invalid)
qed

theorem handle_revoked_stays_invalid_witness:
  "\<not> bh_handle_validate (Some (foldl handle_step
      \<lparr>ht_slots = [\<lparr>hs_generation = 1, hs_type = 3, hs_object = 0, hs_rights = 5, hs_active = False\<rparr>],
       ht_capacity = 1, ht_count = 0\<rparr> [HAlloc 96 3 5, HRevoke 7])) (bh_handle_make 0 1)"
proof -
  let ?t = "\<lparr>ht_slots = [\<lparr>hs_generation = 1, hs_type = 3, hs_object = 64, hs_rights = 5,
       hs_active = True\<rparr>], ht_capacity = 1, ht_count = 1\<rparr>"
  have "ht_active ?t = {0}" by (auto simp: ht_active_def)
  then have w: "ht_wf ?t" by (simp add: ht_wf_def)
  have r: "bh_handle_revoke (Some ?t) (bh_handle_make 0 1) = (K_OK,
      Some \<lparr>ht_slots = [\<lparr>hs_generation = 1, hs_type = 3, hs_object = 0, hs_rights = 5, hs_active = False\<rparr>],
       ht_capacity = 1, ht_count = 0\<rparr>)"
    by (simp add: bh_handle_revoke_def)
  show ?thesis
    by (rule handle_revoked_stays_invalid [OF w r]) (simp add: is_alloc_def)
qed

end
