(* ===== verification/Ds_Ring.thy ===== *)
theory Ds_Ring
  imports Interfaces
begin

text \<open>
  The bounded ring buffer (src/core/kernel/src/ds/bh_ring.c): elements of a fixed byte size in
  caller-owned storage, one slot kept free to tell a full ring from an empty one. The byte
  offset of an element is a 32-bit product. The ring refines a bounded queue of byte strings.
\<close>

section \<open>Model\<close>

record bh_ring =
  rg_head :: nat
  rg_tail :: nat
  rg_capacity :: nat
  rg_element_size :: nat
  rg_storage :: "u8 list"

definition bh_ring_init :: "bh_ring \<Rightarrow> u8 list \<Rightarrow> nat \<Rightarrow> nat \<Rightarrow> bh_ring" where
  "bh_ring_init ring storage capacity element_size =
     ring\<lparr>rg_storage := storage, rg_capacity := capacity, rg_element_size := element_size,
          rg_head := 0, rg_tail := 0\<rparr>"

definition bh_ring_is_empty :: "bh_ring \<Rightarrow> bool" where
  "bh_ring_is_empty ring \<longleftrightarrow> rg_head ring = rg_tail ring"

definition bh_ring_is_full :: "bh_ring \<Rightarrow> bool" where
  "bh_ring_is_full ring \<longleftrightarrow> ((rg_head ring + 1) mod 2 ^ 32) mod rg_capacity ring = rg_tail ring"

text \<open>\<open>memcpy\<close> to and from the storage at a byte offset.\<close>

definition mem_write :: "u8 list \<Rightarrow> nat \<Rightarrow> u8 list \<Rightarrow> u8 list" where
  "mem_write m off xs = take off m @ xs @ drop (off + length xs) m"

definition mem_read :: "u8 list \<Rightarrow> nat \<Rightarrow> nat \<Rightarrow> u8 list" where
  "mem_read m off n = take n (drop off m)"

definition ring_offset :: "bh_ring \<Rightarrow> nat \<Rightarrow> nat" where
  "ring_offset ring i = (i * rg_element_size ring) mod 2 ^ 32"

definition bh_ring_push :: "bh_ring \<Rightarrow> u8 list \<Rightarrow> kstatus \<times> bh_ring" where
  "bh_ring_push ring data =
     (if bh_ring_is_full ring then (K_ERR_IPC_QUEUE_FULL, ring)
      else (K_OK,
            ring\<lparr>rg_storage := mem_write (rg_storage ring) (ring_offset ring (rg_head ring))
                                 (take (rg_element_size ring) data),
                 rg_head := ((rg_head ring + 1) mod 2 ^ 32) mod rg_capacity ring\<rparr>))"

definition bh_ring_pop :: "bh_ring \<Rightarrow> u8 list option \<Rightarrow> kstatus \<times> bh_ring \<times> u8 list option" where
  "bh_ring_pop ring data =
     (if bh_ring_is_empty ring then (K_ERR_NOT_FOUND, ring, data)
      else (K_OK,
            ring\<lparr>rg_tail := ((rg_tail ring + 1) mod 2 ^ 32) mod rg_capacity ring\<rparr>,
            map_option (\<lambda>_. mem_read (rg_storage ring) (ring_offset ring (rg_tail ring))
                              (rg_element_size ring)) data))"

section \<open>Invariant and abstraction\<close>

definition ring_wf :: "bh_ring \<Rightarrow> bool" where
  "ring_wf r \<longleftrightarrow> 0 < rg_capacity r \<and> rg_capacity r < 2 ^ 32 \<and>
     rg_head r < rg_capacity r \<and> rg_tail r < rg_capacity r \<and>
     rg_capacity r * rg_element_size r < 2 ^ 32 \<and>
     rg_capacity r * rg_element_size r \<le> length (rg_storage r)"

definition ring_count :: "bh_ring \<Rightarrow> nat" where
  "ring_count r = (if rg_tail r \<le> rg_head r then rg_head r - rg_tail r
                   else rg_capacity r - rg_tail r + rg_head r)"

definition ring_elem :: "bh_ring \<Rightarrow> nat \<Rightarrow> u8 list" where
  "ring_elem r i = mem_read (rg_storage r) (i * rg_element_size r) (rg_element_size r)"

definition ring_contents :: "bh_ring \<Rightarrow> u8 list list" where
  "ring_contents r = map (\<lambda>k. ring_elem r ((rg_tail r + k) mod rg_capacity r)) [0..<ring_count r]"

lemma length_ring_contents [simp]: "length (ring_contents r) = ring_count r"
  by (simp add: ring_contents_def)

lemma ring_slot_end: "ring_wf r \<Longrightarrow> i < rg_capacity r \<Longrightarrow>
    i * rg_element_size r + rg_element_size r \<le> rg_capacity r * rg_element_size r"
  by (metis Suc_leI add.commute mult_Suc mult_le_mono1)

lemma ring_offset_eq: "ring_wf r \<Longrightarrow> i < rg_capacity r \<Longrightarrow> ring_offset r i = i * rg_element_size r"
  using ring_slot_end [of r i] by (auto simp: ring_offset_def ring_wf_def)

lemma ring_succ: "ring_wf r \<Longrightarrow> i < rg_capacity r \<Longrightarrow>
    ((i + 1) mod 2 ^ 32) mod rg_capacity r = (if i + 1 = rg_capacity r then 0 else i + 1)"
  by (auto simp: ring_wf_def)

lemma mem_read_write_same:
  "off + length xs \<le> length m \<Longrightarrow> mem_read (mem_write m off xs) off (length xs) = xs"
  by (simp add: mem_read_def mem_write_def)

lemma mem_read_write_before:
  "off + n \<le> off' \<Longrightarrow> off' \<le> length m \<Longrightarrow> mem_read (mem_write m off' xs) off n = mem_read m off n"
  by (simp add: mem_read_def mem_write_def drop_take)

lemma mem_read_write_after:
  "off' + length xs \<le> off \<Longrightarrow> off' + length xs \<le> length m \<Longrightarrow>
   mem_read (mem_write m off' xs) off n = mem_read m off n"
  by (simp add: mem_read_def mem_write_def)

lemma length_mem_write: "off + length xs \<le> length m \<Longrightarrow> length (mem_write m off xs) = length m"
  by (simp add: mem_write_def)

lemma ring_elem_write:
  assumes "ring_wf r" and "i < rg_capacity r" and "j < rg_capacity r"
    and "length xs = rg_element_size r"
    and "rg_storage r' = mem_write (rg_storage r) (i * rg_element_size r) xs"
    and "rg_element_size r' = rg_element_size r"
  shows "ring_elem r' j = (if j = i then xs else ring_elem r j)"
proof -
  let ?e = "rg_element_size r"
  have bi: "i * ?e + ?e \<le> length (rg_storage r)" and bj: "j * ?e + ?e \<le> length (rg_storage r)"
    using ring_slot_end [OF assms(1,2)] ring_slot_end [OF assms(1,3)] assms(1)
    by (auto simp: ring_wf_def)
  consider "j = i" | "j < i" | "i < j" by linarith
  then show ?thesis
  proof cases
    case 1
    then show ?thesis using bi assms(4,5,6) mem_read_write_same [of "i * ?e" xs "rg_storage r"]
      by (simp add: ring_elem_def)
  next
    case 2
    then have "j * ?e + ?e \<le> i * ?e" by (metis Suc_leI add.commute mult_Suc mult_le_mono1)
    then show ?thesis using 2 bi assms(5,6)
        mem_read_write_before [of "j * ?e" ?e "i * ?e" "rg_storage r" xs]
      by (simp add: ring_elem_def)
  next
    case 3
    then have "i * ?e + ?e \<le> j * ?e" by (metis Suc_leI add.commute mult_Suc mult_le_mono1)
    then show ?thesis using 3 bi assms(4,5,6)
        mem_read_write_after [of "i * ?e" xs "j * ?e" "rg_storage r" ?e]
      by (simp add: ring_elem_def)
  qed
qed

lemma ring_full_iff: "ring_wf r \<Longrightarrow> bh_ring_is_full r \<longleftrightarrow> ring_count r = rg_capacity r - 1"
  using ring_succ [of r "rg_head r"] by (auto simp: bh_ring_is_full_def ring_count_def ring_wf_def)

lemma ring_empty_iff: "ring_wf r \<Longrightarrow> bh_ring_is_empty r \<longleftrightarrow> ring_count r = 0"
  by (auto simp: bh_ring_is_empty_def ring_count_def ring_wf_def)

lemma ring_head_index: "ring_wf r \<Longrightarrow> (rg_tail r + ring_count r) mod rg_capacity r = rg_head r"
  by (auto simp: ring_count_def ring_wf_def)

lemma ring_index_neq_head:
  assumes "ring_wf r" and "k < ring_count r"
  shows "(rg_tail r + k) mod rg_capacity r \<noteq> rg_head r"
proof (cases "rg_tail r + k < rg_capacity r")
  case True
  then show ?thesis using assms(2) by (auto simp: ring_count_def split: if_splits)
next
  case False
  have "rg_tail r < rg_capacity r" "rg_head r < rg_capacity r" using assms(1) by (auto simp: ring_wf_def)
  with False assms(2) have "rg_tail r + k - rg_capacity r < rg_head r"
    and "rg_tail r + k - rg_capacity r < rg_capacity r"
    by (auto simp: ring_count_def split: if_splits)
  with False show ?thesis by (simp add: le_mod_geq)
qed

lemma ring_push_ok:
  assumes wf: "ring_wf r" and nf: "\<not> bh_ring_is_full r" and len: "length x = rg_element_size r"
  shows "fst (bh_ring_push r x) = K_OK \<and> ring_wf (snd (bh_ring_push r x)) \<and>
         rg_capacity (snd (bh_ring_push r x)) = rg_capacity r \<and>
         rg_element_size (snd (bh_ring_push r x)) = rg_element_size r \<and>
         ring_contents (snd (bh_ring_push r x)) = ring_contents r @ [x]"
proof -
  let ?r = "snd (bh_ring_push r x)"
  have h: "rg_head r < rg_capacity r" using wf by (simp add: ring_wf_def)
  have st: "rg_storage ?r = mem_write (rg_storage r) (rg_head r * rg_element_size r) x"
    and es: "rg_element_size ?r = rg_element_size r" and cp: "rg_capacity ?r = rg_capacity r"
    and tl: "rg_tail ?r = rg_tail r"
    and hd: "rg_head ?r = (if rg_head r + 1 = rg_capacity r then 0 else rg_head r + 1)"
    using nf len ring_succ [OF wf h] ring_offset_eq [OF wf h] by (simp_all add: bh_ring_push_def)
  have "rg_head r * rg_element_size r + length x \<le> length (rg_storage r)"
    using ring_slot_end [OF wf h] wf len unfolding ring_wf_def by linarith
  then have ls: "length (rg_storage ?r) = length (rg_storage r)"
    unfolding st by (rule length_mem_write)
  have cnt: "ring_count ?r = ring_count r + 1"
    using nf hd tl cp wf ring_succ [OF wf h]
    by (auto simp: ring_count_def ring_wf_def bh_ring_is_full_def)
  have el: "ring_elem ?r j = (if j = rg_head r then x else ring_elem r j)" if "j < rg_capacity r" for j
    by (rule ring_elem_write [OF wf h that len st es])
  have "ring_contents ?r = ring_contents r @ [x]"
    unfolding ring_contents_def cnt cp tl
    using wf el ring_head_index [OF wf] ring_index_neq_head [OF wf]
    by (simp add: ring_wf_def)
  moreover have "ring_wf ?r" using wf hd tl cp es ls by (auto simp: ring_wf_def)
  ultimately show ?thesis using nf cp es by (simp add: bh_ring_push_def)
qed

lemma ring_push_full: "bh_ring_is_full r \<Longrightarrow> bh_ring_push r x = (K_ERR_IPC_QUEUE_FULL, r)"
  by (simp add: bh_ring_push_def)

lemma ring_pop_ok:
  assumes wf: "ring_wf r" and ne: "\<not> bh_ring_is_empty r"
  shows "\<exists>r' x. bh_ring_pop r (Some d) = (K_OK, r', Some x) \<and> ring_wf r' \<and>
         rg_capacity r' = rg_capacity r \<and> rg_element_size r' = rg_element_size r \<and>
         ring_contents r = x # ring_contents r'"
proof -
  define t' where "t' = ((rg_tail r + 1) mod 2 ^ 32) mod rg_capacity r"
  let ?r = "r\<lparr>rg_tail := t'\<rparr>"
  have t: "rg_tail r < rg_capacity r" using wf by (simp add: ring_wf_def)
  have tl: "rg_tail ?r = (if rg_tail r + 1 = rg_capacity r then 0 else rg_tail r + 1)"
    using ring_succ [OF wf t] by (simp add: t'_def)
  have cnt: "ring_count r = Suc (ring_count ?r)"
    using ne tl wf by (auto simp: ring_count_def ring_wf_def bh_ring_is_empty_def)
  have idx: "(rg_tail ?r + k) mod rg_capacity r = (rg_tail r + Suc k) mod rg_capacity r" for k
  proof (cases "rg_tail r + 1 = rg_capacity r")
    case True
    then have "rg_tail r + Suc k = rg_capacity r + k" by linarith
    then show ?thesis using True tl by (metis add_0 mod_add_self1)
  next
    case False
    then show ?thesis using tl by simp
  qed
  have "ring_contents r = ring_elem r (rg_tail r) # ring_contents ?r"
    using t by (simp add: ring_contents_def cnt map_upt_Suc idx [simplified] ring_elem_def del: upt_Suc)
  moreover have "ring_elem r (rg_tail r) =
      mem_read (rg_storage r) (ring_offset r (rg_tail r)) (rg_element_size r)"
    using ring_offset_eq [OF wf t] by (simp add: ring_elem_def)
  moreover have "ring_wf ?r" using wf tl by (auto simp: ring_wf_def)
  ultimately show ?thesis using ne by (simp add: bh_ring_pop_def t'_def)
qed

section \<open>The ring provides a bounded queue\<close>

definition ring_push_opt :: "bh_ring \<Rightarrow> u8 list \<Rightarrow> bh_ring option" where
  "ring_push_opt r x = (case bh_ring_push r x of (st, r') \<Rightarrow> if st = K_OK then Some r' else None)"

definition ring_pop_opt :: "bh_ring \<Rightarrow> (u8 list \<times> bh_ring) option" where
  "ring_pop_opt r =
     (case bh_ring_pop r (Some []) of (st, r', d) \<Rightarrow> if st = K_OK then Some (the d, r') else None)"

interpretation ring: bounded_fifo ring_wf "\<lambda>r. rg_capacity r - 1"
    "\<lambda>r x. length x = rg_element_size r" ring_contents ring_push_opt ring_pop_opt
proof unfold_locales
  fix q r and x :: "u8 list"
  assume "ring_wf q" "length x = rg_element_size q" "ring_push_opt q x = Some r"
  then show "ring_wf r \<and> rg_capacity r - 1 = rg_capacity q - 1 \<and>
      (\<lambda>x. length x = rg_element_size r) = (\<lambda>x. length x = rg_element_size q) \<and>
      ring_contents r = ring_contents q @ [x]"
    using ring_push_ok [of q x] ring_push_full [of q x]
    by (cases "bh_ring_is_full q") (auto simp: ring_push_opt_def split_beta status_simps)
next
  fix q and x :: "u8 list"
  assume "ring_wf q" "length x = rg_element_size q"
  then show "(ring_push_opt q x = None) = (length (ring_contents q) = rg_capacity q - 1)"
    using ring_push_ok [of q x] ring_push_full [of q x] ring_full_iff [of q]
    by (auto simp: ring_push_opt_def split_beta status_simps)
next
  fix q r and x :: "u8 list"
  assume w: "ring_wf q" and p: "ring_pop_opt q = Some (x, r)"
  then have "\<not> bh_ring_is_empty q" by (auto simp: ring_pop_opt_def bh_ring_pop_def status_simps)
  from ring_pop_ok [OF w this, of "[]"] p
  show "ring_wf r \<and> rg_capacity r - 1 = rg_capacity q - 1 \<and>
      (\<lambda>x. length x = rg_element_size r) = (\<lambda>x. length x = rg_element_size q) \<and>
      ring_contents q = x # ring_contents r"
    by (auto simp: ring_pop_opt_def)
next
  fix q
  assume w: "ring_wf q"
  show "(ring_pop_opt q = None) = (ring_contents q = [])"
  proof (cases "bh_ring_is_empty q")
    case True
    with ring_empty_iff [OF w] show ?thesis
      by (simp add: ring_pop_opt_def bh_ring_pop_def status_simps flip: length_0_conv)
  next
    case False
    with ring_pop_ok [OF w False, of "[]"] show ?thesis by (auto simp: ring_pop_opt_def)
  qed
qed

section \<open>Properties\<close>

text \<open>
  C24: The ring refines a bounded queue of byte strings. A push is refused, without a change,
  exactly when the ring holds one element less than its capacity; otherwise it appends the
  element to the queue. A pop is refused exactly when the queue is empty; otherwise it returns
  and removes the oldest element.
\<close>

theorem ring_refines_queue:
  assumes "ring_wf r" and "length x = rg_element_size r"
  shows "(if length (ring_contents r) = rg_capacity r - 1
          then bh_ring_push r x = (K_ERR_IPC_QUEUE_FULL, r)
          else fst (bh_ring_push r x) = K_OK \<and> ring_wf (snd (bh_ring_push r x)) \<and>
               ring_contents (snd (bh_ring_push r x)) = ring_contents r @ [x]) \<and>
         (case bh_ring_pop r (Some d) of (st, r', out) \<Rightarrow>
            if ring_contents r = [] then st = K_ERR_NOT_FOUND \<and> r' = r \<and> out = Some d
            else st = K_OK \<and> ring_wf r' \<and> ring_contents r = the out # ring_contents r')"
proof -
  have e: "ring_contents r = [] \<longleftrightarrow> bh_ring_is_empty r"
    using ring_empty_iff [OF assms(1)] by (simp flip: length_0_conv)
  have push: "if length (ring_contents r) = rg_capacity r - 1
          then bh_ring_push r x = (K_ERR_IPC_QUEUE_FULL, r)
          else fst (bh_ring_push r x) = K_OK \<and> ring_wf (snd (bh_ring_push r x)) \<and>
               ring_contents (snd (bh_ring_push r x)) = ring_contents r @ [x]"
    using ring_full_iff [OF assms(1)] ring_push_full [of r x] ring_push_ok [OF assms(1) _ assms(2)] by simp
  show ?thesis
  proof (cases "bh_ring_is_empty r")
    case True
    have "bh_ring_pop r (Some d) = (K_ERR_NOT_FOUND, r, Some d)"
      using True by (simp add: bh_ring_pop_def)
    then show ?thesis using push e True by (simp del: length_ring_contents)
  next
    case False
    from ring_pop_ok [OF assms(1) False, of d] obtain r' y where
      "bh_ring_pop r (Some d) = (K_OK, r', Some y)" "ring_wf r'" "ring_contents r = y # ring_contents r'"
      by blast
    then show ?thesis using push by simp
  qed
qed

theorem ring_refines_queue_witness:
  "ring_contents (snd (bh_ring_push \<lparr>rg_head = Suc 0, rg_tail = 0, rg_capacity = 3, rg_element_size = 2,
      rg_storage = [1, 2, 0, 0, 0, 0]\<rparr> [7, 8])) = [[1, 2], [7, 8]]"
proof -
  let ?r = "\<lparr>rg_head = Suc 0, rg_tail = 0, rg_capacity = 3, rg_element_size = 2,
      rg_storage = [1, 2, 0, 0, 0, 0]\<rparr>"
  have w: "ring_wf ?r" by (simp add: ring_wf_def)
  have c: "ring_contents ?r = [[1, 2]]"
    by (simp add: ring_contents_def ring_count_def ring_elem_def mem_read_def)
  then have "length (ring_contents ?r) \<noteq> rg_capacity ?r - 1" by (simp del: length_ring_contents)
  then show ?thesis
    using ring_refines_queue [OF w, of "[7, 8]" "[]"] c by (simp del: length_ring_contents)
qed

text \<open>
  C25: Everything pushed into a freshly initialised ring comes out again in the order it went
  in, for any sequence of elements that fits.
\<close>

theorem ring_fifo:
  assumes "0 < cap" and "cap < 2 ^ 32" and "cap * esz < 2 ^ 32" and "cap * esz \<le> length storage"
    and "\<forall>x \<in> set xs. length x = esz" and "length xs < cap"
  shows "\<exists>r t. ring.push_all (bh_ring_init ring storage cap esz) xs = Some r \<and>
               ring.pop_many (length xs) r = Some (xs, t) \<and> bh_ring_is_empty t"
proof -
  let ?q = "bh_ring_init ring storage cap esz"
  have w: "ring_wf ?q" using assms(1-4) by (simp add: ring_wf_def bh_ring_init_def)
  have e: "ring_contents ?q = []" and z: "rg_element_size ?q = esz" and c: "rg_capacity ?q = cap"
    by (simp_all add: ring_contents_def ring_count_def bh_ring_init_def)
  have "length xs \<le> cap - Suc 0" using assms(6) by simp
  with e z c obtain r t where r: "ring.push_all ?q xs = Some r"
      "ring.pop_many (length xs) r = Some (xs, t)" "ring_contents t = []"
    using ring.push_all_pop_many [of ?q xs] w assms(5) by auto
  have "ring_wf r" using ring.push_all_list [OF w _ r(1)] assms(5) z by simp
  moreover have "ring_contents r = xs"
    using ring.push_all_list [OF w _ r(1)] assms(5) z e by simp
  ultimately have "ring_wf t" using ring.pop_many_list [of r "length xs"] r(2) by auto
  with r show ?thesis using ring_empty_iff [of t] by (auto simp flip: length_0_conv)
qed

theorem ring_fifo_witness:
  "\<exists>r t. ring.push_all (bh_ring_init \<lparr>rg_head = 5, rg_tail = 4, rg_capacity = 0, rg_element_size = 0,
        rg_storage = []\<rparr> [0, 0, 0] 3 1) [[1], [2]] = Some r \<and>
      ring.pop_many (length [[1::u8], [2]]) r = Some ([[1], [2]], t) \<and> bh_ring_is_empty t"
  by (rule ring_fifo) simp_all

end
