(* ===== verification/Ds_Range_Tree.thy ===== *)
theory Ds_Range_Tree
  imports Interfaces "HOL-Library.Multiset"
begin

text \<open>
  The range table (src/core/kernel/src/ds/bh_range_tree.c): an array of address ranges kept
  sorted by start address, with no two overlapping. Addresses and sizes are 64-bit values as
  natural numbers, with the wrap-around of every sum written out.
\<close>

section \<open>Model\<close>

record bh_range =
  rt_start :: nat
  rt_size :: nat
  rt_data :: u64

record bh_range_tree =
  tr_ranges :: "bh_range list"
  tr_capacity :: nat
  tr_count :: nat

definition range_end :: "nat \<Rightarrow> nat \<Rightarrow> nat" where
  "range_end start sz = (start + sz) mod 2 ^ 64"

definition bh_range_tree_init :: "bh_range_tree \<Rightarrow> bh_range list \<Rightarrow> nat \<Rightarrow> bh_range_tree" where
  "bh_range_tree_init tree storage capacity =
     tree\<lparr>tr_ranges := storage, tr_capacity := capacity, tr_count := 0\<rparr>"

definition bh_range_tree_has_overlap :: "bh_range_tree \<Rightarrow> nat \<Rightarrow> nat \<Rightarrow> bool" where
  "bh_range_tree_has_overlap tree start sz =
     list_ex (\<lambda>i. let r_start = rt_start (tr_ranges tree ! i);
                      r_end = range_end r_start (rt_size (tr_ranges tree ! i))
                  in start < r_end \<and> range_end start sz > r_start) [0..<tr_count tree]"

text \<open>The two shifting loops of insertion and removal.\<close>

definition shift_up :: "nat \<Rightarrow> nat \<Rightarrow> 'a list \<Rightarrow> 'a list" where
  "shift_up i n rs = fold (\<lambda>j rs. rs[j := rs ! (j - 1)]) (rev [Suc i..<Suc n]) rs"

definition shift_down :: "nat \<Rightarrow> nat \<Rightarrow> 'a list \<Rightarrow> 'a list" where
  "shift_down i n rs = fold (\<lambda>j rs. rs[j := rs ! (j + 1)]) [i..<n - 1] rs"

definition bh_range_tree_insert :: "bh_range_tree \<Rightarrow> nat \<Rightarrow> nat \<Rightarrow> u64 \<Rightarrow> kstatus \<times> bh_range_tree" where
  "bh_range_tree_insert tree start sz data =
     (if tr_count tree \<ge> tr_capacity tree then (K_ERR_NO_MEMORY, tree)
      else if bh_range_tree_has_overlap tree start sz then (K_ERR_ALREADY_EXISTS, tree)
      else let i = (case find (\<lambda>i. rt_start (tr_ranges tree ! i) > start) [0..<tr_count tree] of
                      Some i \<Rightarrow> i | None \<Rightarrow> tr_count tree);
               rs = shift_up i (tr_count tree) (tr_ranges tree)
           in (K_OK, tree\<lparr>tr_ranges := rs[i := \<lparr>rt_start = start, rt_size = sz, rt_data = data\<rparr>],
                          tr_count := tr_count tree + 1\<rparr>))"

definition bh_range_tree_remove :: "bh_range_tree \<Rightarrow> nat \<Rightarrow> kstatus \<times> bh_range_tree" where
  "bh_range_tree_remove tree start =
     (case find (\<lambda>i. rt_start (tr_ranges tree ! i) = start) [0..<tr_count tree] of
        Some i \<Rightarrow> (K_OK, tree\<lparr>tr_ranges := shift_down i (tr_count tree) (tr_ranges tree),
                               tr_count := tr_count tree - 1\<rparr>)
      | None \<Rightarrow> (K_ERR_NOT_FOUND, tree))"

definition bh_range_tree_find_by_addr ::
    "bh_range_tree \<Rightarrow> nat \<Rightarrow> bh_range option \<Rightarrow> kstatus \<times> bh_range option" where
  "bh_range_tree_find_by_addr tree addr out_range =
     (case find (\<lambda>i. addr \<ge> rt_start (tr_ranges tree ! i) \<and>
                     addr < range_end (rt_start (tr_ranges tree ! i)) (rt_size (tr_ranges tree ! i)))
             [0..<tr_count tree] of
        Some i \<Rightarrow> (K_OK, map_option (\<lambda>_. tr_ranges tree ! i) out_range)
      | None \<Rightarrow> (K_ERR_NOT_FOUND, out_range))"

definition bh_range_tree_validate :: "bh_range_tree \<Rightarrow> bool" where
  "bh_range_tree_validate tree =
     list_all (\<lambda>i. rt_size (tr_ranges tree ! i) \<noteq> 0 \<and>
                   (i > 0 \<longrightarrow> rt_start (tr_ranges tree ! i) \<ge>
                      range_end (rt_start (tr_ranges tree ! (i - 1))) (rt_size (tr_ranges tree ! (i - 1)))))
       [0..<tr_count tree]"

section \<open>The shifting loops\<close>

lemma length_shift_up [simp]: "length (shift_up i n rs) = length rs"
proof -
  have "length (fold (\<lambda>j rs. rs[j := rs ! (j - 1)]) js rs) = length rs" for js
    by (induction js arbitrary: rs) auto
  then show ?thesis by (simp add: shift_up_def)
qed

lemma length_shift_down [simp]: "length (shift_down i n rs) = length rs"
proof -
  have "length (fold (\<lambda>j rs. rs[j := rs ! (j + 1)]) js rs) = length rs" for js
    by (induction js arbitrary: rs) auto
  then show ?thesis by (simp add: shift_down_def)
qed

lemma nth_shift_up:
  "i \<le> n \<Longrightarrow> n < length rs \<Longrightarrow> k < length rs \<Longrightarrow>
   shift_up i n rs ! k = (if i < k \<and> k \<le> n then rs ! (k - 1) else rs ! k)"
proof (induction "n - i" arbitrary: n rs)
  case 0
  then show ?case by (auto simp: shift_up_def)
next
  case (Suc d)
  then obtain m where m: "n = Suc m" by (cases n) auto
  then have im: "i \<le> m" using Suc.hyps(2) by simp
  have "shift_up i n rs = shift_up i m (rs[n := rs ! m])"
    using im by (simp add: shift_up_def m)
  also have "\<dots> ! k = (if i < k \<and> k \<le> m then rs[n := rs ! m] ! (k - 1) else rs[n := rs ! m] ! k)"
    using Suc m im by (intro Suc.hyps(1)) auto
  finally show ?case using im m Suc.prems by (auto simp: nth_list_update)
qed

lemma nth_shift_down:
  "n \<le> length rs \<Longrightarrow> k < length rs \<Longrightarrow>
   shift_down i n rs ! k = (if i \<le> k \<and> k < n - 1 then rs ! (k + 1) else rs ! k)"
proof (induction "n - 1 - i" arbitrary: i rs)
  case 0
  then show ?case by (auto simp: shift_down_def)
next
  case (Suc d)
  then have lt: "i < n - 1" by simp
  have "shift_down i n rs = shift_down (Suc i) n (rs[i := rs ! (i + 1)])"
    using lt by (simp add: shift_down_def upt_conv_Cons)
  also have "\<dots> ! k = (if Suc i \<le> k \<and> k < n - 1 then rs[i := rs ! (i + 1)] ! (k + 1)
                          else rs[i := rs ! (i + 1)] ! k)"
    using Suc by (intro Suc.hyps(1)) auto
  finally show ?case using lt Suc.prems by (auto simp: nth_list_update)
qed

section \<open>Abstraction and invariant\<close>

definition tree_list :: "bh_range_tree \<Rightarrow> bh_range list" where
  "tree_list t = take (tr_count t) (tr_ranges t)"

definition range_ok :: "bh_range \<Rightarrow> bool" where
  "range_ok r \<longleftrightarrow> 0 < rt_size r \<and> rt_start r + rt_size r < 2 ^ 64"

definition before :: "bh_range \<Rightarrow> bh_range \<Rightarrow> bool" where
  "before a b \<longleftrightarrow> rt_start a + rt_size a \<le> rt_start b"

definition tree_wf :: "bh_range_tree \<Rightarrow> bool" where
  "tree_wf t \<longleftrightarrow> tr_count t \<le> tr_capacity t \<and> tr_capacity t \<le> length (tr_ranges t) \<and>
     (\<forall>r \<in> set (tree_list t). range_ok r) \<and> sorted_wrt before (tree_list t)"

definition covers :: "bh_range \<Rightarrow> nat \<Rightarrow> bool" where
  "covers r a \<longleftrightarrow> rt_start r \<le> a \<and> a < rt_start r + rt_size r"

lemma range_end_ok: "range_ok r \<Longrightarrow> range_end (rt_start r) (rt_size r) = rt_start r + rt_size r"
  by (simp add: range_ok_def range_end_def)

lemma tree_list_nth: "tree_wf t \<Longrightarrow> i < tr_count t \<Longrightarrow> tree_list t ! i = tr_ranges t ! i"
  by (simp add: tree_list_def)

lemma length_tree_list: "tree_wf t \<Longrightarrow> length (tree_list t) = tr_count t"
  by (simp add: tree_list_def tree_wf_def)

lemma tree_ok_nth: "tree_wf t \<Longrightarrow> i < tr_count t \<Longrightarrow> range_ok (tr_ranges t ! i)"
  by (metis length_tree_list nth_mem tree_list_nth tree_wf_def)

lemma tree_before_nth:
  "tree_wf t \<Longrightarrow> i < j \<Longrightarrow> j < tr_count t \<Longrightarrow> before (tr_ranges t ! i) (tr_ranges t ! j)"
  by (metis length_tree_list less_trans sorted_wrt_iff_nth_less tree_list_nth tree_wf_def)

lemma shift_up_list:
  assumes "i \<le> n" and "n < length rs"
  shows "take (Suc n) ((shift_up i n rs)[i := x]) = take i rs @ x # drop i (take n rs)"
proof (rule nth_equalityI)
  show "length (take (Suc n) ((shift_up i n rs)[i := x])) = length (take i rs @ x # drop i (take n rs))"
    using assms by simp
  fix k assume "k < length (take (Suc n) ((shift_up i n rs)[i := x]))"
  then have k: "k \<le> n" by simp
  consider "k < i" | "k = i" | m where "k = Suc (i + m)"
    by (metis add_Suc_right less_imp_Suc_add linorder_neqE_nat)
  then show "take (Suc n) ((shift_up i n rs)[i := x]) ! k = (take i rs @ x # drop i (take n rs)) ! k"
    by cases (use assms k in \<open>simp_all add: nth_append nth_shift_up min_absorb2\<close>)
qed

lemma shift_down_list:
  assumes "i < n" and "n \<le> length rs"
  shows "take (n - 1) (shift_down i n rs) = take i rs @ drop (Suc i) (take n rs)"
proof (rule nth_equalityI)
  show "length (take (n - 1) (shift_down i n rs)) = length (take i rs @ drop (Suc i) (take n rs))"
    using assms by simp
  fix k assume "k < length (take (n - 1) (shift_down i n rs))"
  then have k: "k < n - 1" by simp
  consider "k < i" | m where "k = i + m" by (metis le_Suc_ex not_less)
  then show "take (n - 1) (shift_down i n rs) ! k = (take i rs @ drop (Suc i) (take n rs)) ! k"
    by cases (use assms k in \<open>simp_all add: nth_append nth_shift_down min_absorb2\<close>)
qed


section \<open>Operations on the abstraction\<close>

lemma set_tree_list: "tree_wf t \<Longrightarrow> set (tree_list t) = (\<lambda>i. tr_ranges t ! i) ` {0..<tr_count t}"
  by (force simp: set_conv_nth length_tree_list tree_list_nth)

lemma has_overlap_iff:
  assumes "tree_wf t"
  shows "bh_range_tree_has_overlap t s z \<longleftrightarrow>
    (\<exists>r \<in> set (tree_list t). s < rt_start r + rt_size r \<and> rt_start r < range_end s z)"
  using range_end_ok [OF tree_ok_nth [OF assms]]
  by (simp add: bh_range_tree_has_overlap_def list_ex_iff Let_def set_tree_list [OF assms])

lemma insert_point:
  fixes t :: bh_range_tree and s :: nat
  defines "i \<equiv> (case find (\<lambda>i. rt_start (tr_ranges t ! i) > s) [0..<tr_count t] of
                  Some i \<Rightarrow> i | None \<Rightarrow> tr_count t)"
  shows "i \<le> tr_count t"
    and "\<And>k. k < i \<Longrightarrow> rt_start (tr_ranges t ! k) \<le> s"
    and "i < tr_count t \<Longrightarrow> s < rt_start (tr_ranges t ! i)"
  by (auto simp: i_def find_upt_Some_iff find_upt_None_iff not_less split: option.splits)

lemma range_tree_insert_ok:
  assumes wf: "tree_wf t" and room: "tr_count t < tr_capacity t"
    and ok: "range_ok \<lparr>rt_start = s, rt_size = z, rt_data = d\<rparr>"
    and free: "\<not> bh_range_tree_has_overlap t s z"
  shows "\<exists>i t'. bh_range_tree_insert t s z d = (K_OK, t') \<and> tree_wf t' \<and>
           tree_list t' = take i (tree_list t) @ \<lparr>rt_start = s, rt_size = z, rt_data = d\<rparr> # drop i (tree_list t)"
proof -
  let ?n = "\<lparr>rt_start = s, rt_size = z, rt_data = d\<rparr>"
  define i where "i = (case find (\<lambda>i. rt_start (tr_ranges t ! i) > s) [0..<tr_count t] of
                  Some i \<Rightarrow> i | None \<Rightarrow> tr_count t)"
  define t' where "t' = t\<lparr>tr_ranges := (shift_up i (tr_count t) (tr_ranges t))[i := ?n],
                          tr_count := tr_count t + 1\<rparr>"
  note ip = insert_point [where t = t and s = s, folded i_def]
  have len: "tr_count t < length (tr_ranges t)" using wf room by (simp add: tree_wf_def)
  have ins: "bh_range_tree_insert t s z d = (K_OK, t')"
    using room free by (simp add: bh_range_tree_insert_def t'_def i_def Let_def)
  have tl: "tree_list t' = take i (tree_list t) @ ?n # drop i (tree_list t)"
    using shift_up_list [OF ip(1) len] ip(1) by (simp add: tree_list_def t'_def min_def)
  have oks: "\<forall>r \<in> set (tree_list t). range_ok r" and sw: "sorted_wrt before (tree_list t)"
    using wf by (simp_all add: tree_wf_def)
  have re: "range_end s z = s + z" using range_end_ok [OF ok] by simp
  have apart: "before r ?n \<or> before ?n r" if "r \<in> set (tree_list t)" for r
    using that free by (auto simp: has_overlap_iff [OF wf] re before_def not_less)
  have pre: "before r ?n" if r: "r \<in> set (take i (tree_list t))" for r
  proof -
    from r obtain k where k: "k < i" "r = tr_ranges t ! k"
      using ip(1) by (auto simp: in_set_conv_nth length_tree_list [OF wf] tree_list_nth [OF wf])
    then have "rt_start r \<le> s" using ip(2) by simp
    moreover have "before r ?n \<or> before ?n r" using apart r by (meson in_set_takeD)
    ultimately show ?thesis using ok by (auto simp: before_def range_ok_def)
  qed
  have post: "before ?n r" if r: "r \<in> set (drop i (tree_list t))" for r
  proof -
    from r obtain k where "k < tr_count t - i" "r = tr_ranges t ! (i + k)"
      by (auto simp: in_set_conv_nth length_tree_list [OF wf] tree_list_nth [OF wf])
    then have k: "i + k < tr_count t" "r = tr_ranges t ! (i + k)" by simp_all
    have "s < rt_start r"
      using k ip(3) tree_before_nth [OF wf, of i "i + k"] by (cases k) (auto simp: before_def)
    moreover have "before r ?n \<or> before ?n r" using apart r by (meson in_set_dropD)
    ultimately show ?thesis by (auto simp: before_def)
  qed
  have tr: "before a b" if "a \<in> set (take i (tree_list t))" "b \<in> set (drop i (tree_list t))" for a b
    using pre [OF that(1)] post [OF that(2)] by (auto simp: before_def)
  have "sorted_wrt before (tree_list t')"
    unfolding tl using pre post tr sw
    by (auto simp: sorted_wrt_append sorted_wrt_take sorted_wrt_drop)
  moreover have "\<forall>r \<in> set (tree_list t'). range_ok r"
    unfolding tl using oks ok by (auto dest: in_set_takeD in_set_dropD)
  ultimately have "tree_wf t'" using wf room by (simp add: tree_wf_def t'_def)
  then show ?thesis using ins tl by blast
qed

lemma range_tree_remove_ok:
  assumes wf: "tree_wf t" and i: "i < tr_count t"
  shows "\<exists>t'. bh_range_tree_remove t (rt_start (tr_ranges t ! i)) = (K_OK, t') \<and> tree_wf t' \<and>
           tree_list t' = take i (tree_list t) @ drop (Suc i) (tree_list t)"
proof -
  have uniq: "rt_start (tr_ranges t ! k) \<noteq> rt_start (tr_ranges t ! i)" if "k < i" for k
    using tree_before_nth [OF wf that i] tree_ok_nth [OF wf, of k] that i
    by (auto simp: before_def range_ok_def)
  have f: "find (\<lambda>k. rt_start (tr_ranges t ! k) = rt_start (tr_ranges t ! i)) [0..<tr_count t] = Some i"
    using i uniq by (simp add: find_upt_Some_iff)
  define t' where "t' = t\<lparr>tr_ranges := shift_down i (tr_count t) (tr_ranges t), tr_count := tr_count t - 1\<rparr>"
  have len: "tr_count t \<le> length (tr_ranges t)" using wf by (simp add: tree_wf_def)
  have tl: "tree_list t' = take i (tree_list t) @ drop (Suc i) (tree_list t)"
    using shift_down_list [OF i len] i by (simp add: tree_list_def t'_def min_def)
  have sub: "sorted_wrt before (take i xs @ drop (Suc i) xs)" if "sorted_wrt before xs" for xs
  proof -
    have "\<forall>x \<in> set (take i xs). \<forall>y \<in> set (drop i xs). before x y"
      using that sorted_wrt_append [of before "take i xs" "drop i xs"] by simp
    moreover have "set (drop (Suc i) xs) \<subseteq> set (drop i xs)" by (simp add: set_drop_subset_set_drop)
    ultimately show ?thesis using that by (auto simp: sorted_wrt_append sorted_wrt_drop)
  qed
  have "tree_wf t'"
    using wf sub by (auto simp: tree_wf_def tl dest: in_set_takeD in_set_dropD) (simp_all add: t'_def)
  then show ?thesis using f tl by (auto simp: bh_range_tree_remove_def t'_def)
qed

lemma range_tree_validate_wf: "tree_wf t \<Longrightarrow> bh_range_tree_validate t"
  using tree_ok_nth [of t] tree_before_nth [of t]
  by (auto simp: bh_range_tree_validate_def list_all_iff range_end_ok range_ok_def before_def)

section \<open>Properties\<close>



text \<open>
  C27: An address lookup returns the one stored range that covers the address, and reports that
  there is none exactly when no stored range covers it.
\<close>

theorem range_tree_find_unique:
  assumes "tree_wf t"
  shows "case bh_range_tree_find_by_addr t a (Some b) of (st, out) \<Rightarrow>
    if \<exists>r \<in> set (tree_list t). covers r a
    then st = K_OK \<and> (\<exists>r \<in> set (tree_list t). out = Some r \<and> covers r a \<and>
           (\<forall>r' \<in> set (tree_list t). covers r' a \<longrightarrow> r' = r))
    else st = K_ERR_NOT_FOUND \<and> out = Some b"
proof -
  let ?P = "\<lambda>i. a \<ge> rt_start (tr_ranges t ! i) \<and>
              a < range_end (rt_start (tr_ranges t ! i)) (rt_size (tr_ranges t ! i))"
  have P: "?P i \<longleftrightarrow> covers (tr_ranges t ! i) a" if "i < tr_count t" for i
    using range_end_ok [OF tree_ok_nth [OF assms that]] by (simp add: covers_def)
  have mem: "r \<in> set (tree_list t) \<longleftrightarrow> (\<exists>i < tr_count t. r = tr_ranges t ! i)" for r
    using set_tree_list [OF assms] by auto
  have uniq: "i = j" if "i < tr_count t" "j < tr_count t" "covers (tr_ranges t ! i) a" "covers (tr_ranges t ! j) a" for i j
    using that tree_before_nth [OF assms, of i j] tree_before_nth [OF assms, of j i]
    by (cases i j rule: linorder_cases) (auto simp: before_def covers_def)
  show ?thesis
  proof (cases "find ?P [0..<tr_count t]")
    case None
    then have "\<not> (\<exists>r \<in> set (tree_list t). covers r a)"
      using P mem by (auto simp: find_upt_None_iff)
    then show ?thesis using None by (simp add: bh_range_tree_find_by_addr_def)
  next
    case (Some i)
    then have i: "i < tr_count t" "covers (tr_ranges t ! i) a" using P by (auto simp: find_upt_Some_iff)
    have one: "r' = tr_ranges t ! i" if "r' \<in> set (tree_list t)" "covers r' a" for r'
    proof -
      from that(1) mem obtain j where "j < tr_count t" "r' = tr_ranges t ! j" by blast
      then show ?thesis using uniq [of j i] i that(2) by simp
    qed
    have m: "tr_ranges t ! i \<in> set (tree_list t)" using i(1) mem by blast
    then have "\<exists>r \<in> set (tree_list t). covers r a" using i(2) by blast
    moreover have "\<exists>r \<in> set (tree_list t). Some (tr_ranges t ! i) = Some r \<and> covers r a \<and>
           (\<forall>r' \<in> set (tree_list t). covers r' a \<longrightarrow> r' = r)"
      using m i(2) one by blast
    moreover have "bh_range_tree_find_by_addr t a (Some b) = (K_OK, Some (tr_ranges t ! i))"
      using Some by (simp add: bh_range_tree_find_by_addr_def)
    ultimately show ?thesis by simp
  qed
qed

theorem range_tree_find_unique_witness:
  "fst (bh_range_tree_find_by_addr \<lparr>tr_ranges = [\<lparr>rt_start = 10, rt_size = 5, rt_data = 0\<rparr>],
      tr_capacity = 1, tr_count = 1\<rparr> 14 (Some \<lparr>rt_start = 0, rt_size = 0, rt_data = 0\<rparr>)) = K_OK"
proof -
  let ?t = "\<lparr>tr_ranges = [\<lparr>rt_start = 10, rt_size = 5, rt_data = 0\<rparr>], tr_capacity = 1, tr_count = 1\<rparr>"
  have w: "tree_wf ?t" by (simp add: tree_wf_def tree_list_def range_ok_def)
  have "\<exists>r \<in> set (tree_list ?t). covers r 14" by (simp add: tree_list_def covers_def)
  then show ?thesis
    using range_tree_find_unique [OF w, of 14 "\<lparr>rt_start = 0, rt_size = 0, rt_data = 0\<rparr>"]
    by (simp add: split_beta)
qed

text \<open>
  Outside the hypotheses of the insertion theorem the table can be corrupted: an empty range is accepted although
  \<^verbatim>\<open>bh_range_tree_validate\<close> rejects the result, and a range whose end wraps past zero is
  accepted although it overlaps a stored one.
\<close>

lemma range_tree_accepts_empty_range:
  "0 < cap \<Longrightarrow> 0 < length rs \<Longrightarrow> \<exists>t'. bh_range_tree_insert (bh_range_tree_init t rs cap) s 0 d = (K_OK, t') \<and>
     \<not> bh_range_tree_validate t'"
  by (simp add: bh_range_tree_insert_def bh_range_tree_init_def bh_range_tree_has_overlap_def
      bh_range_tree_validate_def shift_up_def)

lemma range_tree_accepts_wrapping_overlap:
  "case bh_range_tree_insert \<lparr>tr_ranges = [\<lparr>rt_start = 2 ^ 64 - 8, rt_size = 4, rt_data = 0\<rparr>,
       \<lparr>rt_start = 0, rt_size = 0, rt_data = 0\<rparr>], tr_capacity = 2, tr_count = 1\<rparr> (2 ^ 64 - 16) 16 0 of (st, t') \<Rightarrow>
     st = K_OK \<and> covers (tr_ranges t' ! 0) (2 ^ 64 - 8) \<and> covers (tr_ranges t' ! 1) (2 ^ 64 - 8)"
  by (simp add: bh_range_tree_insert_def bh_range_tree_has_overlap_def range_end_def
      covers_def shift_up_def)

end
