(* ===== verification/Ds_Registry.thy ===== *)
theory Ds_Registry
  imports Interfaces
begin

text \<open>
  The frozen-after-boot registry (src/core/kernel/src/ds/bh_registry.c): a table of objects under
  a number and an optional name. Object pointers are 64-bit values with 0 for \<^verbatim>\<open>NULL\<close>.
\<close>

section \<open>Model\<close>

record bh_registry_entry =
  re_id :: u32
  re_name :: "string option"
  re_object :: u64
  re_flags :: u32

record bh_registry =
  rg_entries :: "bh_registry_entry list"
  rg_cap :: nat
  rg_count :: nat
  rg_frozen :: bool

definition bh_registry_init ::
    "bh_registry option \<Rightarrow> bh_registry_entry list option \<Rightarrow> nat \<Rightarrow> kstatus \<times> bh_registry option" where
  "bh_registry_init registry storage capacity =
     (case (registry, storage) of
        (Some r, Some st) \<Rightarrow>
          if capacity = 0 then (K_ERR_INVALID_ARG, registry)
          else (K_OK, Some (r\<lparr>rg_entries := st, rg_cap := capacity, rg_count := 0, rg_frozen := False\<rparr>))
      | _ \<Rightarrow> (K_ERR_INVALID_ARG, registry))"

definition entry_clash :: "bh_registry_entry \<Rightarrow> u32 \<Rightarrow> string option \<Rightarrow> bool" where
  "entry_clash e idn name \<longleftrightarrow> re_id e = idn \<or> (name \<noteq> None \<and> re_name e \<noteq> None \<and> re_name e = name)"

definition bh_registry_register ::
    "bh_registry option \<Rightarrow> u32 \<Rightarrow> string option \<Rightarrow> u64 \<Rightarrow> u32 \<Rightarrow> kstatus \<times> bh_registry option" where
  "bh_registry_register registry idn name object flags =
     (case registry of None \<Rightarrow> (K_ERR_INVALID_ARG, None)
      | Some r \<Rightarrow>
        if rg_frozen r then (K_ERR_BAD_STATE, Some r)
        else if rg_count r \<ge> rg_cap r then (K_ERR_NO_MEMORY, Some r)
        else if find (\<lambda>i. entry_clash (rg_entries r ! i) idn name) [0..<rg_count r] \<noteq> None
        then (K_ERR_ALREADY_EXISTS, Some r)
        else (K_OK, Some (r\<lparr>rg_entries := (rg_entries r)[rg_count r :=
                \<lparr>re_id = idn, re_name = name, re_object = object, re_flags = flags\<rparr>],
              rg_count := rg_count r + 1\<rparr>)))"

definition bh_registry_lookup_id :: "bh_registry option \<Rightarrow> u32 \<Rightarrow> u64" where
  "bh_registry_lookup_id registry idn =
     (case registry of None \<Rightarrow> 0
      | Some r \<Rightarrow> (case find (\<lambda>i. re_id (rg_entries r ! i) = idn) [0..<rg_count r] of
                     Some i \<Rightarrow> re_object (rg_entries r ! i) | None \<Rightarrow> 0))"

definition bh_registry_lookup_name :: "bh_registry option \<Rightarrow> string option \<Rightarrow> u64" where
  "bh_registry_lookup_name registry name =
     (case (registry, name) of
        (Some r, Some nm) \<Rightarrow>
          (case find (\<lambda>i. re_name (rg_entries r ! i) = Some nm) [0..<rg_count r] of
             Some i \<Rightarrow> re_object (rg_entries r ! i) | None \<Rightarrow> 0)
      | _ \<Rightarrow> 0)"

definition bh_registry_freeze :: "bh_registry option \<Rightarrow> kstatus \<times> bh_registry option" where
  "bh_registry_freeze registry =
     (case registry of None \<Rightarrow> (K_ERR_INVALID_ARG, None)
      | Some r \<Rightarrow> (K_OK, Some (r\<lparr>rg_frozen := True\<rparr>)))"

definition bh_registry_count :: "bh_registry option \<Rightarrow> nat" where
  "bh_registry_count registry = (case registry of None \<Rightarrow> 0 | Some r \<Rightarrow> rg_count r)"

section \<open>Abstraction\<close>

definition registry_wf :: "bh_registry \<Rightarrow> bool" where
  "registry_wf r \<longleftrightarrow> rg_count r \<le> rg_cap r \<and> rg_cap r \<le> length (rg_entries r)"

definition registry_list :: "bh_registry \<Rightarrow> bh_registry_entry list" where
  "registry_list r = take (rg_count r) (rg_entries r)"

lemma find_nth_take:
  "n \<le> length xs \<Longrightarrow> map_option (\<lambda>i. xs ! i) (find (\<lambda>i. P (xs ! i)) [0..<n]) = find P (take n xs)"
proof (induction n)
  case (Suc n)
  have app: "find Q (ys @ [y]) = (case find Q ys of Some z \<Rightarrow> Some z | None \<Rightarrow> if Q y then Some y else None)"
    for Q ys and y :: 'b by (induction ys) auto
  from Suc show ?case
    by (simp add: take_Suc_conv_app_nth app split: option.splits) (auto simp: app split: option.splits)
qed simp

lemma lookup_id_list:
  "registry_wf r \<Longrightarrow> bh_registry_lookup_id (Some r) k =
     (case find (\<lambda>e. re_id e = k) (registry_list r) of Some e \<Rightarrow> re_object e | None \<Rightarrow> 0)"
  using find_nth_take [of "rg_count r" "rg_entries r" "\<lambda>e. re_id e = k"]
  by (auto simp: bh_registry_lookup_id_def registry_list_def registry_wf_def split: option.splits)

lemma lookup_name_list:
  "registry_wf r \<Longrightarrow> bh_registry_lookup_name (Some r) (Some nm) =
     (case find (\<lambda>e. re_name e = Some nm) (registry_list r) of Some e \<Rightarrow> re_object e | None \<Rightarrow> 0)"
  using find_nth_take [of "rg_count r" "rg_entries r" "\<lambda>e. re_name e = Some nm"]
  by (auto simp: bh_registry_lookup_name_def registry_list_def registry_wf_def split: option.splits)

lemma register_ok_iff:
  assumes "registry_wf r"
  shows "fst (bh_registry_register (Some r) idn name ob fl) = K_OK \<longleftrightarrow>
    \<not> rg_frozen r \<and> rg_count r < rg_cap r \<and> (\<forall>e \<in> set (registry_list r). \<not> entry_clash e idn name)"
proof -
  have "find (\<lambda>i. entry_clash (rg_entries r ! i) idn name) [0..<rg_count r] = None \<longleftrightarrow>
      find (\<lambda>e. entry_clash e idn name) (registry_list r) = None"
    using find_nth_take [of "rg_count r" "rg_entries r" "\<lambda>e. entry_clash e idn name"] assms
    by (auto simp: registry_list_def registry_wf_def)
  then show ?thesis
    by (simp add: bh_registry_register_def status_simps find_None_iff) blast
qed

lemma register_list:
  assumes "registry_wf r" and "fst (bh_registry_register (Some r) idn name ob fl) = K_OK"
  shows "\<exists>r'. bh_registry_register (Some r) idn name ob fl = (K_OK, Some r') \<and> registry_wf r' \<and>
    registry_list r' = registry_list r @ [\<lparr>re_id = idn, re_name = name, re_object = ob, re_flags = fl\<rparr>]"
  using assms
  by (auto simp: bh_registry_register_def registry_wf_def registry_list_def status_simps
      take_Suc_conv_app_nth split: if_splits)

section \<open>Properties\<close>

text \<open>
  C33: A registration succeeds exactly when the registry is open, has room, and holds no entry
  with that number or name; afterwards the object is found under its number and under its name
  and every other lookup is as before.
\<close>

theorem registry_register_lookup:
  assumes "registry_wf r"
  shows "case bh_registry_register (Some r) idn (Some nm) ob fl of (st, r') \<Rightarrow>
    if \<not> rg_frozen r \<and> rg_count r < rg_cap r \<and>
       (\<forall>e \<in> set (registry_list r). re_id e \<noteq> idn \<and> re_name e \<noteq> Some nm)
    then st = K_OK \<and>
      (\<forall>k. bh_registry_lookup_id r' k = (if k = idn then ob else bh_registry_lookup_id (Some r) k)) \<and>
      (\<forall>m. bh_registry_lookup_name r' (Some m) = (if m = nm then ob else bh_registry_lookup_name (Some r) (Some m)))
    else st \<noteq> K_OK \<and> r' = Some r"
proof -
  have clash: "(\<forall>e \<in> set (registry_list r). \<not> entry_clash e idn (Some nm)) \<longleftrightarrow>
      (\<forall>e \<in> set (registry_list r). re_id e \<noteq> idn \<and> re_name e \<noteq> Some nm)"
    by (auto simp: entry_clash_def)
  have app: "find Q (ys @ [y]) = (case find Q ys of Some z \<Rightarrow> Some z | None \<Rightarrow> if Q y then Some y else None)"
    for Q ys and y :: bh_registry_entry by (induction ys) auto
  show ?thesis
  proof (cases "fst (bh_registry_register (Some r) idn (Some nm) ob fl) = K_OK")
    case True
    then have free: "\<not> rg_frozen r \<and> rg_count r < rg_cap r \<and>
        (\<forall>e \<in> set (registry_list r). re_id e \<noteq> idn \<and> re_name e \<noteq> Some nm)"
      using register_ok_iff [OF assms] clash by blast
    from register_list [OF assms True] obtain r' where
      r': "bh_registry_register (Some r) idn (Some nm) ob fl = (K_OK, Some r')" "registry_wf r'"
        "registry_list r' = registry_list r @ [\<lparr>re_id = idn, re_name = Some nm, re_object = ob, re_flags = fl\<rparr>]"
      by blast
    have "find (\<lambda>e. re_id e = idn) (registry_list r) = None" "find (\<lambda>e. re_name e = Some nm) (registry_list r) = None"
      using free by (auto simp: find_None_iff)
    then show ?thesis using r' free
      by (auto simp: lookup_id_list [OF assms] lookup_id_list [OF r'(2)] lookup_name_list [OF assms]
          lookup_name_list [OF r'(2)] app split: option.splits)
  next
    case False
    then have no: "\<not> (\<not> rg_frozen r \<and> rg_count r < rg_cap r \<and>
        (\<forall>e \<in> set (registry_list r). re_id e \<noteq> idn \<and> re_name e \<noteq> Some nm))"
      using register_ok_iff [OF assms] clash by blast
    moreover have "snd (bh_registry_register (Some r) idn (Some nm) ob fl) = Some r"
      using False by (auto simp: bh_registry_register_def split: if_splits)
    ultimately show ?thesis using False by (simp only: if_not_P split_beta if_False) simp
  qed
qed

theorem registry_register_lookup_witness:
  "bh_registry_lookup_name (snd (bh_registry_register (Some \<lparr>rg_entries = replicate 2
      \<lparr>re_id = 0, re_name = None, re_object = 0, re_flags = 0\<rparr>, rg_cap = 2, rg_count = 0, rg_frozen = False\<rparr>)
      4 (Some ''uart'') 99 0)) (Some ''uart'') = 99"
proof -
  let ?r = "\<lparr>rg_entries = replicate 2 \<lparr>re_id = 0, re_name = None, re_object = 0, re_flags = 0\<rparr>,
      rg_cap = 2, rg_count = 0, rg_frozen = False\<rparr>"
  have w: "registry_wf ?r" by (simp add: registry_wf_def)
  show ?thesis using registry_register_lookup [OF w, of 4 "''uart''" 99 0]
    by (simp add: split_beta registry_list_def)
qed

end
