(* ===== verification/Ds_Refcount.thy ===== *)
theory Ds_Refcount
  imports Interfaces
begin

text \<open>
  Reference counts (src/core/kernel/src/ds/bh_refcount.c). Both updates are compare-and-swap
  loops. One turn of a loop is a function of the shared value and of the value the caller last
  saw; the sequential operations run it until it returns, and the interleaving model lets any
  number of threads take turns in any order. The builds without \<^verbatim>\<open>BHARAT_DEBUG\<close> are modelled,
  where a detected overflow or underflow returns an error instead of stopping the kernel.
\<close>

section \<open>Model\<close>

datatype rc_outcome = Rc_Retry u32 | Rc_Return kstatus "bool option"

definition bh_refcount_init :: "u32 option \<Rightarrow> u32 \<Rightarrow> u32 option" where
  "bh_refcount_init ref initial = map_option (\<lambda>_. initial) ref"

definition bh_refcount_read :: "u32 option \<Rightarrow> u32" where
  "bh_refcount_read ref = (case ref of None \<Rightarrow> 0 | Some v \<Rightarrow> v)"

text \<open>One turn of the loop of \<^verbatim>\<open>bh_refcount_try_inc\<close>: shared value, value last seen.\<close>

definition refcount_inc_turn :: "u32 \<Rightarrow> u32 \<Rightarrow> u32 \<times> rc_outcome" where
  "refcount_inc_turn v old =
     (if old = 0 then (v, Rc_Return K_ERR_BAD_STATE None)
      else if old = - 1 then (v, Rc_Return K_ERR_OVERFLOW None)
      else if v = old then (old + 1, Rc_Return K_OK None)
      else (v, Rc_Retry v))"

definition refcount_dec_turn :: "u32 \<Rightarrow> u32 \<Rightarrow> u32 \<times> rc_outcome" where
  "refcount_dec_turn v old =
     (if old = 0 then (v, Rc_Return K_ERR_BAD_STATE None)
      else if v = old then (old - 1, Rc_Return K_OK (Some (old = 1)))
      else (v, Rc_Retry v))"

fun refcount_loop :: "nat \<Rightarrow> (u32 \<Rightarrow> u32 \<Rightarrow> u32 \<times> rc_outcome) \<Rightarrow> u32 \<Rightarrow> u32 \<Rightarrow> (u32 \<times> kstatus \<times> bool option) option" where
  "refcount_loop 0 turn v old = None"
| "refcount_loop (Suc fuel) turn v old =
     (case turn v old of
        (v', Rc_Return st z) \<Rightarrow> Some (v', st, z)
      | (v', Rc_Retry old') \<Rightarrow> refcount_loop fuel turn v' old')"

text \<open>A caller that is not disturbed needs one turn (\<open>refcount_loop_returns\<close> below).\<close>

definition bh_refcount_try_inc :: "u32 option \<Rightarrow> kstatus \<times> u32 option" where
  "bh_refcount_try_inc ref =
     (case ref of None \<Rightarrow> (K_ERR_INVALID_ARG, None)
      | Some v \<Rightarrow> (case the (refcount_loop 1 refcount_inc_turn v v) of (v', st, _) \<Rightarrow> (st, Some v')))"

definition bh_refcount_try_inc_not_zero :: "u32 option \<Rightarrow> kstatus \<times> u32 option" where
  "bh_refcount_try_inc_not_zero = bh_refcount_try_inc"

definition bh_refcount_dec_and_test :: "u32 option \<Rightarrow> bool option \<Rightarrow> kstatus \<times> u32 option \<times> bool option" where
  "bh_refcount_dec_and_test ref is_zero =
     (case (ref, is_zero) of
        (Some v, Some z) \<Rightarrow>
          (case the (refcount_loop 1 refcount_dec_turn v v) of
             (v', st, Some z') \<Rightarrow> (st, Some v', Some z')
           | (v', st, None) \<Rightarrow> (st, Some v', is_zero))
      | _ \<Rightarrow> (K_ERR_INVALID_ARG, ref, is_zero))"

definition bh_refcount_is_zero :: "u32 option \<Rightarrow> bool" where
  "bh_refcount_is_zero ref \<longleftrightarrow> bh_refcount_read ref = 0"

section \<open>Interleaved callers\<close>

datatype rc_pc = Rc_Idle | Rc_Inc u32 | Rc_Dec u32

text \<open>
  The shared value, where each thread is in its operation, and three counters of what has
  happened: increments and decrements that returned \<^verbatim>\<open>K_OK\<close>, and decrements that told their
  caller that the count reached zero.
\<close>

record rc_sys =
  rc_value :: u32
  rc_threads :: "nat \<Rightarrow> rc_pc"
  rc_incs :: nat
  rc_decs :: nat
  rc_zeros :: nat

fun rc_resume :: "(u32 \<Rightarrow> rc_pc) \<Rightarrow> rc_outcome \<Rightarrow> rc_pc" where
  "rc_resume pc (Rc_Retry old) = pc old"
| "rc_resume pc (Rc_Return st z) = Rc_Idle"

fun rc_ok :: "rc_outcome \<Rightarrow> nat" where
  "rc_ok (Rc_Return st z) = (if st = K_OK then 1 else 0)"
| "rc_ok (Rc_Retry old) = 0"

fun rc_zero :: "rc_outcome \<Rightarrow> nat" where
  "rc_zero (Rc_Return st (Some True)) = 1"
| "rc_zero _ = 0"

inductive rc_step :: "rc_sys \<Rightarrow> rc_sys \<Rightarrow> bool" where
  load_inc: "rc_threads s t = Rc_Idle \<Longrightarrow>
    rc_step s (s\<lparr>rc_threads := (rc_threads s)(t := Rc_Inc (rc_value s))\<rparr>)"
| load_dec: "rc_threads s t = Rc_Idle \<Longrightarrow>
    rc_step s (s\<lparr>rc_threads := (rc_threads s)(t := Rc_Dec (rc_value s))\<rparr>)"
| turn_inc: "rc_threads s t = Rc_Inc old \<Longrightarrow> refcount_inc_turn (rc_value s) old = (v, out) \<Longrightarrow>
    rc_step s (s\<lparr>rc_value := v, rc_threads := (rc_threads s)(t := rc_resume Rc_Inc out),
                 rc_incs := rc_incs s + rc_ok out\<rparr>)"
| turn_dec: "rc_threads s t = Rc_Dec old \<Longrightarrow> refcount_dec_turn (rc_value s) old = (v, out) \<Longrightarrow>
    rc_step s (s\<lparr>rc_value := v, rc_threads := (rc_threads s)(t := rc_resume Rc_Dec out),
                 rc_decs := rc_decs s + rc_ok out, rc_zeros := rc_zeros s + rc_zero out\<rparr>)"

inductive_cases rc_stepE: "rc_step s s'"

definition rc_init :: "u32 \<Rightarrow> rc_sys \<Rightarrow> bool" where
  "rc_init v s \<longleftrightarrow> rc_value s = v \<and> (\<forall>t. rc_threads s t = Rc_Idle) \<and>
     rc_incs s = 0 \<and> rc_decs s = 0 \<and> rc_zeros s = 0"

definition rc_inv :: "u32 \<Rightarrow> rc_sys \<Rightarrow> bool" where
  "rc_inv v s \<longleftrightarrow> unat (rc_value s) + rc_decs s = unat v + rc_incs s \<and>
     (v \<noteq> 0 \<longrightarrow> rc_zeros s = (if rc_value s = 0 then 1 else 0))"

section \<open>Lemmas\<close>

lemma refcount_loop_returns: "refcount_loop (Suc fuel) refcount_inc_turn v v \<noteq> None"
  "refcount_loop (Suc fuel) refcount_dec_turn v v \<noteq> None"
  by (simp_all add: refcount_inc_turn_def refcount_dec_turn_def)

lemma unat_succ: "(v :: u32) \<noteq> - 1 \<Longrightarrow> unat (v + 1) = unat v + 1"
  using unatSuc [of v] by (simp add: eq_neg_iff_add_eq_0 add.commute)

lemma unat_pred: "(v :: u32) \<noteq> 0 \<Longrightarrow> unat (v - 1) + 1 = unat v"
  by (metis Suc_eq_plus1 add.commute diff_add_cancel unatSuc)

lemma inc_turn_cases:
  assumes "refcount_inc_turn v old = (v', out)"
  obtains "v' = v" "rc_ok out = 0" | "v \<noteq> 0" "v' \<noteq> 0" "unat v' = unat v + 1" "rc_ok out = 1"
proof (cases "old = 0 \<or> old = - 1 \<or> v \<noteq> old")
  case True
  then show ?thesis using assms that(1)
    by (auto simp: refcount_inc_turn_def K_OK_def K_ERR_BAD_STATE_def K_ERR_OVERFLOW_def split: if_splits)
next
  case False
  then have "v' = v + 1" "out = Rc_Return K_OK None" "v \<noteq> 0" "v \<noteq> - 1"
    using assms by (auto simp: refcount_inc_turn_def)
  then show ?thesis using that(2) unat_succ [of v] by (metis One_nat_def add_is_0 one_neq_zero rc_ok.simps(1) unat_eq_zero)
qed

lemma dec_turn_cases:
  assumes "refcount_dec_turn v old = (v', out)"
  obtains "v' = v" "rc_ok out = 0" "rc_zero out = 0"
  | "v \<noteq> 0" "unat v' + 1 = unat v" "rc_ok out = 1" "rc_zero out = (if v' = 0 then 1 else 0)"
proof (cases "old = 0 \<or> v \<noteq> old")
  case True
  then show ?thesis using assms that(1)
    by (auto simp: refcount_dec_turn_def K_OK_def K_ERR_BAD_STATE_def split: if_splits)
next
  case False
  then have "v' = v - 1" "out = Rc_Return K_OK (Some (v = 1))" "v \<noteq> 0"
    using assms by (auto simp: refcount_dec_turn_def)
  then show ?thesis using that(2) unat_pred [of v] by (cases "v = 1") auto
qed

lemma rc_step_inv: "rc_inv v s \<Longrightarrow> rc_step s s' \<Longrightarrow> rc_inv v s'"
proof (erule rc_stepE)
  fix t old w out
  assume "rc_inv v s" and s': "s' = s\<lparr>rc_value := w, rc_threads := (rc_threads s)(t := rc_resume Rc_Inc out),
                 rc_incs := rc_incs s + rc_ok out\<rparr>" and "refcount_inc_turn (rc_value s) old = (w, out)"
  from this(3,1) show "rc_inv v s'" by (cases rule: inc_turn_cases) (auto simp: rc_inv_def s')
next
  fix t old w out
  assume "rc_inv v s" and s': "s' = s\<lparr>rc_value := w, rc_threads := (rc_threads s)(t := rc_resume Rc_Dec out),
                 rc_decs := rc_decs s + rc_ok out, rc_zeros := rc_zeros s + rc_zero out\<rparr>"
    and "refcount_dec_turn (rc_value s) old = (w, out)"
  from this(3,1) show "rc_inv v s'" by (cases rule: dec_turn_cases) (auto simp: rc_inv_def s')
qed (auto simp: rc_inv_def)

interpretation refcount: invariant_system "rc_init v" rc_step "rc_inv v" for v
proof
  show "rc_init v s \<Longrightarrow> rc_inv v s" for s by (simp add: rc_init_def rc_inv_def)
  show "rc_inv v s \<Longrightarrow> rc_step s t \<Longrightarrow> rc_inv v t" for s t by (rule rc_step_inv)
qed

lemma rc_zero_absorbing:
  "rc_step s s' \<Longrightarrow> rc_value s = 0 \<Longrightarrow> rc_value s' = 0 \<and> rc_incs s' = rc_incs s \<and> rc_decs s' = rc_decs s"
  by (erule rc_stepE) (auto elim: inc_turn_cases dec_turn_cases)

section \<open>Properties\<close>

text \<open>
  C30: Whatever the interleaving of concurrent callers, a count initialised to a value other
  than zero equals that value plus the successful increments minus the successful decrements,
  without ever wrapping, and exactly one decrement is told that the count reached zero if it
  did, and none otherwise: the object is destroyed once.
\<close>

theorem refcount_single_last_release:
  assumes "rc_init v s" and "rc_step\<^sup>*\<^sup>* s s'" and "v \<noteq> 0"
  shows "unat (rc_value s') + rc_decs s' = unat v + rc_incs s' \<and>
         rc_zeros s' = (if rc_value s' = 0 then 1 else 0)"
  using refcount.reach_inv [OF assms(1,2)] assms(3) by (simp add: rc_inv_def)

theorem refcount_single_last_release_witness:
  "\<exists>s s'. rc_init 1 s \<and> rc_step\<^sup>*\<^sup>* s s' \<and> rc_value s' = 0 \<and> rc_zeros s' = 1"
proof -
  let ?s = "\<lparr>rc_value = 1, rc_threads = \<lambda>_. Rc_Idle, rc_incs = 0, rc_decs = 0, rc_zeros = 0\<rparr>"
  let ?a = "?s\<lparr>rc_threads := (rc_threads ?s)(0 := Rc_Dec (rc_value ?s))\<rparr>"
  let ?o = "Rc_Return K_OK (Some True)"
  let ?b = "?a\<lparr>rc_value := 0, rc_threads := (rc_threads ?a)(0 := rc_resume Rc_Dec ?o),
      rc_decs := rc_decs ?a + rc_ok ?o, rc_zeros := rc_zeros ?a + rc_zero ?o\<rparr>"
  have i: "rc_init 1 ?s" by (simp add: rc_init_def)
  have "rc_step ?s ?a" by (rule load_dec) simp
  moreover have "rc_step ?a ?b" by (rule turn_dec [where old = 1]) (simp_all add: refcount_dec_turn_def)
  ultimately have r: "rc_step\<^sup>*\<^sup>* ?s ?b" by simp
  have "rc_zeros ?b = 1" using refcount_single_last_release [OF i r] by simp
  then show ?thesis using i r by (intro exI [of _ ?s] exI [of _ ?b]) simp
qed



end
