(* ===== verification/Ds_Seqlock.thy ===== *)
theory Ds_Seqlock
  imports Interfaces
begin

text \<open>
  Sequence locks (src/core/kernel/src/ds/bh_seqlock.c) with one writer at a time and any number
  of readers, interleaved at the granularity of one load or store. The barriers of the code are
  taken to give sequential consistency of those accesses; weaker memory orders are not modelled.
\<close>

section \<open>Model\<close>

unbundle bit_operations_syntax

record bh_seqlock =
  sl_sequence :: u32
  sl_writer_lock :: bool

definition bh_seqlock_init :: "bh_seqlock \<Rightarrow> bh_seqlock" where
  "bh_seqlock_init lock = lock\<lparr>sl_sequence := 0, sl_writer_lock := False\<rparr>"

text \<open>
  The loop of \<^verbatim>\<open>bh_seqlock_read_begin\<close> over the values its successive loads return: it may spin
  forever while a writer holds the lock.
\<close>

partial_function (option) bh_seqlock_read_begin :: "(nat \<Rightarrow> u32) \<Rightarrow> nat \<Rightarrow> u32 option" where
  "bh_seqlock_read_begin seen i =
     (if seen i AND 1 \<noteq> 0 then bh_seqlock_read_begin seen (Suc i) else Some (seen i))"

definition bh_seqlock_read_retry :: "bh_seqlock \<Rightarrow> u32 \<Rightarrow> bool" where
  "bh_seqlock_read_retry lock seq \<longleftrightarrow> sl_sequence lock \<noteq> seq \<or> sl_sequence lock AND 1 \<noteq> 0"

text \<open>\<^const>\<open>None\<close>: the caller waits on the spin lock.\<close>

definition bh_seqlock_write_begin :: "bh_seqlock \<Rightarrow> bh_seqlock option" where
  "bh_seqlock_write_begin lock =
     (if sl_writer_lock lock then None
      else Some (lock\<lparr>sl_writer_lock := True, sl_sequence := sl_sequence lock + 1\<rparr>))"

definition bh_seqlock_write_end :: "bh_seqlock \<Rightarrow> bh_seqlock" where
  "bh_seqlock_write_end lock = lock\<lparr>sl_sequence := sl_sequence lock + 1, sl_writer_lock := False\<rparr>"

section \<open>Readers and writers\<close>

text \<open>
  A reader inside its section: the sequence it began with, the number of writes completed at
  that moment (a history variable, which no step reads), and the words it has loaded.
\<close>

datatype seq_reader = Rd_Idle | Rd_Reading u32 nat "u64 list"

record seq_sys =
  sq_lock :: bh_seqlock
  sq_data :: "u64 list"
  sq_gen :: nat
  sq_readers :: "nat \<Rightarrow> seq_reader"

inductive seq_step :: "seq_sys \<Rightarrow> seq_sys \<Rightarrow> bool" where
  w_begin: "bh_seqlock_write_begin (sq_lock s) = Some l \<Longrightarrow> seq_step s (s\<lparr>sq_lock := l\<rparr>)"
| w_store: "sl_writer_lock (sq_lock s) \<Longrightarrow> seq_step s (s\<lparr>sq_data := (sq_data s)[i := x]\<rparr>)"
| w_end: "sl_writer_lock (sq_lock s) \<Longrightarrow>
    seq_step s (s\<lparr>sq_lock := bh_seqlock_write_end (sq_lock s), sq_gen := sq_gen s + 1\<rparr>)"
| r_begin: "sq_readers s r = Rd_Idle \<Longrightarrow>
    bh_seqlock_read_begin (\<lambda>_. sl_sequence (sq_lock s)) 0 = Some q \<Longrightarrow>
    seq_step s (s\<lparr>sq_readers := (sq_readers s)(r := Rd_Reading q (sq_gen s) [])\<rparr>)"
| r_load: "sq_readers s r = Rd_Reading q g vs \<Longrightarrow> length vs < length (sq_data s) \<Longrightarrow>
    seq_step s (s\<lparr>sq_readers := (sq_readers s)(r := Rd_Reading q g (vs @ [sq_data s ! length vs]))\<rparr>)"
| r_done: "sq_readers s r = Rd_Reading q g vs \<Longrightarrow>
    seq_step s (s\<lparr>sq_readers := (sq_readers s)(r := Rd_Idle)\<rparr>)"

inductive_cases seq_stepE: "seq_step s s'"

definition seq_init :: "seq_sys \<Rightarrow> bool" where
  "seq_init s \<longleftrightarrow> (\<exists>l. sq_lock s = bh_seqlock_init l) \<and> sq_gen s = 0 \<and> (\<forall>r. sq_readers s r = Rd_Idle)"

definition reader_inv :: "seq_sys \<Rightarrow> seq_reader \<Rightarrow> bool" where
  "reader_inv s rd = (case rd of Rd_Idle \<Rightarrow> True
     | Rd_Reading q g vs \<Rightarrow> q = of_nat (2 * g) \<and> g \<le> sq_gen s \<and>
         (g = sq_gen s \<and> \<not> sl_writer_lock (sq_lock s) \<longrightarrow> vs = take (length vs) (sq_data s)))"

definition seq_inv :: "seq_sys \<Rightarrow> bool" where
  "seq_inv s \<longleftrightarrow>
     sl_sequence (sq_lock s) = of_nat (2 * sq_gen s + (if sl_writer_lock (sq_lock s) then 1 else 0)) \<and>
     (\<forall>r. reader_inv s (sq_readers s r))"

section \<open>Lemmas\<close>

lemma and_1_word: "(w :: u32) AND 1 \<noteq> 0 \<longleftrightarrow> odd w"
  by (simp add: and_one_eq odd_iff_mod_2_eq_one)

lemma odd_of_nat_u32: "odd (of_nat n :: u32) \<longleftrightarrow> odd n"
  by (simp flip: bit_0 add: bit_of_nat_iff_bit)

text \<open>The loop of a reader returns the first even value it sees, if it ever sees one.\<close>

lemma read_begin_first_even:
  "even (seen (i + k)) \<Longrightarrow> (\<And>j. j < k \<Longrightarrow> odd (seen (i + j))) \<Longrightarrow>
   bh_seqlock_read_begin seen i = Some (seen (i + k))"
proof (induction k arbitrary: i)
  case 0
  then show ?case by (simp add: bh_seqlock_read_begin.simps [of _ i] and_1_word)
next
  case (Suc k)
  have "bh_seqlock_read_begin seen (Suc i) = Some (seen (Suc i + k))"
    by (rule Suc.IH) (use Suc.prems in \<open>auto simp flip: add_Suc_right\<close>)
  moreover have "odd (seen i)" using Suc.prems(2) [of 0] by simp
  ultimately show ?case by (simp add: bh_seqlock_read_begin.simps [of _ i] and_1_word)
qed

lemma read_begin_even: "bh_seqlock_read_begin seen i = Some q \<Longrightarrow> even q \<and> q \<in> range seen"
  by (erule bh_seqlock_read_begin.raw_induct [rotated]) (auto simp: and_1_word split: if_splits)

lemma reader_inv_readers [simp]: "reader_inv (s\<lparr>sq_readers := f\<rparr>) rd \<longleftrightarrow> reader_inv s rd"
  by (cases rd) (simp_all add: reader_inv_def)

lemma seq_step_inv: "seq_inv s \<Longrightarrow> seq_step s t \<Longrightarrow> seq_inv t"
proof (erule seq_stepE)
  fix l
  assume "seq_inv s" "bh_seqlock_write_begin (sq_lock s) = Some l" "t = s\<lparr>sq_lock := l\<rparr>"
  then show "seq_inv t"
    by (auto simp: seq_inv_def reader_inv_def bh_seqlock_write_begin_def split: if_splits seq_reader.splits)
next
  assume i: "seq_inv s" and w: "sl_writer_lock (sq_lock s)"
    and t: "t = s\<lparr>sq_lock := bh_seqlock_write_end (sq_lock s), sq_gen := Suc (sq_gen s)\<rparr>"
  have "reader_inv t rd" if "reader_inv s rd" for rd
    using that by (cases rd) (simp_all add: reader_inv_def t)
  then show "seq_inv t" using i w by (simp add: seq_inv_def bh_seqlock_write_end_def t)
next
  fix r q
  assume i: "seq_inv s" and q: "bh_seqlock_read_begin (\<lambda>_. sl_sequence (sq_lock s)) 0 = Some q"
    and t: "t = s\<lparr>sq_readers := (sq_readers s)(r := Rd_Reading q (sq_gen s) [])\<rparr>"
  from read_begin_even [OF q] have "even q" "q = sl_sequence (sq_lock s)" by auto
  then have "q = of_nat (2 * sq_gen s)"
    using i odd_of_nat_u32 [of "2 * sq_gen s + 1"] by (auto simp: seq_inv_def split: if_splits)
  then show "seq_inv t" using i by (auto simp: seq_inv_def reader_inv_def t split: seq_reader.splits)
next
  fix r q g vs
  assume i: "seq_inv s" and r: "sq_readers s r = Rd_Reading q g vs" and l: "length vs < length (sq_data s)"
    and t: "t = s\<lparr>sq_readers := (sq_readers s)(r := Rd_Reading q g (vs @ [sq_data s ! length vs]))\<rparr>"
  have "reader_inv s (Rd_Reading q g vs)" using i r by (metis seq_inv_def)
  then have "reader_inv s (Rd_Reading q g (vs @ [sq_data s ! length vs]))"
    using l by (simp add: reader_inv_def take_Suc_conv_app_nth)
  then show "seq_inv t" using i by (simp add: seq_inv_def t)
qed (auto simp: seq_inv_def reader_inv_def bh_seqlock_write_end_def split: seq_reader.splits)

interpretation seqlock: invariant_system seq_init seq_step seq_inv
proof
  show "seq_init s \<Longrightarrow> seq_inv s" for s
    by (auto simp: seq_init_def seq_inv_def reader_inv_def bh_seqlock_init_def)
  show "seq_inv s \<Longrightarrow> seq_step s t \<Longrightarrow> seq_inv t" for s t by (rule seq_step_inv)
qed

section \<open>Properties\<close>

text \<open>
  C32: No torn reads. When a reader has loaded the protected words one by one while a writer was
  free to run, and the retry check lets it go, then what it loaded is the protected data as it
  is, with no write in progress; this needs that fewer than \<open>2 ^ 31\<close> writes completed since the
  reader began, the bound the header of the seqlock documents.
\<close>

theorem seqlock_no_torn_read:
  assumes "seq_init s0" and "seq_step\<^sup>*\<^sup>* s0 s"
    and "sq_readers s r = Rd_Reading q g vs" and "length vs = length (sq_data s)"
    and "\<not> bh_seqlock_read_retry (sq_lock s) q" and "sq_gen s - g < 2 ^ 31"
  shows "vs = sq_data s \<and> g = sq_gen s \<and> \<not> sl_writer_lock (sq_lock s)"
proof -
  let ?b = "if sl_writer_lock (sq_lock s) then 1 else 0 :: nat"
  have inv: "seq_inv s" by (rule seqlock.reach_inv [OF assms(1,2)])
  then have "reader_inv s (Rd_Reading q g vs)" by (metis assms(3) seq_inv_def)
  then have q: "q = of_nat (2 * g)" "g \<le> sq_gen s"
      "g = sq_gen s \<and> \<not> sl_writer_lock (sq_lock s) \<longrightarrow> vs = take (length vs) (sq_data s)"
    by (simp_all add: reader_inv_def)
  have "of_nat (2 * sq_gen s + ?b) = (of_nat (2 * g) :: u32)"
    using inv assms(5) q(1) unfolding seq_inv_def bh_seqlock_read_retry_def by metis
  moreover have "2 * sq_gen s + ?b = 2 * g + (2 * (sq_gen s - g) + ?b)" using q(2) by simp
  ultimately have "of_nat (2 * g) + of_nat (2 * (sq_gen s - g) + ?b) = (of_nat (2 * g) :: u32)"
    by (metis of_nat_add)
  then have "of_nat (2 * (sq_gen s - g) + ?b) = (0 :: u32)" by (metis add_cancel_right_right)
  then have "2 ^ LENGTH(32) dvd 2 * (sq_gen s - g) + ?b" by (simp only: word_of_nat_eq_0_iff)
  then have "2 ^ 32 dvd 2 * (sq_gen s - g) + ?b" by simp
  moreover have "2 * (sq_gen s - g) + ?b < 2 ^ 32" using assms(6) by auto
  ultimately have "2 * (sq_gen s - g) + ?b = 0" by (metis dvd_imp_le not_gr_zero not_less)
  then have "g = sq_gen s" "\<not> sl_writer_lock (sq_lock s)" using q(2) by (auto split: if_splits)
  then show ?thesis using q(3) assms(4) by simp
qed

theorem seqlock_no_torn_read_witness:
  "\<exists>s0 s q g. seq_init s0 \<and> seq_step\<^sup>*\<^sup>* s0 s \<and> sq_readers s 7 = Rd_Reading q g [5] \<and> sq_data s = [5]"
proof -
  let ?s = "\<lparr>sq_lock = bh_seqlock_init \<lparr>sl_sequence = 9, sl_writer_lock = True\<rparr>, sq_data = [5], sq_gen = 0,
      sq_readers = \<lambda>_. Rd_Idle\<rparr>"
  let ?a = "?s\<lparr>sq_readers := (sq_readers ?s)(7 := Rd_Reading 0 (sq_gen ?s) [])\<rparr>"
  let ?b = "?a\<lparr>sq_readers := (sq_readers ?a)(7 := Rd_Reading 0 0 ([] @ [sq_data ?a ! length ([] :: u64 list)]))\<rparr>"
  have i: "seq_init ?s" by (auto simp: seq_init_def)
  have "seq_step ?s ?a"
    by (rule r_begin) (simp_all add: bh_seqlock_read_begin.simps bh_seqlock_init_def)
  moreover have "seq_step ?a ?b" by (rule r_load) simp_all
  ultimately have r: "seq_step\<^sup>*\<^sup>* ?s ?b" by simp
  have "[5] = sq_data ?b"
    using seqlock_no_torn_read [OF i r, of 7 0 0 "[5]"]
    by (simp add: bh_seqlock_read_retry_def bh_seqlock_init_def)
  with i r show ?thesis by (intro exI [of _ ?s] exI [of _ ?b] exI [of _ 0]) simp
qed

end
