(* ===== verification/Ds_Cpumask.thy ===== *)
theory Ds_Cpumask
  imports Interfaces
begin

text \<open>
  CPU masks (src/core/kernel/src/ds/bh_cpumask.c): a set of CPU numbers below
  \<^verbatim>\<open>BHARAT_MAX_CPUS\<close> in an array of 64-bit words. The build sets that constant, so it is the
  parameter \<open>n\<close> of every operation here; a mask is the list of its words.
\<close>

section \<open>Model\<close>

unbundle bit_operations_syntax

type_synonym bh_cpumask = "u64 list"

definition cpumask_words :: "nat \<Rightarrow> nat" where
  "cpumask_words n = (n + 64 - 1) div 64"

definition bh_cpumask_zero :: "nat \<Rightarrow> bh_cpumask option \<Rightarrow> bh_cpumask option" where
  "bh_cpumask_zero n cm = map_option (\<lambda>_. replicate (cpumask_words n) 0) cm"

definition bh_cpumask_fill :: "nat \<Rightarrow> bh_cpumask option \<Rightarrow> bh_cpumask option" where
  "bh_cpumask_fill n cm = map_option (\<lambda>_.
     let m = replicate (cpumask_words n) (- 1)
     in if n mod 64 \<noteq> 0
        then let last_word = cpumask_words n - 1
             in m[last_word := (m ! last_word) AND (push_bit (n mod 64) 1 - 1)]
        else m) cm"

definition bh_cpumask_set :: "nat \<Rightarrow> bh_cpumask option \<Rightarrow> nat \<Rightarrow> bh_cpumask option" where
  "bh_cpumask_set n cm cpu =
     (case cm of None \<Rightarrow> None
      | Some m \<Rightarrow> if cpu \<ge> n then Some m
                   else Some (m[cpu div 64 := (m ! (cpu div 64)) OR push_bit (cpu mod 64) 1]))"

definition bh_cpumask_clear :: "nat \<Rightarrow> bh_cpumask option \<Rightarrow> nat \<Rightarrow> bh_cpumask option" where
  "bh_cpumask_clear n cm cpu =
     (case cm of None \<Rightarrow> None
      | Some m \<Rightarrow> if cpu \<ge> n then Some m
                   else Some (m[cpu div 64 := (m ! (cpu div 64)) AND NOT (push_bit (cpu mod 64) 1)]))"

definition bh_cpumask_test :: "nat \<Rightarrow> bh_cpumask option \<Rightarrow> nat \<Rightarrow> bool" where
  "bh_cpumask_test n cm cpu =
     (case cm of None \<Rightarrow> False
      | Some m \<Rightarrow> cpu < n \<and> (m ! (cpu div 64)) AND push_bit (cpu mod 64) 1 \<noteq> 0)"

definition bh_cpumask_empty :: "nat \<Rightarrow> bh_cpumask option \<Rightarrow> bool" where
  "bh_cpumask_empty n cm =
     (case cm of None \<Rightarrow> True
      | Some m \<Rightarrow> list_all (\<lambda>i. m ! i = 0) [0..<cpumask_words n])"

definition bh_cpumask_copy :: "nat \<Rightarrow> bh_cpumask option \<Rightarrow> bh_cpumask option \<Rightarrow> bh_cpumask option" where
  "bh_cpumask_copy n dst src =
     (case (dst, src) of (Some d, Some s) \<Rightarrow> Some (take (cpumask_words n) s @ drop (cpumask_words n) d)
      | _ \<Rightarrow> dst)"

text \<open>The compiler builtins: number of set bits, and of trailing zero bits of a word that is not zero.\<close>

definition popcountll :: "u64 \<Rightarrow> nat" where
  "popcountll w = length (filter (bit w) [0..<64])"

definition ctzll :: "u64 \<Rightarrow> nat" where
  "ctzll w = (case find (bit w) [0..<64] of Some k \<Rightarrow> k | None \<Rightarrow> 64)"

definition bh_cpumask_weight :: "nat \<Rightarrow> bh_cpumask option \<Rightarrow> nat" where
  "bh_cpumask_weight n cm =
     (case cm of None \<Rightarrow> 0
      | Some m \<Rightarrow> fold (\<lambda>i weight. (weight + popcountll (m ! i)) mod 2 ^ 32) [0..<cpumask_words n] 0)"

definition cpumask_result :: "nat \<Rightarrow> nat \<Rightarrow> int" where
  "cpumask_result n cpu = (if cpu < n then int cpu else - 1)"

text \<open>The scan over whole words that first and next share.\<close>

definition cpumask_scan :: "nat \<Rightarrow> bh_cpumask \<Rightarrow> nat \<Rightarrow> int" where
  "cpumask_scan n m from =
     (case find (\<lambda>i. m ! i \<noteq> 0) [from..<cpumask_words n] of
        Some i \<Rightarrow> cpumask_result n (i * 64 + ctzll (m ! i))
      | None \<Rightarrow> - 1)"

definition bh_cpumask_first :: "nat \<Rightarrow> bh_cpumask option \<Rightarrow> int" where
  "bh_cpumask_first n cm = (case cm of None \<Rightarrow> - 1 | Some m \<Rightarrow> cpumask_scan n m 0)"

definition bh_cpumask_next :: "nat \<Rightarrow> bh_cpumask option \<Rightarrow> nat \<Rightarrow> int" where
  "bh_cpumask_next n cm prev =
     (case cm of None \<Rightarrow> - 1
      | Some m \<Rightarrow>
        let nxt = (prev + 1) mod 2 ^ 32
        in if nxt \<ge> n then - 1
           else let word_idx = nxt div 64;
                    current_word = (m ! word_idx) AND push_bit (nxt mod 64) (NOT 0)
                in if current_word \<noteq> 0 then cpumask_result n (word_idx * 64 + ctzll current_word)
                   else cpumask_scan n m (word_idx + 1))"

definition cpumask_zip ::
    "(u64 \<Rightarrow> u64 \<Rightarrow> u64) \<Rightarrow> nat \<Rightarrow> bh_cpumask option \<Rightarrow> bh_cpumask option \<Rightarrow> bh_cpumask option \<Rightarrow> bh_cpumask option" where
  "cpumask_zip f n dst a b =
     (case (dst, a, b) of
        (Some d, Some x, Some y) \<Rightarrow> Some (fold (\<lambda>i d. d[i := f (x ! i) (y ! i)]) [0..<cpumask_words n] d)
      | _ \<Rightarrow> dst)"

definition bh_cpumask_and :: "nat \<Rightarrow> bh_cpumask option \<Rightarrow> bh_cpumask option \<Rightarrow> bh_cpumask option \<Rightarrow> bh_cpumask option" where
  "bh_cpumask_and = cpumask_zip (AND)"

definition bh_cpumask_or :: "nat \<Rightarrow> bh_cpumask option \<Rightarrow> bh_cpumask option \<Rightarrow> bh_cpumask option \<Rightarrow> bh_cpumask option" where
  "bh_cpumask_or = cpumask_zip (OR)"

definition bh_cpumask_xor :: "nat \<Rightarrow> bh_cpumask option \<Rightarrow> bh_cpumask option \<Rightarrow> bh_cpumask option \<Rightarrow> bh_cpumask option" where
  "bh_cpumask_xor = cpumask_zip (XOR)"

definition bh_cpumask_andnot :: "nat \<Rightarrow> bh_cpumask option \<Rightarrow> bh_cpumask option \<Rightarrow> bh_cpumask option \<Rightarrow> bh_cpumask option" where
  "bh_cpumask_andnot = cpumask_zip (\<lambda>x y. x AND NOT y)"

definition bh_cpumask_equal :: "nat \<Rightarrow> bh_cpumask option \<Rightarrow> bh_cpumask option \<Rightarrow> bool" where
  "bh_cpumask_equal n a b =
     (case (a, b) of
        (Some x, Some y) \<Rightarrow> list_all (\<lambda>i. x ! i = y ! i) [0..<cpumask_words n]
      | _ \<Rightarrow> a = None \<and> b = None)"

definition bh_cpumask_intersects :: "nat \<Rightarrow> bh_cpumask option \<Rightarrow> bh_cpumask option \<Rightarrow> bool" where
  "bh_cpumask_intersects n a b =
     (case (a, b) of
        (Some x, Some y) \<Rightarrow> list_ex (\<lambda>i. (x ! i) AND (y ! i) \<noteq> 0) [0..<cpumask_words n]
      | _ \<Rightarrow> False)"

definition bh_cpumask_set_checked :: "nat \<Rightarrow> bh_cpumask option \<Rightarrow> nat \<Rightarrow> kstatus \<times> bh_cpumask option" where
  "bh_cpumask_set_checked n cm cpu =
     (if cm = None then (K_ERR_INVALID_ARG, cm)
      else if \<not> cpu < n then (K_ERR_INVALID_ARG, cm)
      else (K_OK, bh_cpumask_set n cm cpu))"

definition bh_cpumask_clear_checked :: "nat \<Rightarrow> bh_cpumask option \<Rightarrow> nat \<Rightarrow> kstatus \<times> bh_cpumask option" where
  "bh_cpumask_clear_checked n cm cpu =
     (if cm = None then (K_ERR_INVALID_ARG, cm)
      else if \<not> cpu < n then (K_ERR_INVALID_ARG, cm)
      else (K_OK, bh_cpumask_clear n cm cpu))"

definition bh_cpumask_test_checked :: "nat \<Rightarrow> bh_cpumask option \<Rightarrow> nat \<Rightarrow> bool option \<Rightarrow> kstatus \<times> bool option" where
  "bh_cpumask_test_checked n cm cpu out =
     (if cm = None \<or> out = None then (K_ERR_INVALID_ARG, out)
      else if \<not> cpu < n then (K_ERR_INVALID_ARG, out)
      else (K_OK, Some (bh_cpumask_test n cm cpu)))"

section \<open>Words and positions\<close>

definition cpumask_wf :: "nat \<Rightarrow> bh_cpumask \<Rightarrow> bool" where
  "cpumask_wf n m \<longleftrightarrow> length m = cpumask_words n \<and>
     (\<forall>i < cpumask_words n. \<forall>k < 64. bit (m ! i) k \<longrightarrow> i * 64 + k < n)"

definition cpumask_set :: "nat \<Rightarrow> bh_cpumask \<Rightarrow> nat \<Rightarrow> bool" where
  "cpumask_set n m c \<longleftrightarrow> c < n \<and> bit (m ! (c div 64)) (c mod 64)"

lemma cpumask_test_bit [simp]: "bh_cpumask_test n (Some m) c \<longleftrightarrow> cpumask_set n m c"
  by (simp add: bh_cpumask_test_def cpumask_set_def)

lemma cpumask_word_bound: "c < n \<Longrightarrow> c div 64 < cpumask_words n"
  by (simp add: cpumask_words_def less_mult_imp_div_less div_less_iff_less_mult)

lemma word_eq_0_iff: "(w :: u64) = 0 \<longleftrightarrow> (\<forall>k < 64. \<not> bit w k)"
  by (auto simp: bit_eq_iff)

lemma ctzll_least:
  assumes "w \<noteq> 0"
  shows "ctzll w < 64 \<and> bit w (ctzll w) \<and> (\<forall>k < ctzll w. \<not> bit w k)"
proof -
  obtain k where k: "find (bit w) [0..<64] = Some k"
    using assms by (cases "find (bit w) [0..<64]") (auto simp: find_upt_None_iff word_eq_0_iff)
  then have "ctzll w = k" by (simp add: ctzll_def)
  then show ?thesis using k by (simp add: find_upt_Some_iff)
qed

lemma cpumask_set_split: "k < 64 \<Longrightarrow> cpumask_set n m (i * 64 + k) \<longleftrightarrow> i * 64 + k < n \<and> bit (m ! i) k"
  by (simp add: cpumask_set_def)

lemma cpumask_set_word:
  "cpumask_wf n m \<Longrightarrow> i < cpumask_words n \<Longrightarrow> k < 64 \<Longrightarrow> bit (m ! i) k \<Longrightarrow> cpumask_set n m (i * 64 + k)"
  by (simp add: cpumask_set_split cpumask_wf_def)

text \<open>A scan over words finds the least member at or above the first bit of its first word.\<close>

lemma cpumask_scan_least:
  assumes wf: "cpumask_wf n m"
  shows "cpumask_scan n m a = (case find (cpumask_set n m) [a * 64..<n] of Some c \<Rightarrow> int c | None \<Rightarrow> - 1)"
proof (cases "find (\<lambda>i. m ! i \<noteq> 0) [a..<cpumask_words n]")
  case None
  have "\<not> cpumask_set n m c" if "a * 64 \<le> c" for c
  proof
    assume c: "cpumask_set n m c"
    then have "c div 64 < cpumask_words n" "bit (m ! (c div 64)) (c mod 64)"
      by (simp_all add: cpumask_set_def cpumask_word_bound)
    moreover have "a \<le> c div 64" using that by (simp add: less_eq_div_iff_mult_less_eq)
    ultimately show False using None by (auto simp: find_upt_None_iff)
  qed
  then have "find (cpumask_set n m) [a * 64..<n] = None" by (simp add: find_upt_None_iff)
  then show ?thesis using None by (simp add: cpumask_scan_def)
next
  case (Some i)
  then have i: "a \<le> i" "i < cpumask_words n" "m ! i \<noteq> 0" "\<And>j. a \<le> j \<Longrightarrow> j < i \<Longrightarrow> m ! j = 0"
    by (auto simp: find_upt_Some_iff)
  let ?c = "i * 64 + ctzll (m ! i)"
  have ctz: "ctzll (m ! i) < 64" "bit (m ! i) (ctzll (m ! i))" "\<forall>k < ctzll (m ! i). \<not> bit (m ! i) k"
    using ctzll_least [OF i(3)] by auto
  have c: "cpumask_set n m ?c" using cpumask_set_word [OF wf i(2) ctz(1,2)] .
  have least: "\<not> cpumask_set n m d" if "a * 64 \<le> d" "d < ?c" for d
  proof (cases "d div 64 < i")
    case True
    moreover have "a \<le> d div 64" using that(1) by (simp add: less_eq_div_iff_mult_less_eq)
    ultimately show ?thesis using i(4) by (simp add: cpumask_set_def)
  next
    case False
    then obtain e where "d = i * 64 + e"
      by (metis less_eq_div_iff_mult_less_eq le_Suc_ex not_less zero_less_numeral)
    then have "d div 64 = i" "d mod 64 < ctzll (m ! i)" using that(2) ctz(1) by simp_all
    then show ?thesis using ctz(3) by (simp add: cpumask_set_def)
  qed
  have "find (cpumask_set n m) [a * 64..<n] = Some ?c"
    unfolding find_upt_Some_iff using c least i(1) by (auto simp: cpumask_set_def)
  then show ?thesis using Some c by (simp add: cpumask_scan_def cpumask_result_def cpumask_set_def)
qed

lemma cpumask_bits_from:
  "k < 64 \<Longrightarrow> bit ((w :: u64) AND push_bit b (NOT 0)) k \<longleftrightarrow> bit w k \<and> b \<le> k"
  by (auto simp: bit_simps)

lemma cpumask_next_least:
  assumes wf: "cpumask_wf n m" and nxt: "nxt = (prev + 1) mod 2 ^ 32"
  shows "bh_cpumask_next n (Some m) prev =
    (case find (cpumask_set n m) [nxt..<n] of Some c \<Rightarrow> int c | None \<Rightarrow> - 1)"
proof (cases "nxt < n")
  case False
  then show ?thesis by (simp add: bh_cpumask_next_def nxt Let_def)
next
  case lt: True
  define w b where "w = nxt div 64" and "b = nxt mod 64"
  have nx: "nxt = w * 64 + b" and b: "b < 64" by (simp_all add: w_def b_def)
  have above: thesis if "nxt \<le> c" "\<And>e. c = w * 64 + e \<Longrightarrow> b \<le> e \<Longrightarrow> thesis" for c thesis
    by (rule that(2) [of "c - w * 64"]) (use that(1) nx in simp_all)
  define cw where "cw = (m ! w) AND push_bit b (NOT 0)"
  have cwb: "bit cw k \<longleftrightarrow> bit (m ! w) k \<and> b \<le> k" if "k < 64" for k
    using cpumask_bits_from [OF that] by (simp add: cw_def)
  have eq: "bh_cpumask_next n (Some m) prev =
      (if cw \<noteq> 0 then cpumask_result n (w * 64 + ctzll cw) else cpumask_scan n m (w + 1))"
    using lt by (simp add: bh_cpumask_next_def Let_def cw_def w_def b_def nxt)
  have wlt: "w < cpumask_words n" using cpumask_word_bound [OF lt] by (simp add: w_def)
  show ?thesis
  proof (cases "cw = 0")
    case True
    have low: "\<not> cpumask_set n m c" if "nxt \<le> c" "c < (w + 1) * 64" for c
    proof -
      from that(1) obtain e where e: "c = w * 64 + e" "b \<le> e" by (rule above)
      then have "e < 64" using that(2) by simp
      then show ?thesis using e cwb [of e] True by (simp add: cpumask_set_def)
    qed
    have "find (cpumask_set n m) [(w + 1) * 64..<n] = find (cpumask_set n m) [nxt..<n]"
    proof (cases "find (cpumask_set n m) [nxt..<n]")
      case None
      then have "\<forall>c. nxt \<le> c \<longrightarrow> c < n \<longrightarrow> \<not> cpumask_set n m c" by (simp add: find_upt_None_iff)
      then have "find (cpumask_set n m) [(w + 1) * 64..<n] = None"
        using nx b by (simp add: find_upt_None_iff)
      with None show ?thesis by simp
    next
      case (Some c)
      then have c: "nxt \<le> c" "c < n" "cpumask_set n m c" "\<forall>d. nxt \<le> d \<longrightarrow> d < c \<longrightarrow> \<not> cpumask_set n m d"
        by (simp_all add: find_upt_Some_iff)
      then have "(w + 1) * 64 \<le> c" using low [of c] by (meson not_less)
      then have "find (cpumask_set n m) [(w + 1) * 64..<n] = Some c"
        using c nx b by (simp add: find_upt_Some_iff)
      with Some show ?thesis by simp
    qed
    then show ?thesis using eq True cpumask_scan_least [OF wf, of "w + 1"] by simp
  next
    case False
    let ?c = "w * 64 + ctzll cw"
    have ctz: "ctzll cw < 64" "bit cw (ctzll cw)" "\<forall>k < ctzll cw. \<not> bit cw k"
      using ctzll_least [OF False] by auto
    then have c: "cpumask_set n m ?c" "b \<le> ctzll cw"
      using cwb [OF ctz(1)] cpumask_set_word [OF wf wlt ctz(1)] by auto
    have least: "\<not> cpumask_set n m d" if "nxt \<le> d" "d < ?c" for d
    proof -
      from that(1) obtain e where e: "d = w * 64 + e" "b \<le> e" by (rule above)
      then have "e < ctzll cw" "e < 64" using that(2) ctz(1) by simp_all
      then show ?thesis using e cwb [of e] ctz(3) by (simp add: cpumask_set_def)
    qed
    have "find (cpumask_set n m) [nxt..<n] = Some ?c"
      unfolding find_upt_Some_iff using c nx least by (auto simp: cpumask_set_def)
    then show ?thesis using eq False c(1) by (simp add: cpumask_result_def cpumask_set_def)
  qed
qed

section \<open>The set interface\<close>

lemma cpumask_set_set:
  assumes "cpumask_wf n m"
  shows "cpumask_set n (the (bh_cpumask_set n (Some m) i)) j \<longleftrightarrow> (j = i \<and> i < n) \<or> cpumask_set n m j"
proof -
  have "j div 64 = i div 64 \<and> j mod 64 = i mod 64 \<longleftrightarrow> j = i" by (metis div_mult_mod_eq)
  then show ?thesis
    using assms cpumask_word_bound [of i n]
    by (auto simp: bh_cpumask_set_def cpumask_set_def cpumask_wf_def nth_list_update)
qed

lemma cpumask_set_clear:
  assumes "cpumask_wf n m"
  shows "cpumask_set n (the (bh_cpumask_clear n (Some m) i)) j \<longleftrightarrow> j \<noteq> i \<and> cpumask_set n m j"
proof -
  have "j div 64 = i div 64 \<and> j mod 64 = i mod 64 \<longleftrightarrow> j = i" by (metis div_mult_mod_eq)
  then show ?thesis
    using assms cpumask_word_bound [of i n]
    by (auto simp: bh_cpumask_clear_def cpumask_set_def cpumask_wf_def nth_list_update)
qed

lemma cpumask_wf_set: "cpumask_wf n m \<Longrightarrow> cpumask_wf n (the (bh_cpumask_set n (Some m) i))"
  using div_mult_mod_eq [of i 64]
  by (auto simp: bh_cpumask_set_def cpumask_wf_def nth_list_update cpumask_word_bound split: if_splits)

lemma cpumask_wf_clear: "cpumask_wf n m \<Longrightarrow> cpumask_wf n (the (bh_cpumask_clear n (Some m) i))"
  by (auto simp: bh_cpumask_clear_def cpumask_wf_def nth_list_update cpumask_word_bound split: if_splits)

interpretation cpumask: bitset "cpumask_wf n" "\<lambda>_. n" "\<lambda>m. bh_cpumask_test n (Some m)"
    "\<lambda>m i. the (bh_cpumask_set n (Some m) i)" "\<lambda>m i. the (bh_cpumask_clear n (Some m) i)" for n
  by unfold_locales
     (simp_all add: cpumask_wf_set cpumask_wf_clear cpumask_set_set cpumask_set_clear, simp add: cpumask_set_def)

definition cpumask_members :: "nat \<Rightarrow> bh_cpumask \<Rightarrow> nat set" where
  "cpumask_members n m = {c. bh_cpumask_test n (Some m) c}"

lemma find_upt_Min:
  "(case find P [a..<n] of Some c \<Rightarrow> int c | None \<Rightarrow> - 1)
     = (if {c. a \<le> c \<and> c < n \<and> P c} = {} then - 1 else int (Min {c. a \<le> c \<and> c < n \<and> P c}))"
proof (cases "find P [a..<n]")
  case None
  then have "{c. a \<le> c \<and> c < n \<and> P c} = {}" by (auto simp: find_upt_None_iff)
  then show ?thesis using None by simp
next
  case (Some c)
  then have c: "a \<le> c" "c < n" "P c" "\<forall>j. a \<le> j \<longrightarrow> j < c \<longrightarrow> \<not> P j" by (simp_all add: find_upt_Some_iff)
  then have "Min {c. a \<le> c \<and> c < n \<and> P c} = c" by (intro Min_eqI) (auto simp: not_less [symmetric])
  moreover have "{c. a \<le> c \<and> c < n \<and> P c} \<noteq> {}" using c by blast
  ultimately show ?thesis using Some by simp
qed

lemma popcountll_card: "popcountll w = card {k. k < 64 \<and> bit w k}"
proof -
  have "popcountll w = card (set (filter (bit w) [0..<64]))"
    unfolding popcountll_def by (rule distinct_card [symmetric]) simp
  also have "set (filter (bit w) [0..<64]) = {k. k < 64 \<and> bit w k}" by auto
  finally show ?thesis .
qed

lemma fold_add_mod:
  "fold (\<lambda>i s. (s + f i) mod M) xs (a mod M) = (a + sum_list (map f xs)) mod (M :: nat)"
  by (induction xs arbitrary: a) (simp_all add: mod_simps add.assoc)

lemma card_words:
  assumes "cpumask_wf n m"
  shows "card (cpumask_members n m) = (\<Sum>i < cpumask_words n. popcountll (m ! i))"
proof -
  let ?S = "\<lambda>i. (\<lambda>k. i * 64 + k) ` {k. k < 64 \<and> bit (m ! i) k}"
  have "c \<in> (\<Union>i < cpumask_words n. ?S i)" if "cpumask_set n m c" for c
  proof -
    have "c = c div 64 * 64 + c mod 64" by simp
    moreover have "c mod 64 \<in> {k. k < 64 \<and> bit (m ! (c div 64)) k}" "c div 64 < cpumask_words n"
      using that by (simp_all add: cpumask_set_def cpumask_word_bound)
    ultimately show ?thesis by blast
  qed
  then have "cpumask_members n m = (\<Union>i < cpumask_words n. ?S i)"
    using cpumask_set_word [OF assms] by (auto simp: cpumask_members_def)
  also have "card \<dots> = (\<Sum>i < cpumask_words n. card (?S i))"
  proof (rule card_UN_disjoint)
    have "i = j" if "i * 64 + k = j * 64 + l" "k < 64" "l < 64" for i j k l :: nat
    proof -
      have "(i * 64 + k) div 64 = i" "(j * 64 + l) div 64 = j" using that(2,3) by simp_all
      then show ?thesis using that(1) by simp
    qed
    then show "\<forall>i \<in> {..<cpumask_words n}. \<forall>j \<in> {..<cpumask_words n}. i \<noteq> j \<longrightarrow> ?S i \<inter> ?S j = {}"
      by blast
  qed auto
  also have "\<dots> = (\<Sum>i < cpumask_words n. popcountll (m ! i))"
    by (simp add: card_image popcountll_card)
  finally show ?thesis .
qed

section \<open>Properties\<close>

text \<open>
  C28: \<^verbatim>\<open>bh_cpumask_first\<close> returns the least CPU of a mask and \<^verbatim>\<open>bh_cpumask_next\<close> the least
  CPU of the mask above the previous one, and both return -1 exactly when there is none; so a
  loop from first through next visits every CPU of the mask once, in increasing order.
\<close>

theorem cpumask_next_least_member:
  assumes "cpumask_wf n m" and "prev + 1 < 2 ^ 32"
  shows "bh_cpumask_first n (Some m) =
      (if cpumask_members n m = {} then - 1 else int (Min (cpumask_members n m))) \<and>
    bh_cpumask_next n (Some m) prev =
      (if {c \<in> cpumask_members n m. prev < c} = {} then - 1
       else int (Min {c \<in> cpumask_members n m. prev < c}))"
proof -
  have a: "{c. 0 * 64 \<le> c \<and> c < n \<and> cpumask_set n m c} = cpumask_members n m"
    and b: "{c. prev + 1 \<le> c \<and> c < n \<and> cpumask_set n m c} = {c \<in> cpumask_members n m. prev < c}"
    by (auto simp: cpumask_members_def cpumask_set_def)
  have "bh_cpumask_first n (Some m) =
      (if cpumask_members n m = {} then - 1 else int (Min (cpumask_members n m)))"
    using cpumask_scan_least [OF assms(1), of 0, unfolded find_upt_Min a]
    by (simp add: bh_cpumask_first_def)
  moreover have "bh_cpumask_next n (Some m) prev =
      (if {c \<in> cpumask_members n m. prev < c} = {} then - 1
       else int (Min {c \<in> cpumask_members n m. prev < c}))"
    using cpumask_next_least [OF assms(1), of "prev + 1" prev, unfolded find_upt_Min b] assms(2) by simp
  ultimately show ?thesis by blast
qed

theorem cpumask_next_least_member_witness: "bh_cpumask_next 66 (Some [1, 1]) 0 = 64"
proof -
  have w: "cpumask_wf 66 [1, 1]"
    by (auto simp: cpumask_wf_def cpumask_words_def less_Suc_eq numeral_2_eq_2 bit_1_iff)
  have "cpumask_set 66 [1, 1] c \<longleftrightarrow> c = 0 \<or> c = 64" for c
  proof -
    have "c div 64 = 0 \<or> c div 64 = 1" if "c < 66" using that by auto
    moreover have "c = c div 64 * 64 + c mod 64" by simp
    ultimately show ?thesis by (auto simp: cpumask_set_def bit_1_iff elim!: dvdE)
  qed
  then have "{c \<in> cpumask_members 66 [1, 1]. 0 < c} = {64}" by (auto simp: cpumask_members_def)
  then show ?thesis using cpumask_next_least_member [OF w, of 0] by simp
qed

text \<open>
  C29: The weight of a mask is the number of its CPUs: it is 0 exactly for the masks that
  \<^verbatim>\<open>bh_cpumask_empty\<close> accepts, and setting a CPU that is not in the mask raises it by one.
\<close>

theorem cpumask_weight_card:
  assumes "cpumask_wf n m" and "n < 2 ^ 32"
  shows "bh_cpumask_weight n (Some m) = card (cpumask_members n m) \<and>
    (bh_cpumask_empty n (Some m) \<longleftrightarrow> bh_cpumask_weight n (Some m) = 0) \<and>
    (c < n \<and> \<not> bh_cpumask_test n (Some m) c \<longrightarrow>
       bh_cpumask_weight n (bh_cpumask_set n (Some m) c) = bh_cpumask_weight n (Some m) + 1)"
proof -
  have wt: "bh_cpumask_weight n (Some k) = card (cpumask_members n k)" if "cpumask_wf n k" for k
  proof -
    have "card (cpumask_members n k) \<le> n" using cpumask.card_bound [of n k] by (simp add: cpumask_members_def)
    moreover have "(\<Sum>i \<leftarrow> [0..<cpumask_words n]. popcountll (k ! i)) = card (cpumask_members n k)"
      by (simp add: card_words [OF that] interv_sum_list_conv_sum_set_nat lessThan_atLeast0)
    ultimately show ?thesis
      using assms(2) fold_add_mod [of "\<lambda>i. popcountll (k ! i)" "2 ^ 32" "[0..<cpumask_words n]" 0]
      by (simp add: bh_cpumask_weight_def)
  qed
  have em: "bh_cpumask_empty n (Some m) \<longleftrightarrow> (\<forall>i \<in> {..<cpumask_words n}. popcountll (m ! i) = 0)"
    by (auto simp: bh_cpumask_empty_def list_all_iff popcountll_card word_eq_0_iff)
  have s: "\<exists>k. bh_cpumask_set n (Some m) c = Some k" by (simp add: bh_cpumask_set_def)
  have "bh_cpumask_weight n (bh_cpumask_set n (Some m) c) = bh_cpumask_weight n (Some m) + 1"
    if "c < n" "\<not> bh_cpumask_test n (Some m) c"
    using cpumask.card_set [OF assms(1) that] wt [OF assms(1)] wt [OF cpumask.inv_set [OF assms(1), of c]] s
    by (auto simp: cpumask_members_def)
  then show ?thesis using wt [OF assms(1)] em card_words [OF assms(1)] by simp
qed

theorem cpumask_weight_card_witness: "bh_cpumask_weight 4 (bh_cpumask_set 4 (Some [0]) 2) = 1"
proof -
  have w: "cpumask_wf 4 [0]" by (simp add: cpumask_wf_def cpumask_words_def)
  have "cpumask_members 4 [0] = {}" by (auto simp: cpumask_members_def cpumask_set_def)
  then show ?thesis
    using cpumask_weight_card [OF w, of 2] by (simp add: cpumask_set_def)
qed

end
