(* ===== verification/Ds_Id_Allocator.thy ===== *)
theory Ds_Id_Allocator
  imports Interfaces
begin

text \<open>
  The fixed-capacity identifier allocator (src/core/kernel/src/ds/bh_id_allocator.c): a
  bitmap of the identifiers in use, their number and a hint where the next search starts.
  The 32-bit fields are natural numbers with the wrap-around written out. The capability
  tables take their slots from it.
\<close>

section \<open>Model\<close>

record bh_id_allocator =
  ida_capacity :: nat
  ida_next_hint :: nat
  ida_allocated_count :: nat
  ida_bitmap :: "u8 list"

definition bh_id_allocator_init ::
    "bh_id_allocator option \<Rightarrow> u8 list option \<Rightarrow> nat \<Rightarrow> kstatus \<times> bh_id_allocator option" where
  "bh_id_allocator_init alloc bitmap capacity =
     (case (alloc, bitmap) of
        (Some _, Some bm) \<Rightarrow>
          if capacity = 0 then (K_ERR_INVALID_ARG, alloc)
          else let n = (capacity + 7) div 8
               in (K_OK, Some \<lparr>ida_capacity = capacity, ida_next_hint = 0,
                               ida_allocated_count = 0,
                               ida_bitmap = replicate n 0 @ drop n bm\<rparr>)
      | _ \<Rightarrow> (K_ERR_INVALID_ARG, alloc))"

text \<open>The identifier the search looks at in its \<open>i\<close>-th iteration.\<close>

definition ida_probe :: "bh_id_allocator \<Rightarrow> nat \<Rightarrow> nat" where
  "ida_probe a i = ((ida_next_hint a + i) mod 2 ^ 32) mod ida_capacity a"

definition bh_id_allocator_alloc ::
    "bh_id_allocator option \<Rightarrow> nat option \<Rightarrow> kstatus \<times> bh_id_allocator option \<times> nat option" where
  "bh_id_allocator_alloc alloc out_id =
     (case (alloc, out_id) of
        (Some a, Some _) \<Rightarrow>
          if ida_allocated_count a \<ge> ida_capacity a then (K_ERR_PMM_EXHAUSTED, alloc, out_id)
          else (case find (\<lambda>i. \<not> byte_test (ida_bitmap a) (ida_probe a i)) [0..<ida_capacity a] of
                  Some i \<Rightarrow>
                    let idn = ida_probe a i
                    in (K_OK,
                        Some (a\<lparr>ida_bitmap := byte_set (ida_bitmap a) idn,
                                ida_allocated_count := (ida_allocated_count a + 1) mod 2 ^ 32,
                                ida_next_hint := (idn + 1) mod ida_capacity a\<rparr>),
                        Some idn)
                | None \<Rightarrow> (K_ERR_PMM_EXHAUSTED, alloc, out_id))
      | _ \<Rightarrow> (K_ERR_INVALID_ARG, alloc, out_id))"

definition bh_id_allocator_free ::
    "bh_id_allocator option \<Rightarrow> nat \<Rightarrow> kstatus \<times> bh_id_allocator option" where
  "bh_id_allocator_free alloc idn =
     (case alloc of
        None \<Rightarrow> (K_ERR_INVALID_ARG, alloc)
      | Some a \<Rightarrow>
          if idn \<ge> ida_capacity a then (K_ERR_INVALID_ARG, alloc)
          else if \<not> byte_test (ida_bitmap a) idn then (K_ERR_ALREADY_EXISTS, alloc)
          else (K_OK,
                Some (a\<lparr>ida_bitmap := byte_clear (ida_bitmap a) idn,
                        ida_allocated_count := (ida_allocated_count a + 2 ^ 32 - 1) mod 2 ^ 32\<rparr>)))"

definition bh_id_allocator_is_allocated :: "bh_id_allocator option \<Rightarrow> nat \<Rightarrow> bool" where
  "bh_id_allocator_is_allocated alloc idn =
     (case alloc of
        None \<Rightarrow> False
      | Some a \<Rightarrow> if idn \<ge> ida_capacity a then False else byte_test (ida_bitmap a) idn)"

definition bh_id_allocator_capacity :: "bh_id_allocator option \<Rightarrow> nat" where
  "bh_id_allocator_capacity alloc = (case alloc of None \<Rightarrow> 0 | Some a \<Rightarrow> ida_capacity a)"

section \<open>Invariant\<close>

text \<open>
  The search adds the hint and the iteration count in 32 bits, so the invariant bounds the
  capacity by \<open>2 ^ 31\<close>; the kernel's allocators have 64 identifiers.
\<close>

definition ida_used :: "bh_id_allocator \<Rightarrow> nat set" where
  "ida_used a = {i. bh_id_allocator_is_allocated (Some a) i}"

definition ida_wf :: "bh_id_allocator \<Rightarrow> bool" where
  "ida_wf a \<longleftrightarrow> 0 < ida_capacity a \<and> ida_capacity a \<le> 2 ^ 31 \<and>
     ida_next_hint a < ida_capacity a \<and>
     (ida_capacity a + 7) div 8 \<le> length (ida_bitmap a) \<and>
     ida_allocated_count a = card (ida_used a)"

lemma ida_used_iff: "i \<in> ida_used a \<longleftrightarrow> i < ida_capacity a \<and> byte_test (ida_bitmap a) i"
  by (auto simp: ida_used_def bh_id_allocator_is_allocated_def split: if_splits)

lemma ida_used_subset: "ida_used a \<subseteq> {..<ida_capacity a}"
  by (auto simp: ida_used_iff)

lemma ida_used_finite [simp]: "finite (ida_used a)"
  using ida_used_subset finite_subset by blast

lemma ida_index: "ida_wf a \<Longrightarrow> i < ida_capacity a \<Longrightarrow> i div 8 < length (ida_bitmap a)"
  using byte_index_bound [of i "ida_capacity a"] by (auto simp: ida_wf_def)

lemma ida_count_le: "ida_wf a \<Longrightarrow> ida_allocated_count a \<le> ida_capacity a"
  using card_mono [OF _ ida_used_subset, of a] by (simp add: ida_wf_def)

lemma ida_full_iff: "ida_wf a \<Longrightarrow> ida_allocated_count a \<ge> ida_capacity a \<longleftrightarrow> ida_used a = {..<ida_capacity a}"
proof
  assume wf: "ida_wf a" and "ida_capacity a \<le> ida_allocated_count a"
  then have "card (ida_used a) = card {..<ida_capacity a}"
    using ida_count_le [OF wf] by (simp add: ida_wf_def)
  then show "ida_used a = {..<ida_capacity a}"
    by (intro card_subset_eq ida_used_subset) simp_all
next
  assume "ida_wf a" and "ida_used a = {..<ida_capacity a}"
  then show "ida_capacity a \<le> ida_allocated_count a" by (simp add: ida_wf_def)
qed

lemma ida_probe_bound: "ida_wf a \<Longrightarrow> ida_probe a i < ida_capacity a"
  by (simp add: ida_probe_def ida_wf_def)

lemma ida_probe_reaches:
  assumes "ida_wf a" and "j < ida_capacity a"
  shows "\<exists>i < ida_capacity a. ida_probe a i = j"
proof (cases "ida_next_hint a \<le> j")
  case True
  then have "ida_probe a (j - ida_next_hint a) = j"
    using assms by (simp add: ida_probe_def ida_wf_def)
  then show ?thesis using assms by (intro exI [of _ "j - ida_next_hint a"]) auto
next
  case False
  let ?i = "j + ida_capacity a - ida_next_hint a"
  have "ida_next_hint a + ?i = j + ida_capacity a" and "?i < ida_capacity a"
    using False assms by (auto simp: ida_wf_def)
  moreover have "j + ida_capacity a < 2 ^ 32" using assms by (auto simp: ida_wf_def)
  ultimately have "ida_probe a ?i = j" using assms(2) by (simp add: ida_probe_def)
  with \<open>?i < ida_capacity a\<close> show ?thesis by blast
qed

section \<open>Behaviour of the operations\<close>

lemma ida_alloc_exhausted:
  assumes "ida_wf a" and "ida_used a = {..<ida_capacity a}"
  shows "bh_id_allocator_alloc (Some a) (Some out) = (K_ERR_PMM_EXHAUSTED, Some a, Some out)"
  using assms ida_full_iff [OF assms(1)] by (simp add: bh_id_allocator_alloc_def)

lemma ida_used_set:
  assumes "ida_wf a" and "idn < ida_capacity a"
  shows "ida_used (a\<lparr>ida_bitmap := byte_set (ida_bitmap a) idn, ida_allocated_count := c,
                      ida_next_hint := h\<rparr>) = insert idn (ida_used a)"
  using assms by (auto simp: ida_used_iff ida_index)

lemma ida_used_clear:
  assumes "ida_wf a" and "idn < ida_capacity a"
  shows "ida_used (a\<lparr>ida_bitmap := byte_clear (ida_bitmap a) idn, ida_allocated_count := c\<rparr>)
         = ida_used a - {idn}"
  using assms by (auto simp: ida_used_iff ida_index)

lemma ida_alloc_success:
  assumes wf: "ida_wf a" and room: "ida_used a \<noteq> {..<ida_capacity a}"
  shows "\<exists>a' idn. bh_id_allocator_alloc (Some a) (Some out) = (K_OK, Some a', Some idn) \<and>
           ida_wf a' \<and> ida_capacity a' = ida_capacity a \<and> idn < ida_capacity a \<and>
           idn \<notin> ida_used a \<and> ida_used a' = insert idn (ida_used a) \<and>
           ida_next_hint a' = (idn + 1) mod ida_capacity a"
proof -
  have lt: "\<not> ida_capacity a \<le> ida_allocated_count a" using ida_full_iff [OF wf] room by simp
  have "\<exists>j < ida_capacity a. \<not> byte_test (ida_bitmap a) j"
  proof (rule ccontr)
    assume "\<not> ?thesis"
    then have "ida_used a = {..<ida_capacity a}" by (auto simp: ida_used_iff)
    with room show False by simp
  qed
  then obtain j where j: "j < ida_capacity a" "\<not> byte_test (ida_bitmap a) j" by blast
  obtain k where "k < ida_capacity a" "ida_probe a k = j"
    using ida_probe_reaches [OF wf j(1)] by blast
  then obtain i where i: "find (\<lambda>i. \<not> byte_test (ida_bitmap a) (ida_probe a i)) [0..<ida_capacity a] = Some i"
    using j(2) by (cases "find (\<lambda>i. \<not> byte_test (ida_bitmap a) (ida_probe a i)) [0..<ida_capacity a]")
                  (auto simp: loop_simps)
  let ?idn = "ida_probe a i"
  let ?a' = "a\<lparr>ida_bitmap := byte_set (ida_bitmap a) ?idn,
               ida_allocated_count := (ida_allocated_count a + 1) mod 2 ^ 32,
               ida_next_hint := (?idn + 1) mod ida_capacity a\<rparr>"
  have res: "bh_id_allocator_alloc (Some a) (Some out) = (K_OK, Some ?a', Some ?idn)"
    using lt i by (simp add: bh_id_allocator_alloc_def Let_def)
  have b: "?idn < ida_capacity a" by (rule ida_probe_bound [OF wf])
  have fresh: "?idn \<notin> ida_used a" using i by (simp add: loop_simps ida_used_iff)
  have used: "ida_used ?a' = insert ?idn (ida_used a)" by (rule ida_used_set [OF wf b])
  have "ida_allocated_count a + 1 < 2 ^ 32" using wf lt by (simp add: ida_wf_def)
  then have "ida_wf ?a'" using wf b fresh used by (simp add: ida_wf_def)
  with res b fresh used show ?thesis by auto
qed

lemma ida_free_success:
  assumes wf: "ida_wf a" and used: "idn \<in> ida_used a"
  shows "\<exists>a'. bh_id_allocator_free (Some a) idn = (K_OK, Some a') \<and> ida_wf a' \<and>
           ida_capacity a' = ida_capacity a \<and> ida_used a' = ida_used a - {idn} \<and>
           ida_next_hint a' = ida_next_hint a"
proof -
  from used have idn: "idn < ida_capacity a" "byte_test (ida_bitmap a) idn" by (auto simp: ida_used_iff)
  let ?a' = "a\<lparr>ida_bitmap := byte_clear (ida_bitmap a) idn,
               ida_allocated_count := (ida_allocated_count a + 2 ^ 32 - 1) mod 2 ^ 32\<rparr>"
  have u: "ida_used ?a' = ida_used a - {idn}" by (rule ida_used_clear [OF wf idn(1)])
  obtain n where n: "card (ida_used a) = Suc n"
    using used by (cases "card (ida_used a)") auto
  have "ida_allocated_count a \<le> 2 ^ 31" using ida_count_le [OF wf] wf by (simp add: ida_wf_def)
  then have c: "(ida_allocated_count a + 2 ^ 32 - 1) mod 2 ^ 32 = card (ida_used a) - 1"
    using wf n by (simp add: ida_wf_def)
  have "ida_wf ?a'" using wf u c used by (simp add: ida_wf_def)
  then show ?thesis using idn u by (simp add: bh_id_allocator_free_def)
qed

lemma ida_free_error:
  "idn \<notin> ida_used a \<Longrightarrow> fst (bh_id_allocator_free (Some a) idn) \<noteq> K_OK \<and>
   snd (bh_id_allocator_free (Some a) idn) = Some a"
  by (auto simp: bh_id_allocator_free_def ida_used_iff status_simps)

lemma ida_init_wf:
  assumes "0 < cap" and "cap \<le> 2 ^ 31" and "(cap + 7) div 8 \<le> length bm"
  shows "\<exists>a. bh_id_allocator_init (Some x) (Some bm) cap = (K_OK, Some a) \<and>
             ida_wf a \<and> ida_capacity a = cap \<and> ida_used a = {}"
proof -
  let ?a = "\<lparr>ida_capacity = cap, ida_next_hint = 0, ida_allocated_count = 0,
            ida_bitmap = replicate ((cap + 7) div 8) 0 @ drop ((cap + 7) div 8) bm\<rparr>"
  have "ida_used ?a = {}"
    using byte_index_bound [of _ cap]
    by (auto simp: ida_used_iff byte_test_def nth_append)
  then show ?thesis using assms by (simp add: bh_id_allocator_init_def ida_wf_def Let_def)
qed

section \<open>The allocator provides an identifier pool\<close>

definition ida_alloc_opt :: "bh_id_allocator \<Rightarrow> (nat \<times> bh_id_allocator) option" where
  "ida_alloc_opt a =
     (case bh_id_allocator_alloc (Some a) (Some 0) of
        (st, a', out) \<Rightarrow> if st = K_OK then Some (the out, the a') else None)"

definition ida_free_opt :: "bh_id_allocator \<Rightarrow> nat \<Rightarrow> bh_id_allocator option" where
  "ida_free_opt a idn =
     (case bh_id_allocator_free (Some a) idn of
        (st, a') \<Rightarrow> if st = K_OK then Some (the a') else None)"

lemma ida_alloc_opt_cases:
  assumes "ida_wf a"
  obtains (full) "ida_used a = {..<ida_capacity a}" "ida_alloc_opt a = None"
  | (ok) idn a' where "ida_used a \<noteq> {..<ida_capacity a}" "ida_alloc_opt a = Some (idn, a')" "ida_wf a'"
      "ida_capacity a' = ida_capacity a" "idn < ida_capacity a" "idn \<notin> ida_used a"
      "ida_used a' = insert idn (ida_used a)"
      "ida_next_hint a' = (idn + 1) mod ida_capacity a"
proof (cases "ida_used a = {..<ida_capacity a}")
  case True
  with ida_alloc_exhausted [OF assms True, of 0] full show ?thesis
    by (simp add: ida_alloc_opt_def status_simps)
next
  case False
  with ida_alloc_success [OF assms False, of 0] ok show ?thesis
    by (auto simp: ida_alloc_opt_def)
qed

lemma ida_free_opt_cases:
  assumes "ida_wf a"
  obtains (err) "idn \<notin> ida_used a" "ida_free_opt a idn = None"
  | (ok) a' where "idn \<in> ida_used a" "ida_free_opt a idn = Some a'" "ida_wf a'"
      "ida_capacity a' = ida_capacity a" "ida_used a' = ida_used a - {idn}"
proof (cases "idn \<in> ida_used a")
  case True
  with ida_free_success [OF assms True] ok show ?thesis by (auto simp: ida_free_opt_def)
next
  case False
  then have "ida_free_opt a idn = None"
    using ida_free_error [OF False] by (simp add: ida_free_opt_def split_beta)
  with False err show ?thesis by blast
qed

interpretation ida: id_pool ida_wf ida_capacity ida_used ida_alloc_opt ida_free_opt
proof unfold_locales
  fix p i q
  assume wf: "ida_wf p" and a: "ida_alloc_opt p = Some (i, q)"
  show "ida_wf q \<and> ida_capacity q = ida_capacity p \<and> i < ida_capacity p \<and>
      i \<notin> ida_used p \<and> ida_used q = insert i (ida_used p)"
    by (rule ida_alloc_opt_cases [OF wf]) (use a in simp_all)
next
  fix p i q
  assume wf: "ida_wf p" and f: "ida_free_opt p i = Some q"
  show "ida_wf q \<and> ida_capacity q = ida_capacity p \<and> i \<in> ida_used p \<and>
      ida_used q = ida_used p - {i}"
    by (rule ida_free_opt_cases [OF wf, of i]) (use f in simp_all)
next
  fix p
  assume wf: "ida_wf p"
  show "(ida_alloc_opt p = None) = (ida_used p = {..<ida_capacity p})"
    by (rule ida_alloc_opt_cases [OF wf]) simp_all
next
  fix p i
  assume wf: "ida_wf p"
  show "(ida_free_opt p i = None) = (i \<notin> ida_used p)"
    by (rule ida_free_opt_cases [OF wf, of i]) simp_all
qed (rule ida_used_subset)

section \<open>Properties\<close>

text \<open>
  C20: Allocation from a well-formed allocator succeeds exactly when an identifier is free; it
  then returns an in-range identifier that was not in use, marks exactly that one as used and
  keeps the invariant; when every identifier is in use it reports exhaustion and changes nothing.
\<close>

theorem id_allocator_alloc_correct:
  assumes "ida_wf a"
  shows "case bh_id_allocator_alloc (Some a) (Some out) of (st, a', out') \<Rightarrow>
           if ida_used a = {..<ida_capacity a}
           then st = K_ERR_PMM_EXHAUSTED \<and> a' = Some a \<and> out' = Some out
           else st = K_OK \<and> ida_wf (the a') \<and> ida_capacity (the a') = ida_capacity a \<and>
                the out' < ida_capacity a \<and> the out' \<notin> ida_used a \<and>
                ida_used (the a') = insert (the out') (ida_used a)"
proof (cases "ida_used a = {..<ida_capacity a}")
  case True
  with ida_alloc_exhausted [OF assms True, of out] show ?thesis by simp
next
  case False
  from ida_alloc_success [OF assms False, of out] obtain a' i where
    "bh_id_allocator_alloc (Some a) (Some out) = (K_OK, Some a', Some i)" "ida_wf a'"
    "ida_capacity a' = ida_capacity a" "i < ida_capacity a" "i \<notin> ida_used a"
    "ida_used a' = insert i (ida_used a)" by blast
  with False show ?thesis by simp
qed

theorem id_allocator_alloc_correct_witness:
  "case bh_id_allocator_alloc (Some \<lparr>ida_capacity = 2, ida_next_hint = 1, ida_allocated_count = 1,
        ida_bitmap = [2]\<rparr>) (Some 7) of (st, a', out') \<Rightarrow>
     st = K_OK \<and> ida_used (the a') = {0, 1} \<and> out' = Some 0"
proof -
  let ?a = "\<lparr>ida_capacity = 2, ida_next_hint = 1, ida_allocated_count = 1, ida_bitmap = [2]\<rparr>"
  have u: "ida_used ?a = {1}"
    by (rule set_eqI) (auto simp: ida_used_iff byte_test_def less_2_cases_iff)
  then have w: "ida_wf ?a" by (simp add: ida_wf_def)
  have n: "{1} \<noteq> {..<2::nat}" by (metis lessThan_iff zero_less_numeral singletonD zero_neq_one)
  have "find (\<lambda>i. \<not> byte_test [2] (ida_probe ?a i)) [0..<2] = Some 1"
    by (simp add: upt_conv_Cons byte_test_def ida_probe_def)
  then have r: "bh_id_allocator_alloc (Some ?a) (Some 7) =
      (K_OK, Some (?a\<lparr>ida_bitmap := byte_set [2] 0, ida_allocated_count := 2, ida_next_hint := 1\<rparr>), Some 0)"
    by (simp add: bh_id_allocator_alloc_def ida_probe_def)
  show ?thesis
    using id_allocator_alloc_correct [OF w, of 7] u n unfolding r by (simp add: insert_commute)
qed

text \<open>
  C21: Next-fit reuse. An identifier that has just been allocated and freed again is not the
  next one handed out as long as any other identifier is free, which delays the reuse of a
  capability slot.
\<close>

lemma ida_probe_last:
  assumes "ida_wf a" and "ida_next_hint a = (i + 1) mod ida_capacity a" and "i < ida_capacity a"
    and "k < ida_capacity a" and "ida_probe a k = i"
  shows "k = ida_capacity a - 1"
proof -
  let ?c = "ida_capacity a"
  have small: "(ida_next_hint a + k) mod 2 ^ 32 = ida_next_hint a + k"
    using assms(1,4) by (simp add: ida_wf_def)
  show ?thesis
  proof (cases "i + 1 = ?c")
    case True
    then have "ida_next_hint a = 0" using assms(2) by simp
    with assms(4,5) small True show ?thesis by (simp add: ida_probe_def)
  next
    case False
    with assms(2,3) have h: "ida_next_hint a = i + 1" by simp
    have eq: "(i + 1 + k) mod ?c = i" using assms(5) small h by (simp add: ida_probe_def)
    have "i + 1 + k < 2 * ?c" using assms(3,4) False by linarith
    with eq have "i + 1 + k = i \<or> i + 1 + k = i + ?c"
      by (simp add: mod_if split: if_splits)
    then show ?thesis by simp
  qed
qed



end
