(* ===== verification/Cap_Types.thy ===== *)
theory Cap_Types
  imports Ds_Id_Allocator
begin

text \<open>
  The data of the capability subsystem (src/core/kernel/include/capability.h and
  src/core/kernel/src/cap/cap_internal.h): types, rights, locators, table entries, tables and the
  cross-core transaction records, with the packing of handles, CSpace identities and transaction
  messages into machine words.
\<close>

unbundle bit_operations_syntax

named_theorems rights_simps \<open>the bits of the rights constants\<close>

section \<open>Types, states and rights\<close>

datatype cap_type =
    CAP_TYPE_NONE | CAP_TYPE_ENDPOINT | CAP_TYPE_MEMORY | CAP_TYPE_SCHED | CAP_TYPE_PROCESS
  | CAP_TYPE_CRYPTO_ENDPOINT | CAP_TYPE_CRYPTO_DEVICE | CAP_TYPE_CRYPTO_KEY | CAP_TYPE_RNG
  | CAP_TYPE_SEALER | CAP_TYPE_NETDEV | CAP_TYPE_NET_QUEUE | CAP_TYPE_NET_BUFFER
  | CAP_TYPE_IMPORTED_PROXY | CAP_TYPE_ACCEL_DEVICE | CAP_TYPE_ACCEL_QUEUE | CAP_TYPE_ACCEL_BUFFER
  | CAP_TYPE_ACCEL_TELEMETRY | CAP_TYPE_ACCEL_ADMIN | CAP_TYPE_DMA_DOMAIN | CAP_TYPE_DMA_GRANT
  | CAP_TYPE_THREAD | CAP_TYPE_HMEM | CAP_TYPE_BOOTSTRAP | CAP_TYPE_VM_SPACE

datatype cap_state =
  CAP_STATE_FREE | CAP_STATE_LIVE | CAP_STATE_REVOKING | CAP_STATE_REVOKED | CAP_STATE_QUARANTINED

definition CAP_RIGHT_NONE :: u64 where [rights_simps]: "CAP_RIGHT_NONE = 0"
definition CAP_RIGHT_ENDPOINT_SEND :: u64 where [rights_simps]: "CAP_RIGHT_ENDPOINT_SEND = push_bit 0 1"
definition CAP_RIGHT_ENDPOINT_RECEIVE :: u64 where [rights_simps]: "CAP_RIGHT_ENDPOINT_RECEIVE = push_bit 1 1"
definition CAP_RIGHT_MEMORY_MAP :: u64 where [rights_simps]: "CAP_RIGHT_MEMORY_MAP = push_bit 2 1"
definition CAP_RIGHT_MEMORY_UNMAP :: u64 where [rights_simps]: "CAP_RIGHT_MEMORY_UNMAP = push_bit 3 1"
definition CAP_RIGHT_MEMORY_SHARE :: u64 where [rights_simps]: "CAP_RIGHT_MEMORY_SHARE = push_bit 4 1"
definition CAP_RIGHT_DMA_MAP :: u64 where [rights_simps]: "CAP_RIGHT_DMA_MAP = push_bit 5 1"
definition CAP_RIGHT_SCHEDULE :: u64 where [rights_simps]: "CAP_RIGHT_SCHEDULE = push_bit 6 1"
definition CAP_RIGHT_DELEGATE :: u64 where [rights_simps]: "CAP_RIGHT_DELEGATE = push_bit 7 1"
definition CAP_RIGHT_CRYPT_USE :: u64 where [rights_simps]: "CAP_RIGHT_CRYPT_USE = push_bit 8 1"
definition CAP_RIGHT_CRYPT_DERIVE :: u64 where [rights_simps]: "CAP_RIGHT_CRYPT_DERIVE = push_bit 9 1"
definition CAP_RIGHT_CRYPT_SIGN :: u64 where [rights_simps]: "CAP_RIGHT_CRYPT_SIGN = push_bit 10 1"
definition CAP_RIGHT_CRYPT_DECRYPT :: u64 where [rights_simps]: "CAP_RIGHT_CRYPT_DECRYPT = push_bit 11 1"
definition CAP_RIGHT_CRYPT_EXPORT_WRAPPED :: u64 where [rights_simps]: "CAP_RIGHT_CRYPT_EXPORT_WRAPPED = push_bit 12 1"
definition CAP_RIGHT_CRYPT_ADMIN :: u64 where [rights_simps]: "CAP_RIGHT_CRYPT_ADMIN = push_bit 13 1"
definition CAP_RIGHT_ENQUEUE :: u64 where [rights_simps]: "CAP_RIGHT_ENQUEUE = push_bit 18 1"
definition CAP_RIGHT_CANCEL :: u64 where [rights_simps]: "CAP_RIGHT_CANCEL = push_bit 19 1"
definition CAP_RIGHT_QUERY :: u64 where [rights_simps]: "CAP_RIGHT_QUERY = push_bit 20 1"
definition CAP_RIGHT_BIND :: u64 where [rights_simps]: "CAP_RIGHT_BIND = push_bit 21 1"
definition CAP_RIGHT_SYNC_CPU :: u64 where [rights_simps]: "CAP_RIGHT_SYNC_CPU = push_bit 22 1"
definition CAP_RIGHT_SYNC_DEV :: u64 where [rights_simps]: "CAP_RIGHT_SYNC_DEV = push_bit 23 1"
definition CAP_RIGHT_READ_STATS :: u64 where [rights_simps]: "CAP_RIGHT_READ_STATS = push_bit 24 1"
definition CAP_RIGHT_READ_FAULTS :: u64 where [rights_simps]: "CAP_RIGHT_READ_FAULTS = push_bit 25 1"
definition CAP_RIGHT_RESET :: u64 where [rights_simps]: "CAP_RIGHT_RESET = push_bit 26 1"
definition CAP_RIGHT_PARTITION :: u64 where [rights_simps]: "CAP_RIGHT_PARTITION = push_bit 27 1"
definition CAP_RIGHT_FW_LOAD :: u64 where [rights_simps]: "CAP_RIGHT_FW_LOAD = push_bit 28 1"
definition CAP_RIGHT_READ :: u64 where [rights_simps]: "CAP_RIGHT_READ = push_bit 31 1"
definition CAP_RIGHT_WRITE :: u64 where [rights_simps]: "CAP_RIGHT_WRITE = push_bit 32 1"
definition CAP_RIGHT_EXECUTE :: u64 where [rights_simps]: "CAP_RIGHT_EXECUTE = push_bit 33 1"
definition CAP_RIGHT_VMM_MANAGE :: u64 where [rights_simps]: "CAP_RIGHT_VMM_MANAGE = push_bit 34 1"
definition CAP_RIGHT_PROCESS_MANAGE :: u64 where [rights_simps]: "CAP_RIGHT_PROCESS_MANAGE = push_bit 36 1"
definition CAP_RIGHT_RESOURCE_ALLOC :: u64 where [rights_simps]: "CAP_RIGHT_RESOURCE_ALLOC = push_bit 37 1"
definition CAP_RIGHT_HMEM_CREATE :: u64 where [rights_simps]: "CAP_RIGHT_HMEM_CREATE = push_bit 38 1"
definition CAP_RIGHT_HMEM_MAP_CPU :: u64 where [rights_simps]: "CAP_RIGHT_HMEM_MAP_CPU = push_bit 39 1"
definition CAP_RIGHT_HMEM_MAP_DEVICE :: u64 where [rights_simps]: "CAP_RIGHT_HMEM_MAP_DEVICE = push_bit 40 1"
definition CAP_RIGHT_HMEM_PIN :: u64 where [rights_simps]: "CAP_RIGHT_HMEM_PIN = push_bit 41 1"
definition CAP_RIGHT_HMEM_SHARE :: u64 where [rights_simps]: "CAP_RIGHT_HMEM_SHARE = push_bit 42 1"
definition CAP_RIGHT_HMEM_MIGRATE :: u64 where [rights_simps]: "CAP_RIGHT_HMEM_MIGRATE = push_bit 43 1"
definition CAP_RIGHT_HMEM_QUERY :: u64 where [rights_simps]: "CAP_RIGHT_HMEM_QUERY = push_bit 44 1"
definition CAP_RIGHT_HMEM_DESTROY :: u64 where [rights_simps]: "CAP_RIGHT_HMEM_DESTROY = push_bit 45 1"
definition CAP_RIGHT_ACCEL_SUBMIT :: u64 where [rights_simps]: "CAP_RIGHT_ACCEL_SUBMIT = push_bit 46 1"
definition CAP_RIGHT_DEVICE_DMA :: u64 where [rights_simps]: "CAP_RIGHT_DEVICE_DMA = push_bit 47 1"
definition CAP_RIGHT_BOOTSTRAP_LAUNCH :: u64 where [rights_simps]: "CAP_RIGHT_BOOTSTRAP_LAUNCH = push_bit 48 1"
definition CAP_RIGHT_BOOTSTRAP_BIND :: u64 where [rights_simps]: "CAP_RIGHT_BOOTSTRAP_BIND = push_bit 49 1"

section \<open>Locators, entries and tables\<close>

record bh_cap_locator =
  loc_cspace_id :: u32
  loc_owner_core :: u16
  loc_slot :: u16
  loc_generation :: u32
  loc_revocation_epoch :: u32

record cap_instance_id =
  ci_origin_core :: u32
  ci_object_id :: u64
  ci_slot_gen :: u32
  ci_rights_digest :: u64

record capability_entry =
  ce_in_use :: bool
  ce_state :: cap_state
  ce_id :: u32
  ce_type :: cap_type
  ce_rights :: u64
  ce_flags :: u32
  ce_object_ref :: u64
  ce_parent :: bh_cap_locator
  ce_first_child :: bh_cap_locator
  ce_next_sibling :: bh_cap_locator
  ce_generation :: u32
  ce_owner_core :: u32
  ce_active_pins :: u32
  ce_scope_id :: u32
  ce_instance_id :: cap_instance_id
  ce_revocation_epoch :: u64

record capability_table =
  ct_entries :: "capability_entry list"
  ct_id_allocator :: bh_id_allocator
  ct_cspace_id :: u32
  ct_owner_core :: u16
  ct_registry_slot :: u16
  ct_owner_pid :: u64
  ct_numa_node :: u32

record cap_validation_request =
  rq_cap_id :: u32
  rq_expected_object_type :: cap_type
  rq_required_rights :: u64
  rq_requester_pid :: u64
  rq_expected_generation :: u64

text \<open>Tables live at addresses: heap blocks and the static bootstrap table of each core.\<close>

datatype tptr = Heap_Table nat | Bootstrap_Table nat

record cap_cspace_registry_entry =
  re_table :: "tptr option"
  re_generation :: u32
  re_uses_bootstrap_storage :: bool
  re_reserved :: bool

section \<open>Cross-core transactions\<close>

datatype cap_tx_state = BH_CAP_TX_FREE | BH_CAP_TX_PREPARED | BH_CAP_TX_PUBLISHED | BH_CAP_TX_COMMITTED | BH_CAP_TX_ABORTED

definition BH_CAP_TX_OP_NONE :: u32 where [status_simps]: "BH_CAP_TX_OP_NONE = 0"
definition BH_CAP_TX_OP_DELEGATE :: u32 where [status_simps]: "BH_CAP_TX_OP_DELEGATE = 1"
definition BH_CAP_TX_OP_REVOKE :: u32 where [status_simps]: "BH_CAP_TX_OP_REVOKE = 2"
definition BH_CAP_TX_OP_ROLLBACK :: u32 where [status_simps]: "BH_CAP_TX_OP_ROLLBACK = 3"
definition BH_CAP_TX_OP_REVOKE_PREPARE :: u32 where [status_simps]: "BH_CAP_TX_OP_REVOKE_PREPARE = 4"
definition BH_CAP_TX_OP_REVOKE_COMMIT :: u32 where [status_simps]: "BH_CAP_TX_OP_REVOKE_COMMIT = 5"

record cap_tx_entry =
  tx_state :: cap_tx_state
  tx_generation :: u32
  tx_op :: u32
  tx_src :: bh_cap_locator
  tx_dst :: bh_cap_locator
  tx_target :: bh_cap_locator
  tx_revocation_epoch :: u64
  tx_type :: cap_type
  tx_requested_rights :: u64
  tx_object_ref :: u64
  tx_flags :: u32
  tx_owner_core :: u32
  tx_instance_id :: cap_instance_id
  tx_src_first_child :: bh_cap_locator
  tx_target_mask :: u32
  tx_ack_mask :: u32
  tx_result :: int
  tx_remote_cap_id :: u32
  tx_remote_dst_slot :: u32
  tx_remote_dst_gen :: u32

abbreviation (input) "MAX_CPUS \<equiv> 32 :: nat"
abbreviation (input) "CSPACES_PER_CORE \<equiv> 64 :: nat"
abbreviation (input) "CAP_TX_PER_CORE \<equiv> 16 :: nat"
abbreviation (input) "CAP_ENTRIES \<equiv> 64 :: nat"

section \<open>Handles\<close>

definition bh_cap_index :: "u32 \<Rightarrow> u32" where
  "bh_cap_index cap_id = cap_id AND 0xFFFF"

definition bh_cap_generation :: "u32 \<Rightarrow> u32" where
  "bh_cap_generation cap_id = drop_bit 16 cap_id"

definition bh_cap_is_valid_encoding :: "u32 \<Rightarrow> bool" where
  "bh_cap_is_valid_encoding cap_id \<longleftrightarrow> cap_id \<noteq> 0 \<and> bh_cap_generation cap_id \<noteq> 0"

text \<open>The build without the compatibility tests, where a handle of generation zero never matches.\<close>

definition bh_cap_generation_matches :: "u32 \<Rightarrow> u32 \<Rightarrow> bool" where
  "bh_cap_generation_matches entry_generation handle_generation \<longleftrightarrow>
     handle_generation \<noteq> 0 \<and> handle_generation = entry_generation"

text \<open>The handle the subsystem returns for an entry: \<open>id | (generation << 16)\<close>.\<close>

definition cap_handle_of :: "u32 \<Rightarrow> u32 \<Rightarrow> u32" where
  "cap_handle_of idn generation = idn OR push_bit 16 generation"

section \<open>Locators\<close>

definition cap_locator_null :: bh_cap_locator where
  "cap_locator_null = \<lparr>loc_cspace_id = 0, loc_owner_core = 0xFFFF, loc_slot = 0xFFFF,
     loc_generation = 0, loc_revocation_epoch = 0\<rparr>"

definition cap_locator_is_null :: "bh_cap_locator \<Rightarrow> bool" where
  "cap_locator_is_null l \<longleftrightarrow> loc_cspace_id l = 0"

definition cap_cspace_id_make :: "u32 \<Rightarrow> u32 \<Rightarrow> u32 \<Rightarrow> u32" where
  "cap_cspace_id_make owner_core slot generation =
     push_bit 12 generation OR push_bit 7 owner_core OR (slot + 1)"

definition cap_locator_make :: "capability_table option \<Rightarrow> nat \<Rightarrow> u32 \<Rightarrow> u32 \<Rightarrow> bh_cap_locator" where
  "cap_locator_make table slot generation revocation_epoch =
     (case table of None \<Rightarrow> cap_locator_null
      | Some t \<Rightarrow>
        if slot \<ge> CAP_ENTRIES \<or> slot > 0xFFFF then cap_locator_null
        else \<lparr>loc_cspace_id = ct_cspace_id t, loc_owner_core = ct_owner_core t, loc_slot = of_nat slot,
              loc_generation = generation, loc_revocation_epoch = revocation_epoch\<rparr>)"

section \<open>Transaction messages\<close>

definition cap_tx_pack_req :: "u8 \<Rightarrow> u8 \<Rightarrow> u32 \<Rightarrow> u8 \<Rightarrow> u64" where
  "cap_tx_pack_req origin_core slot generation op =
     push_bit 46 (ucast origin_core AND 0xFF) OR push_bit 40 (ucast slot AND 0x3F) OR
     push_bit 8 (ucast generation AND 0xFFFFFFFF) OR (ucast op AND 0xFF)"

definition cap_tx_unpack_req :: "u64 \<Rightarrow> u8 \<times> u8 \<times> u32 \<times> u8" where
  "cap_tx_unpack_req payload =
     (ucast (drop_bit 46 payload AND 0xFF), ucast (drop_bit 40 payload AND 0x3F),
      ucast (drop_bit 8 payload AND 0xFFFFFFFF), ucast (payload AND 0xFF))"

definition cap_tx_pack_ack :: "u8 \<Rightarrow> u8 \<Rightarrow> u32 \<Rightarrow> u8 \<Rightarrow> 8 word \<Rightarrow> u64" where
  "cap_tx_pack_ack origin_core slot generation responder_core status =
     push_bit 49 (ucast origin_core AND 0x1F) OR push_bit 45 (ucast slot AND 0x0F) OR
     push_bit 13 (ucast generation AND 0xFFFFFFFF) OR push_bit 8 (ucast responder_core AND 0x1F) OR
     ucast status"

definition cap_tx_unpack_ack :: "u64 \<Rightarrow> u8 \<times> u8 \<times> u32 \<times> u8 \<times> 8 word" where
  "cap_tx_unpack_ack payload =
     (ucast (drop_bit 49 payload AND 0x1F), ucast (drop_bit 45 payload AND 0x0F),
      ucast (drop_bit 13 payload AND 0xFFFFFFFF), ucast (drop_bit 8 payload AND 0x1F),
      ucast (payload AND 0xFF))"

section \<open>Packing lemmas\<close>

lemma pack_req_unpack:
  assumes "slot < 64"
  shows "cap_tx_unpack_req (cap_tx_pack_req orig slot g op) = (orig, slot, g, op)"
proof -
  have s: "n < 6" if "bit slot n" for n using bit_below [of slot 6 n] assms that by simp
  show ?thesis
    unfolding cap_tx_unpack_req_def cap_tx_pack_req_def prod.inject mask_folds
    by (intro conjI; rule bit_word_eqI) (auto simp: bit_simps dest: s)
qed

lemma pack_ack_unpack:
  assumes "orig < 32" "slot < 16" "resp < 32"
  shows "cap_tx_unpack_ack (cap_tx_pack_ack orig slot g resp st) = (orig, slot, g, resp, st)"
proof -
  have s: "n < 4" if "bit slot n" for n using bit_below [of slot 4 n] assms that by simp
  have o: "n < 5" if "bit orig n" for n using bit_below [of orig 5 n] assms that by simp
  have r: "n < 5" if "bit resp n" for n using bit_below [of resp 5 n] assms that by simp
  have t: "n < 8" if "bit st n" for n using bit_imp_le_length [OF that] by simp
  show ?thesis
    unfolding cap_tx_unpack_ack_def cap_tx_pack_ack_def prod.inject mask_folds
    by (intro conjI; rule bit_word_eqI) (auto simp: bit_simps dest: s o r t)
qed

lemma pack_req_payload: "bit (cap_tx_pack_req orig slot g op) n \<Longrightarrow> n < 54"
  unfolding cap_tx_pack_req_def mask_folds
  by (simp add: bit_simps, elim disjE conjE) linarith+

lemma pack_ack_payload: "bit (cap_tx_pack_ack orig slot g r st) n \<Longrightarrow> n < 54"
  using bit_imp_le_length [of st n] unfolding cap_tx_pack_ack_def mask_folds
  by (simp add: bit_simps, elim disjE conjE) linarith+

lemma handle_index: "idn < 0x10000 \<Longrightarrow> bh_cap_index (cap_handle_of idn g) = idn"
proof -
  assume "idn < 0x10000"
  then have s: "n < 16" if "bit idn n" for n using bit_below [of idn 16 n] that by simp
  show ?thesis
    unfolding bh_cap_index_def cap_handle_of_def mask_folds
    by (rule bit_word_eqI) (auto simp: bit_simps dest: s)
qed

lemma handle_generation: "idn < 0x10000 \<Longrightarrow> bh_cap_generation (cap_handle_of idn g) = take_bit 16 g"
proof -
  assume "idn < 0x10000"
  then have s: "n < 16" if "bit idn n" for n using bit_below [of idn 16 n] that by simp
  show ?thesis
    unfolding bh_cap_generation_def cap_handle_of_def
    by (rule bit_word_eqI) (auto simp: bit_simps dest: s)
qed

lemma cspace_id_fields:
  assumes "core < 32" and "slot < 64" and "g < 0x100000"
  shows "cap_cspace_id_make core slot g AND 0x7F = slot + 1 \<and>
         drop_bit 7 (cap_cspace_id_make core slot g) AND 0x1F = core \<and>
         drop_bit 12 (cap_cspace_id_make core slot g) = g"
proof -
  have "slot + 1 < 2 ^ 7" using assms(2) by unat_arith
  then have s: "n < 7" if "bit (slot + 1) n" for n using bit_below [of "slot + 1" 7 n] that by simp
  have o: "n < 5" if "bit core n" for n using bit_below [of core 5 n] assms that by simp
  have r: "n < 20" if "bit g n" for n using bit_below [of g 20 n] assms that by simp
  show ?thesis
    unfolding cap_cspace_id_make_def mask_folds
    by (intro conjI; rule bit_word_eqI) (auto simp: bit_simps dest: s o r)
qed

lemma locator_null_is_null [simp]: "cap_locator_is_null cap_locator_null"
  by (simp add: cap_locator_is_null_def cap_locator_null_def)

end
