(* ===== verification/Cap_Policy.thy ===== *)
theory Cap_Policy
  imports Cap_Types
begin

text \<open>
  Which rights a capability of each type may carry and what may be transferred
  (src/core/kernel/src/cap/cap_policy.c).
\<close>

unbundle bit_operations_syntax

section \<open>Model\<close>

definition k_cap_valid_rights_endpoint :: u64 where
  "k_cap_valid_rights_endpoint = CAP_RIGHT_ENDPOINT_SEND OR CAP_RIGHT_ENDPOINT_RECEIVE OR CAP_RIGHT_DELEGATE"

definition k_cap_valid_rights_memory :: u64 where
  "k_cap_valid_rights_memory =
     CAP_RIGHT_MEMORY_MAP OR CAP_RIGHT_MEMORY_UNMAP OR CAP_RIGHT_MEMORY_SHARE OR CAP_RIGHT_DELEGATE"

definition k_cap_valid_rights_crypto_device :: u64 where
  "k_cap_valid_rights_crypto_device = CAP_RIGHT_CRYPT_ADMIN OR CAP_RIGHT_DELEGATE"

definition k_cap_valid_rights_crypto_key :: u64 where
  "k_cap_valid_rights_crypto_key =
     CAP_RIGHT_CRYPT_USE OR CAP_RIGHT_CRYPT_DERIVE OR CAP_RIGHT_CRYPT_SIGN OR CAP_RIGHT_CRYPT_DECRYPT OR
     CAP_RIGHT_CRYPT_EXPORT_WRAPPED OR CAP_RIGHT_DELEGATE"

definition k_cap_valid_rights_crypto_simple :: u64 where
  "k_cap_valid_rights_crypto_simple = CAP_RIGHT_CRYPT_USE OR CAP_RIGHT_DELEGATE"

definition k_cap_valid_rights_netdev :: u64 where
  "k_cap_valid_rights_netdev = CAP_RIGHT_DELEGATE"

definition k_cap_valid_rights_accel_device :: u64 where
  "k_cap_valid_rights_accel_device = CAP_RIGHT_DELEGATE"

definition k_cap_valid_rights_accel_queue :: u64 where
  "k_cap_valid_rights_accel_queue =
     CAP_RIGHT_ENQUEUE OR CAP_RIGHT_CANCEL OR CAP_RIGHT_QUERY OR CAP_RIGHT_ACCEL_SUBMIT OR CAP_RIGHT_DELEGATE"

definition k_cap_valid_rights_accel_buffer :: u64 where
  "k_cap_valid_rights_accel_buffer =
     CAP_RIGHT_MEMORY_MAP OR CAP_RIGHT_BIND OR CAP_RIGHT_MEMORY_SHARE OR CAP_RIGHT_SYNC_CPU OR
     CAP_RIGHT_SYNC_DEV OR CAP_RIGHT_DELEGATE"

definition k_cap_valid_rights_accel_telemetry :: u64 where
  "k_cap_valid_rights_accel_telemetry = CAP_RIGHT_READ_STATS OR CAP_RIGHT_READ_FAULTS OR CAP_RIGHT_DELEGATE"

definition k_cap_valid_rights_accel_admin :: u64 where
  "k_cap_valid_rights_accel_admin =
     CAP_RIGHT_RESET OR CAP_RIGHT_PARTITION OR CAP_RIGHT_FW_LOAD OR CAP_RIGHT_DELEGATE"

definition k_cap_valid_rights_dma_grant :: u64 where
  "k_cap_valid_rights_dma_grant =
     CAP_RIGHT_DMA_MAP OR CAP_RIGHT_DEVICE_DMA OR CAP_RIGHT_MEMORY_UNMAP OR CAP_RIGHT_DELEGATE"

definition k_cap_valid_rights_dma_domain :: u64 where
  "k_cap_valid_rights_dma_domain = CAP_RIGHT_DELEGATE"

definition k_cap_valid_rights_process :: u64 where
  "k_cap_valid_rights_process = CAP_RIGHT_PROCESS_MANAGE OR CAP_RIGHT_DELEGATE OR CAP_RIGHT_RESOURCE_ALLOC"

definition k_cap_valid_rights_thread :: u64 where
  "k_cap_valid_rights_thread = CAP_RIGHT_SCHEDULE OR CAP_RIGHT_DELEGATE"

definition k_cap_valid_rights_hmem :: u64 where
  "k_cap_valid_rights_hmem =
     CAP_RIGHT_HMEM_CREATE OR CAP_RIGHT_HMEM_MAP_CPU OR CAP_RIGHT_HMEM_MAP_DEVICE OR CAP_RIGHT_HMEM_PIN OR
     CAP_RIGHT_HMEM_SHARE OR CAP_RIGHT_HMEM_MIGRATE OR CAP_RIGHT_HMEM_QUERY OR CAP_RIGHT_HMEM_DESTROY OR
     CAP_RIGHT_DELEGATE"

definition k_cap_valid_rights_bootstrap :: u64 where
  "k_cap_valid_rights_bootstrap = CAP_RIGHT_BOOTSTRAP_LAUNCH OR CAP_RIGHT_BOOTSTRAP_BIND OR CAP_RIGHT_DELEGATE"

fun cap_valid_rights_for_type :: "cap_type \<Rightarrow> u64" where
  "cap_valid_rights_for_type CAP_TYPE_ENDPOINT = k_cap_valid_rights_endpoint"
| "cap_valid_rights_for_type CAP_TYPE_CRYPTO_ENDPOINT = k_cap_valid_rights_endpoint"
| "cap_valid_rights_for_type CAP_TYPE_NET_QUEUE = k_cap_valid_rights_endpoint"
| "cap_valid_rights_for_type CAP_TYPE_MEMORY = k_cap_valid_rights_memory OR CAP_RIGHT_VMM_MANAGE"
| "cap_valid_rights_for_type CAP_TYPE_NET_BUFFER = k_cap_valid_rights_memory OR CAP_RIGHT_VMM_MANAGE"
| "cap_valid_rights_for_type CAP_TYPE_CRYPTO_DEVICE = k_cap_valid_rights_crypto_device"
| "cap_valid_rights_for_type CAP_TYPE_CRYPTO_KEY = k_cap_valid_rights_crypto_key"
| "cap_valid_rights_for_type CAP_TYPE_RNG = k_cap_valid_rights_crypto_simple"
| "cap_valid_rights_for_type CAP_TYPE_SEALER = k_cap_valid_rights_crypto_simple"
| "cap_valid_rights_for_type CAP_TYPE_NETDEV = k_cap_valid_rights_netdev"
| "cap_valid_rights_for_type CAP_TYPE_ACCEL_DEVICE = k_cap_valid_rights_accel_device"
| "cap_valid_rights_for_type CAP_TYPE_ACCEL_QUEUE = k_cap_valid_rights_accel_queue"
| "cap_valid_rights_for_type CAP_TYPE_ACCEL_BUFFER = k_cap_valid_rights_accel_buffer"
| "cap_valid_rights_for_type CAP_TYPE_ACCEL_TELEMETRY = k_cap_valid_rights_accel_telemetry"
| "cap_valid_rights_for_type CAP_TYPE_ACCEL_ADMIN = k_cap_valid_rights_accel_admin"
| "cap_valid_rights_for_type CAP_TYPE_DMA_GRANT = k_cap_valid_rights_dma_grant"
| "cap_valid_rights_for_type CAP_TYPE_DMA_DOMAIN = k_cap_valid_rights_dma_domain"
| "cap_valid_rights_for_type CAP_TYPE_SCHED = k_cap_valid_rights_thread"
| "cap_valid_rights_for_type CAP_TYPE_THREAD = k_cap_valid_rights_thread"
| "cap_valid_rights_for_type CAP_TYPE_BOOTSTRAP = k_cap_valid_rights_bootstrap"
| "cap_valid_rights_for_type CAP_TYPE_PROCESS = k_cap_valid_rights_process"
| "cap_valid_rights_for_type CAP_TYPE_HMEM = k_cap_valid_rights_hmem"
| "cap_valid_rights_for_type CAP_TYPE_VM_SPACE =
     CAP_RIGHT_MEMORY_MAP OR CAP_RIGHT_MEMORY_UNMAP OR CAP_RIGHT_VMM_MANAGE OR CAP_RIGHT_QUERY"
| "cap_valid_rights_for_type CAP_TYPE_NONE = 0"
| "cap_valid_rights_for_type CAP_TYPE_IMPORTED_PROXY = 0"

definition cap_transfer_rights_valid :: "cap_type \<Rightarrow> u64 \<Rightarrow> bool" where
  "cap_transfer_rights_valid type requested =
     (let allowed = cap_valid_rights_for_type type
      in if allowed = 0 then False else requested AND NOT allowed = 0)"

definition cap_can_transfer :: "cap_type \<Rightarrow> u64 \<Rightarrow> u64 \<Rightarrow> bool" where
  "cap_can_transfer type src_rights requested =
     (if \<not> cap_transfer_rights_valid type requested then False
      else if requested AND NOT src_rights \<noteq> 0 then False
      else True)"

definition cap_rights_valid :: "cap_type \<Rightarrow> u64 \<Rightarrow> bool" where
  "cap_rights_valid = cap_transfer_rights_valid"

section \<open>Rights as sets\<close>

definition rights_of :: "u64 \<Rightarrow> nat set" where
  "rights_of r = {n. bit r n}"

lemma bit_u64: "bit (w :: u64) n \<Longrightarrow> n < 64"
  using bit_imp_le_length [of w n] by simp

lemma rights_subset_and: "a AND b = b \<longleftrightarrow> rights_of b \<subseteq> rights_of a"
  by (auto simp: rights_of_def bit_eq_iff bit_and_iff dest: bit_u64)

lemma rights_subset_andnot: "b AND NOT a = 0 \<longleftrightarrow> rights_of b \<subseteq> rights_of a"
  by (auto simp: rights_of_def bit_eq_iff bit_and_iff bit_not_iff dest: bit_u64)

lemma rights_of_zero [simp]: "rights_of 0 = {}"
  by (simp add: rights_of_def)

lemma rights_of_inject: "rights_of a = rights_of b \<longleftrightarrow> a = b"
  by (auto simp: rights_of_def bit_eq_iff set_eq_iff dest: bit_u64)

lemma rights_of_bit: "k < 64 \<Longrightarrow> rights_of (push_bit k 1) = {k}"
  by (auto simp: rights_of_def bit_exp_iff)

lemma rights_of_or: "rights_of (a OR b) = rights_of a \<union> rights_of b"
  by (auto simp: rights_of_def bit_or_iff)

lemma right_test: "r AND CAP_RIGHT_DELEGATE \<noteq> 0 \<longleftrightarrow> 7 \<in> rights_of r"
  "r AND CAP_RIGHT_ENDPOINT_SEND \<noteq> 0 \<longleftrightarrow> 0 \<in> rights_of r"
  "r AND CAP_RIGHT_ENDPOINT_RECEIVE \<noteq> 0 \<longleftrightarrow> 1 \<in> rights_of r"
  unfolding rights_of_def rights_simps push_bit_eq_mult mult_1
  using and_exp_0 [of r 7] and_exp_0 [of r 0] and_exp_0 [of r 1] by simp_all

lemma cap_transfer_rights_valid_iff:
  "cap_transfer_rights_valid t r \<longleftrightarrow>
     cap_valid_rights_for_type t \<noteq> 0 \<and> rights_of r \<subseteq> rights_of (cap_valid_rights_for_type t)"
  by (simp add: cap_transfer_rights_valid_def Let_def rights_subset_andnot)

lemma cap_can_transfer_iff:
  "cap_can_transfer t s r \<longleftrightarrow> cap_transfer_rights_valid t r \<and> rights_of r \<subseteq> rights_of s"
  by (simp add: cap_can_transfer_def rights_subset_andnot)

text \<open>Every type that can be transferred at all has the right to delegate, except address spaces.\<close>

lemma valid_rights_delegate:
  "cap_valid_rights_for_type t = 0 \<or> t = CAP_TYPE_VM_SPACE \<or> 7 \<in> rights_of (cap_valid_rights_for_type t)"
  by (cases t) (simp_all add: rights_of_def k_cap_valid_rights_endpoint_def k_cap_valid_rights_memory_def
      k_cap_valid_rights_crypto_device_def k_cap_valid_rights_crypto_key_def k_cap_valid_rights_crypto_simple_def
      k_cap_valid_rights_netdev_def k_cap_valid_rights_accel_device_def k_cap_valid_rights_accel_queue_def
      k_cap_valid_rights_accel_buffer_def k_cap_valid_rights_accel_telemetry_def k_cap_valid_rights_accel_admin_def
      k_cap_valid_rights_dma_grant_def k_cap_valid_rights_dma_domain_def k_cap_valid_rights_process_def
      k_cap_valid_rights_thread_def k_cap_valid_rights_hmem_def k_cap_valid_rights_bootstrap_def
      CAP_RIGHT_DELEGATE_def bit_or_iff bit_push_bit_iff)

text \<open>
  C36: Transfers only ever attenuate: whatever a chain of transfers hands on is within the
  rights of the first holder and within what the type allows, capabilities of the types
  \<^verbatim>\<open>CAP_TYPE_NONE\<close> and \<^verbatim>\<open>CAP_TYPE_IMPORTED_PROXY\<close> are never transferred, and address-space
  capabilities cannot be delegated further because their type has no right to delegate.
\<close>

theorem cap_transfer_attenuates:
  assumes "cap_can_transfer t a b" and "cap_can_transfer t b c"
  shows "cap_can_transfer t a c \<and> rights_of c \<subseteq> rights_of a \<inter> rights_of (cap_valid_rights_for_type t) \<and>
         t \<noteq> CAP_TYPE_NONE \<and> t \<noteq> CAP_TYPE_IMPORTED_PROXY \<and>
         (t = CAP_TYPE_VM_SPACE \<longrightarrow> b AND CAP_RIGHT_DELEGATE = 0)"
proof -
  have vm: "7 \<notin> rights_of (cap_valid_rights_for_type CAP_TYPE_VM_SPACE)"
    by (simp add: rights_of_def rights_simps bit_or_iff bit_push_bit_iff)
  have b: "rights_of b \<subseteq> rights_of a" "rights_of b \<subseteq> rights_of (cap_valid_rights_for_type t)"
    and c: "rights_of c \<subseteq> rights_of b" "rights_of c \<subseteq> rights_of (cap_valid_rights_for_type t)"
    and t: "cap_valid_rights_for_type t \<noteq> 0"
    using assms by (simp_all add: cap_can_transfer_iff cap_transfer_rights_valid_iff)
  have "b AND CAP_RIGHT_DELEGATE = 0" if "t = CAP_TYPE_VM_SPACE"
    using b(2) vm right_test(1) [of b] that by blast
  moreover have "cap_can_transfer t a c"
    using b c t by (auto simp: cap_can_transfer_iff cap_transfer_rights_valid_iff)
  moreover have "t \<noteq> CAP_TYPE_NONE" "t \<noteq> CAP_TYPE_IMPORTED_PROXY" using t by auto
  ultimately show ?thesis using b c by blast
qed

theorem cap_transfer_attenuates_witness:
  "cap_can_transfer CAP_TYPE_ENDPOINT (CAP_RIGHT_ENDPOINT_SEND OR CAP_RIGHT_DELEGATE) CAP_RIGHT_ENDPOINT_SEND"
proof -
  have e: "rights_of CAP_RIGHT_ENDPOINT_SEND = {0}" "rights_of CAP_RIGHT_DELEGATE = {7}"
    unfolding rights_simps by (simp_all only: rights_of_bit)
  note o = rights_of_or
  have n: "cap_valid_rights_for_type CAP_TYPE_ENDPOINT \<noteq> 0"
    using valid_rights_delegate [of CAP_TYPE_ENDPOINT]
    by (auto simp: k_cap_valid_rights_endpoint_def o e simp flip: rights_of_inject)
  have a: "cap_can_transfer CAP_TYPE_ENDPOINT (CAP_RIGHT_ENDPOINT_SEND OR CAP_RIGHT_DELEGATE)
      (CAP_RIGHT_ENDPOINT_SEND OR CAP_RIGHT_DELEGATE)"
    using n by (auto simp: cap_can_transfer_iff cap_transfer_rights_valid_iff k_cap_valid_rights_endpoint_def o)
  have b: "cap_can_transfer CAP_TYPE_ENDPOINT (CAP_RIGHT_ENDPOINT_SEND OR CAP_RIGHT_DELEGATE) CAP_RIGHT_ENDPOINT_SEND"
    using n by (auto simp: cap_can_transfer_iff cap_transfer_rights_valid_iff k_cap_valid_rights_endpoint_def o)
  show ?thesis using cap_transfer_attenuates [OF a b] by blast
qed

end
