(* ===== verification/Urpc.thy ===== *)
theory Urpc
  imports Interfaces
begin

text \<open>
  The uRPC bootstrap transport (src/core/kernel/src/urpc/urpc_bootstrap.c and urpc_channel.c) and
  its message word (src/core/kernel/include/bharat/urpc.h): one channel per core, each with a ring
  for transmission and a ring for reception, and the binding state machine of a channel.
  \<^verbatim>\<open>BHARAT_MAX_CPUS\<close> is set by the build and is the parameter \<open>n\<close>.
\<close>

unbundle bit_operations_syntax

section \<open>The message word\<close>

datatype urpc_msg_type =
    URPC_MSG_NONE | URPC_BIND_REQ | URPC_BIND_ACK | URPC_CLOSE | URPC_CAP_REVOKE
  | URPC_CAP_REVOKE_ACK | URPC_TLB_INVAL | URPC_TLB_INVAL_ACK | URPC_CAP_DELEGATE_REQ
  | URPC_CAP_DELEGATE_ACK | URPC_IOMMU_INVAL | URPC_IOMMU_INVAL_ACK

fun urpc_msg_code :: "urpc_msg_type \<Rightarrow> u64" where
  "urpc_msg_code URPC_MSG_NONE = 0"
| "urpc_msg_code URPC_BIND_REQ = 1"
| "urpc_msg_code URPC_BIND_ACK = 2"
| "urpc_msg_code URPC_CLOSE = 3"
| "urpc_msg_code URPC_CAP_REVOKE = 4"
| "urpc_msg_code URPC_CAP_REVOKE_ACK = 5"
| "urpc_msg_code URPC_TLB_INVAL = 6"
| "urpc_msg_code URPC_TLB_INVAL_ACK = 7"
| "urpc_msg_code URPC_CAP_DELEGATE_REQ = 8"
| "urpc_msg_code URPC_CAP_DELEGATE_ACK = 9"
| "urpc_msg_code URPC_IOMMU_INVAL = 10"
| "urpc_msg_code URPC_IOMMU_INVAL_ACK = 11"

definition urpc_pack_msg :: "urpc_msg_type \<Rightarrow> u64 \<Rightarrow> u64" where
  "urpc_pack_msg type payload =
     push_bit 56 (urpc_msg_code type AND 0xFF) OR (payload AND 0xFFFFFFFFFFFFFF)"

definition urpc_unpack_msg :: "u64 \<Rightarrow> u64 \<times> u64" where
  "urpc_unpack_msg raw_msg = (drop_bit 56 raw_msg AND 0xFF, raw_msg AND 0xFFFFFFFFFFFFFF)"

section \<open>Rings and channels\<close>

definition K_ERR_BUSY :: kstatus where
  [status_simps]: "K_ERR_BUSY = -6"

abbreviation (input) "URPC_RING_SIZE \<equiv> 256 :: nat"

record urpc_ring =
  ur_head :: nat
  ur_tail :: nat
  ur_buffer :: "u64 list"

record urpc_channel =
  uc_tx_ring :: urpc_ring
  uc_rx_ring :: urpc_ring
  uc_is_bound :: bool

definition init_ring :: urpc_ring where
  "init_ring = \<lparr>ur_head = 0, ur_tail = 0, ur_buffer = replicate URPC_RING_SIZE 0\<rparr>"

definition urpc_init_global :: "nat \<Rightarrow> (nat \<Rightarrow> urpc_channel) \<Rightarrow> kstatus \<times> (nat \<Rightarrow> urpc_channel)" where
  "urpc_init_global n chans =
     (K_OK, \<lambda>i. if i < n then \<lparr>uc_tx_ring = init_ring, uc_rx_ring = init_ring, uc_is_bound = False\<rparr> else chans i)"

definition urpc_bootstrap_core :: "nat \<Rightarrow> (nat \<Rightarrow> urpc_channel) \<Rightarrow> nat \<Rightarrow> kstatus \<times> (nat \<Rightarrow> urpc_channel)" where
  "urpc_bootstrap_core n chans core_id =
     (if core_id = 0 then (K_OK, chans)
      else if core_id < n \<and> ur_head (uc_tx_ring (chans core_id)) = 0 \<and> ur_head (uc_rx_ring (chans core_id)) = 0
      then (K_OK, chans(core_id := (chans core_id)\<lparr>uc_is_bound := True\<rparr>))
      else (K_ERR_BAD_STATE, chans))"

definition urpc_mark_ready :: "nat \<Rightarrow> (nat \<Rightarrow> urpc_channel) \<Rightarrow> nat \<Rightarrow> (nat \<Rightarrow> urpc_channel)" where
  "urpc_mark_ready n chans core_id =
     (if core_id < n then chans(core_id := (chans core_id)\<lparr>uc_is_bound := True\<rparr>) else chans)"

definition urpc_is_ready :: "nat \<Rightarrow> (nat \<Rightarrow> urpc_channel) \<Rightarrow> nat \<Rightarrow> bool" where
  "urpc_is_ready n chans core_id \<longleftrightarrow> core_id < n \<and> uc_is_bound (chans core_id)"

text \<open>The ring part of send and of receive.\<close>

definition ring_put :: "urpc_ring \<Rightarrow> u64 \<Rightarrow> urpc_ring option" where
  "ring_put ring msg =
     (let next_head = (ur_head ring + 1) mod URPC_RING_SIZE
      in if next_head = ur_tail ring then None
         else Some (ring\<lparr>ur_buffer := (ur_buffer ring)[ur_head ring := msg], ur_head := next_head\<rparr>))"

definition ring_get :: "urpc_ring \<Rightarrow> (u64 \<times> urpc_ring) option" where
  "ring_get ring =
     (if ur_head ring = ur_tail ring then None
      else Some (ur_buffer ring ! ur_tail ring, ring\<lparr>ur_tail := (ur_tail ring + 1) mod URPC_RING_SIZE\<rparr>))"

definition urpc_bootstrap_send :: "nat \<Rightarrow> (nat \<Rightarrow> urpc_channel) \<Rightarrow> nat \<Rightarrow> u64 \<Rightarrow> kstatus \<times> (nat \<Rightarrow> urpc_channel)" where
  "urpc_bootstrap_send n chans target_core msg =
     (if target_core \<ge> n \<or> \<not> uc_is_bound (chans target_core) then (K_ERR_NOT_FOUND, chans)
      else case ring_put (uc_tx_ring (chans target_core)) msg of
        None \<Rightarrow> (K_ERR_BUSY, chans)
      | Some r \<Rightarrow> (K_OK, chans(target_core := (chans target_core)\<lparr>uc_tx_ring := r\<rparr>)))"

definition urpc_bootstrap_recv ::
    "nat \<Rightarrow> (nat \<Rightarrow> urpc_channel) \<Rightarrow> nat \<Rightarrow> u64 option \<Rightarrow> kstatus \<times> (nat \<Rightarrow> urpc_channel) \<times> u64 option" where
  "urpc_bootstrap_recv n chans source_core out_msg =
     (if source_core \<ge> n \<or> \<not> uc_is_bound (chans source_core) then (K_ERR_NOT_FOUND, chans, out_msg)
      else if out_msg = None then (K_ERR_INVALID_ARG, chans, out_msg)
      else case ring_get (uc_rx_ring (chans source_core)) of
        None \<Rightarrow> (K_ERR_NOT_FOUND, chans, out_msg)
      | Some (msg, r) \<Rightarrow> (K_OK, chans(source_core := (chans source_core)\<lparr>uc_rx_ring := r\<rparr>), Some msg))"

section \<open>The channel state machine\<close>

datatype urpc_channel_state = URPC_CHANNEL_CLOSED | URPC_CHANNEL_BINDING | URPC_CHANNEL_BOUND | URPC_CHANNEL_ERROR

datatype bharat_status = STATUS_OK | STATUS_ERR_NOT_FOUND | STATUS_ERR_UNSUPPORTED | STATUS_ERR_INTERNAL

definition urpc_channel_transition_allowed :: "urpc_channel_state \<Rightarrow> urpc_channel_state \<Rightarrow> bool" where
  "urpc_channel_transition_allowed from to \<longleftrightarrow> from = to \<or>
     (case from of
        URPC_CHANNEL_CLOSED \<Rightarrow> to = URPC_CHANNEL_BINDING \<or> to = URPC_CHANNEL_BOUND
      | URPC_CHANNEL_BINDING \<Rightarrow> to = URPC_CHANNEL_BOUND \<or> to = URPC_CHANNEL_ERROR \<or> to = URPC_CHANNEL_CLOSED
      | URPC_CHANNEL_BOUND \<Rightarrow> to = URPC_CHANNEL_CLOSED \<or> to = URPC_CHANNEL_ERROR
      | URPC_CHANNEL_ERROR \<Rightarrow> to = URPC_CHANNEL_CLOSED)"

record urpc_state =
  us_channels :: "nat \<Rightarrow> urpc_channel"
  us_states :: "nat \<Rightarrow> urpc_channel_state"

definition urpc_set_state :: "urpc_state \<Rightarrow> nat \<Rightarrow> urpc_channel_state \<Rightarrow> urpc_state" where
  "urpc_set_state s core st = s\<lparr>us_states := (us_states s)(core := st)\<rparr>"

definition urpc_channel_bind :: "nat \<Rightarrow> nat \<Rightarrow> urpc_state \<Rightarrow> nat \<Rightarrow> bharat_status \<times> urpc_state" where
  "urpc_channel_bind n cpu s target_core =
     (if target_core \<ge> n then (STATUS_ERR_NOT_FOUND, s)
      else if target_core = cpu then (STATUS_ERR_UNSUPPORTED, s)
      else let current = us_states s target_core
      in if current = URPC_CHANNEL_BINDING \<or> current = URPC_CHANNEL_BOUND then (STATUS_ERR_INTERNAL, s)
      else if \<not> urpc_channel_transition_allowed current URPC_CHANNEL_BINDING then (STATUS_ERR_INTERNAL, s)
      else let s1 = urpc_set_state s target_core URPC_CHANNEL_BINDING;
               (ret, ch) = urpc_bootstrap_send n (us_channels s1) target_core (urpc_pack_msg URPC_BIND_REQ 0);
               s2 = s1\<lparr>us_channels := ch\<rparr>
           in if ret \<noteq> K_OK then (STATUS_ERR_INTERNAL, urpc_set_state s2 target_core URPC_CHANNEL_ERROR)
              else (STATUS_OK, s2))"

definition urpc_channel_accept :: "nat \<Rightarrow> nat \<Rightarrow> urpc_state \<Rightarrow> nat \<Rightarrow> bharat_status \<times> urpc_state" where
  "urpc_channel_accept n cpu s source_core =
     (if source_core \<ge> n then (STATUS_ERR_NOT_FOUND, s)
      else if source_core = cpu then (STATUS_ERR_UNSUPPORTED, s)
      else if \<not> urpc_channel_transition_allowed (us_states s source_core) URPC_CHANNEL_BOUND
      then (STATUS_ERR_INTERNAL, s)
      else let s1 = urpc_set_state s source_core URPC_CHANNEL_BOUND;
               s2 = s1\<lparr>us_channels := urpc_mark_ready n (us_channels s1) source_core\<rparr>;
               (ret, ch) = urpc_bootstrap_send n (us_channels s2) source_core (urpc_pack_msg URPC_BIND_ACK 0);
               s3 = s2\<lparr>us_channels := ch\<rparr>
           in if ret \<noteq> K_OK then (STATUS_ERR_INTERNAL, urpc_set_state s3 source_core URPC_CHANNEL_ERROR)
              else (STATUS_OK, s3))"

definition urpc_channel_close :: "nat \<Rightarrow> urpc_state \<Rightarrow> nat \<Rightarrow> bharat_status \<times> urpc_state" where
  "urpc_channel_close n s target_core =
     (if target_core \<ge> n then (STATUS_ERR_NOT_FOUND, s)
      else if \<not> urpc_channel_transition_allowed (us_states s target_core) URPC_CHANNEL_CLOSED
      then (STATUS_ERR_INTERNAL, s)
      else let s1 = urpc_set_state s target_core URPC_CHANNEL_CLOSED;
               (ret, ch) = urpc_bootstrap_send n (us_channels s1) target_core (urpc_pack_msg URPC_CLOSE 0);
               s2 = s1\<lparr>us_channels := ch\<rparr>
           in (if ret \<noteq> K_OK then STATUS_ERR_INTERNAL else STATUS_OK, s2))"

definition urpc_channel_get_state :: "nat \<Rightarrow> urpc_state \<Rightarrow> nat \<Rightarrow> urpc_channel_state" where
  "urpc_channel_get_state n s target_core = (if target_core \<ge> n then URPC_CHANNEL_ERROR else us_states s target_core)"

section \<open>Rings are bounded queues\<close>

definition uring_wf :: "urpc_ring \<Rightarrow> bool" where
  "uring_wf r \<longleftrightarrow> ur_head r < 256 \<and> ur_tail r < 256 \<and> length (ur_buffer r) = 256"

definition uring_count :: "urpc_ring \<Rightarrow> nat" where
  "uring_count r = (if ur_tail r \<le> ur_head r then ur_head r - ur_tail r else ur_head r + 256 - ur_tail r)"

definition uring_list :: "urpc_ring \<Rightarrow> u64 list" where
  "uring_list r = map (\<lambda>k. ur_buffer r ! ((ur_tail r + k) mod 256)) [0..<uring_count r]"

lemma length_uring_list [simp]: "length (uring_list r) = uring_count r"
  by (simp add: uring_list_def)

lemma mod_256_if: "a < 512 \<Longrightarrow> a mod 256 = (if a < 256 then a else a - 256 :: nat)"
  by (simp add: mod_if)

lemma ring_put_None: "uring_wf r \<Longrightarrow> ring_put r m = None \<longleftrightarrow> uring_count r = 255"
  by (auto simp: uring_wf_def ring_put_def uring_count_def Let_def mod_256_if)

lemma ring_put_Some:
  assumes wf: "uring_wf r" and put: "ring_put r m = Some r'"
  shows "uring_wf r' \<and> uring_list r' = uring_list r @ [m]"
proof -
  have r': "r' = r\<lparr>ur_buffer := (ur_buffer r)[ur_head r := m], ur_head := (ur_head r + 1) mod 256\<rparr>"
    and ne: "(ur_head r + 1) mod 256 \<noteq> ur_tail r"
    using put by (auto simp: ring_put_def Let_def split: if_splits)
  have h: "ur_head r < 256" "ur_tail r < 256" using wf by (simp_all add: uring_wf_def)
  have cnt: "uring_count r' = uring_count r + 1"
    using ne h by (auto simp: r' uring_count_def mod_256_if split: if_splits)
  have idx: "(ur_tail r + k) mod 256 = ur_head r \<longleftrightarrow> k = uring_count r" if "k \<le> uring_count r" for k
    using that h by (auto simp: uring_count_def mod_256_if split: if_splits)
  have "uring_list r' = map (\<lambda>k. ((ur_buffer r)[ur_head r := m]) ! ((ur_tail r + k) mod 256)) [0..<uring_count r] @
      [((ur_buffer r)[ur_head r := m]) ! ((ur_tail r + uring_count r) mod 256)]"
    by (simp add: uring_list_def cnt) (simp add: r')
  moreover have "map (\<lambda>k. ((ur_buffer r)[ur_head r := m]) ! ((ur_tail r + k) mod 256)) [0..<uring_count r] = uring_list r"
  proof -
    have "((ur_buffer r)[ur_head r := m]) ! ((ur_tail r + k) mod 256) = ur_buffer r ! ((ur_tail r + k) mod 256)"
      if "k < uring_count r" for k using idx [of k] that by simp
    then show ?thesis by (simp add: uring_list_def)
  qed
  moreover have "((ur_buffer r)[ur_head r := m]) ! ((ur_tail r + uring_count r) mod 256) = m"
    using idx [of "uring_count r"] wf by (simp add: uring_wf_def)
  ultimately show ?thesis using wf by (simp add: uring_wf_def r')
qed

lemma ring_get_Some:
  assumes wf: "uring_wf r" and get: "ring_get r = Some (m, r')"
  shows "uring_wf r' \<and> uring_list r = m # uring_list r'"
proof -
  have r': "r' = r\<lparr>ur_tail := (ur_tail r + 1) mod 256\<rparr>" and m: "m = ur_buffer r ! ur_tail r"
    and ne: "ur_head r \<noteq> ur_tail r"
    using get by (auto simp: ring_get_def split: if_splits)
  have h: "ur_head r < 256" "ur_tail r < 256" using wf by (simp_all add: uring_wf_def)
  have cnt: "uring_count r = Suc (uring_count r')"
    using ne h by (auto simp: r' uring_count_def mod_256_if split: if_splits)
  have "uring_list r = map (\<lambda>k. ur_buffer r ! ((ur_tail r + k) mod 256)) (0 # map Suc [0..<uring_count r'])"
    by (simp only: uring_list_def cnt upt_conv_Cons zero_less_Suc map_Suc_upt)
  also have "\<dots> = m # uring_list r'"
    using h by (simp add: uring_list_def r' m mod_simps)
  finally show ?thesis using wf by (simp add: uring_wf_def r')
qed

lemma ring_get_None: "uring_wf r \<Longrightarrow> ring_get r = None \<longleftrightarrow> uring_list r = []"
  by (auto simp: uring_wf_def ring_get_def uring_list_def uring_count_def)

interpretation uring: bounded_fifo uring_wf "\<lambda>_. 255" "\<lambda>_ _. True" uring_list ring_put ring_get
proof
  fix q r and x :: u64
  show "uring_wf q \<Longrightarrow> True \<Longrightarrow> ring_put q x = Some r \<Longrightarrow>
      uring_wf r \<and> (255 :: nat) = 255 \<and> (\<lambda>_. True) = (\<lambda>_. True) \<and> uring_list r = uring_list q @ [x]"
    using ring_put_Some by simp
  show "uring_wf q \<Longrightarrow> True \<Longrightarrow> (ring_put q x = None) = (length (uring_list q) = 255)"
    by (simp add: ring_put_None)
  show "uring_wf q \<Longrightarrow> ring_get q = Some (x, r) \<Longrightarrow>
      uring_wf r \<and> (255 :: nat) = 255 \<and> (\<lambda>_. True) = (\<lambda>_. True) \<and> uring_list q = x # uring_list r"
    using ring_get_Some by simp
  show "uring_wf q \<Longrightarrow> (ring_get q = None) = (uring_list q = [])"
    by (rule ring_get_None)
qed

section \<open>Delivery\<close>

text \<open>Every operation of the transport, as one step of its channels.\<close>

inductive urpc_step :: "nat \<Rightarrow> (nat \<Rightarrow> urpc_channel) \<Rightarrow> (nat \<Rightarrow> urpc_channel) \<Rightarrow> bool" for n where
  st_core: "urpc_step n c (snd (urpc_bootstrap_core n c k))"
| st_ready: "urpc_step n c (urpc_mark_ready n c k)"
| st_send: "urpc_step n c (snd (urpc_bootstrap_send n c k m))"
| st_recv: "urpc_step n c (fst (snd (urpc_bootstrap_recv n c k out)))"

inductive_cases urpc_stepE: "urpc_step n c d"

definition rx_empty :: "nat \<Rightarrow> (nat \<Rightarrow> urpc_channel) \<Rightarrow> bool" where
  "rx_empty n c \<longleftrightarrow> (\<forall>k < n. ur_head (uc_rx_ring (c k)) = ur_tail (uc_rx_ring (c k)))"

interpretation urpc: invariant_system "\<lambda>c. \<exists>d. c = snd (urpc_init_global n d)" "urpc_step n" "rx_empty n" for n
proof
  show "\<exists>d. s = snd (urpc_init_global n d) \<Longrightarrow> rx_empty n s" for s
    by (auto simp: urpc_init_global_def rx_empty_def init_ring_def)
  show "rx_empty n s \<Longrightarrow> urpc_step n s t \<Longrightarrow> rx_empty n t" for s t
    by (erule urpc_stepE)
       (auto simp: rx_empty_def urpc_bootstrap_core_def urpc_mark_ready_def urpc_bootstrap_send_def
          urpc_bootstrap_recv_def ring_get_def split: if_splits option.splits)
qed

text \<open>
  The transport as written never delivers: send fills the transmit ring of the target's channel,
  receive drains the receive ring of the source's channel, and no operation fills a receive ring.
\<close>

lemma urpc_never_delivers:
  assumes "(urpc_step n)\<^sup>*\<^sup>* (snd (urpc_init_global n d)) c" and "out \<noteq> None"
  shows "fst (urpc_bootstrap_recv n c k out) = K_ERR_NOT_FOUND"
proof -
  have "rx_empty n c" by (rule urpc.reach_inv [OF _ assms(1)]) blast
  then show ?thesis using assms(2)
    by (auto simp: rx_empty_def urpc_bootstrap_recv_def ring_get_def split: option.splits)
qed

lemma urpc_msg_code_bound: "urpc_msg_code t < 256"
  by (cases t) simp_all

lemma urpc_msg_code_inject: "urpc_msg_code t = urpc_msg_code u \<longleftrightarrow> t = u"
  by (cases t; cases u) simp_all

lemma urpc_unpack_pack:
  "urpc_unpack_msg (urpc_pack_msg t payload) = (urpc_msg_code t, take_bit 56 payload)"
proof -
  have c: "n < 8" if "bit (urpc_msg_code t) n" for n
    using bit_below [of "urpc_msg_code t" 8 n] urpc_msg_code_bound [of t] that by simp
  show ?thesis
    unfolding urpc_unpack_msg_def urpc_pack_msg_def prod.inject mask_folds
    by (intro conjI; rule bit_word_eqI) (auto simp: bit_simps dest: c)
qed

section \<open>Properties\<close>

text \<open>
  C34: Sending to a core whose channel is bound queues the word behind those already in the
  channel's transmit ring, or is refused as busy exactly when 255 words wait there; sending to an
  unbound or unknown core is refused; a refused send changes nothing, and no send touches another
  channel.
\<close>

theorem urpc_send_queues:
  assumes "uring_wf (uc_tx_ring (c k))"
  shows "case urpc_bootstrap_send n c k m of (st, c') \<Rightarrow>
    (if n \<le> k \<or> \<not> uc_is_bound (c k) then st = K_ERR_NOT_FOUND \<and> c' = c
     else if length (uring_list (uc_tx_ring (c k))) = 255 then st = K_ERR_BUSY \<and> c' = c
     else st = K_OK \<and> uring_wf (uc_tx_ring (c' k)) \<and>
          uring_list (uc_tx_ring (c' k)) = uring_list (uc_tx_ring (c k)) @ [m] \<and>
          (\<forall>j. j \<noteq> k \<longrightarrow> c' j = c j))"
proof (cases "ring_put (uc_tx_ring (c k)) m")
  case None
  then show ?thesis using ring_put_None [OF assms] by (simp add: urpc_bootstrap_send_def)
next
  case (Some r)
  then show ?thesis
    using ring_put_None [OF assms, of m] ring_put_Some [OF assms Some] by (simp add: urpc_bootstrap_send_def)
qed

theorem urpc_send_queues_witness:
  "uring_list (uc_tx_ring (snd (urpc_bootstrap_send 2
      (\<lambda>_. \<lparr>uc_tx_ring = init_ring, uc_rx_ring = init_ring, uc_is_bound = True\<rparr>) 1 42) 1)) = [42]"
proof -
  let ?c = "\<lambda>_ :: nat. \<lparr>uc_tx_ring = init_ring, uc_rx_ring = init_ring, uc_is_bound = True\<rparr>"
  have w: "uring_wf (uc_tx_ring (?c 1))" by (simp add: uring_wf_def init_ring_def)
  have e: "uring_list init_ring = []" by (simp add: uring_list_def uring_count_def init_ring_def)
  then have "length (uring_list init_ring) \<noteq> 255" by simp
  then show ?thesis using urpc_send_queues [of ?c 1 2 42, OF w] e
    by (simp add: split_beta del: length_uring_list)
qed

text \<open>
  C35: The message word carries its type and its 56-bit payload unchanged, and two words are
  equal only if both parts are.
\<close>

theorem urpc_word_roundtrip:
  assumes "p < 2 ^ 56" and "q < 2 ^ 56"
  shows "urpc_unpack_msg (urpc_pack_msg t p) = (urpc_msg_code t, p) \<and>
         (urpc_pack_msg t p = urpc_pack_msg u q \<longleftrightarrow> t = u \<and> p = q)"
proof -
  have "take_bit 56 p = p" "take_bit 56 q = q"
    using assms by (metis less_mask_eq take_bit_eq_mask)+
  then have "urpc_unpack_msg (urpc_pack_msg t p) = (urpc_msg_code t, p)"
    "urpc_unpack_msg (urpc_pack_msg u q) = (urpc_msg_code u, q)"
    by (simp_all add: urpc_unpack_pack)
  then show ?thesis using urpc_msg_code_inject by (metis prod.inject)
qed

theorem urpc_word_roundtrip_witness:
  "urpc_unpack_msg (urpc_pack_msg URPC_CAP_REVOKE 77) = (urpc_msg_code URPC_CAP_REVOKE, 77)"
  using urpc_word_roundtrip [of 77 77 URPC_CAP_REVOKE URPC_CAP_REVOKE] by simp

end
