(* ===== verification/Kernel_State.thy ===== *)
theory Kernel_State
  imports Cap_Policy Urpc
begin

text \<open>
  The state the capability and IPC code shares: capability tables by address, the per-core CSpace
  registry and transaction tables, the per-core endpoint pools
  (src/core/kernel/src/ipc/endpoint_ipc.c), the threads as far as IPC waits and wakes them, and the
  uRPC channels. The current core and thread are arguments of the operations. Wait queues are the
  lists of their threads, which the code links through the threads themselves.
\<close>

section \<open>IPC status codes\<close>

definition IPC_OK :: int where [status_simps]: "IPC_OK = 0"
definition IPC_ERR_INVALID :: int where [status_simps]: "IPC_ERR_INVALID = -1"
definition IPC_ERR_NO_SPACE :: int where [status_simps]: "IPC_ERR_NO_SPACE = -2"
definition IPC_ERR_WOULD_BLOCK :: int where [status_simps]: "IPC_ERR_WOULD_BLOCK = -3"
definition IPC_ERR_PERM :: int where [status_simps]: "IPC_ERR_PERM = -4"
definition IPC_ERR_CAP_TRANSFER_NOT_ALLOWED :: int where [status_simps]: "IPC_ERR_CAP_TRANSFER_NOT_ALLOWED = -5"
definition IPC_ERR_CAP_INSTALL_FAILED :: int where [status_simps]: "IPC_ERR_CAP_INSTALL_FAILED = -6"
definition IPC_ERR_CLOSED :: int where [status_simps]: "IPC_ERR_CLOSED = -7"
definition IPC_ERR_TIMEOUT :: int where [status_simps]: "IPC_ERR_TIMEOUT = -8"
definition IPC_ERR_CANCELLED :: int where [status_simps]: "IPC_ERR_CANCELLED = -9"
definition IPC_ERR_REVOKED :: int where [status_simps]: "IPC_ERR_REVOKED = -10"

section \<open>Endpoints\<close>

datatype ipc_endpoint_state =
    IPC_ENDPOINT_STATE_FREE | IPC_ENDPOINT_STATE_READY | IPC_ENDPOINT_STATE_CLOSED
  | IPC_ENDPOINT_STATE_REVOKED | IPC_ENDPOINT_STATE_ALLOCATING | IPC_ENDPOINT_STATE_CLOSING
  | IPC_ENDPOINT_STATE_RECLAIMED

record ipc_message =
  msg_len :: nat
  msg_payload :: "u8 list"
  msg_cap_transfer_id :: u32
  msg_cap_transfer_rights :: u64

record ipc_provenance =
  pv_sender_pid :: u64
  pv_sender_process_object_id :: u64
  pv_sender_cspace_id :: u32
  pv_sender_owner_core :: u32
  pv_delivery_generation :: u64
  pv_cap_type :: cap_type
  pv_cap_rights :: u64
  pv_has_provenance :: bool
  pv_boot_session_id :: u64
  pv_service_incarnation_id :: u64
  pv_reply_cap_to_send :: u32
  pv_reply_cap_send_rights :: u64

record ipc_endpoint =
  ep_in_use :: bool
  ep_state :: ipc_endpoint_state
  ep_generation :: u32
  ep_owner_core :: nat
  ep_send_cap_refs :: u32
  ep_recv_cap_refs :: u32
  ep_active_claims :: u32
  ep_queued_msgs :: u32
  ep_dropped_msgs :: u32
  ep_timeouts :: u32
  ep_msg :: ipc_message
  ep_has_msg :: nat
  ep_cap_transfer_source :: bh_cap_locator
  ep_reply_cap_transfer_id :: u32
  ep_reply_cap_transfer_rights :: u64
  ep_reply_cap_transfer_source :: bh_cap_locator
  ep_provenance :: ipc_provenance
  ep_senders :: "nat list"
  ep_receivers :: "nat list"

text \<open>The all-zero values the code assigns with \<open>{0}\<close>.\<close>

definition zero_locator :: bh_cap_locator where
  "zero_locator = \<lparr>loc_cspace_id = 0, loc_owner_core = 0, loc_slot = 0, loc_generation = 0, loc_revocation_epoch = 0\<rparr>"

definition zero_provenance :: ipc_provenance where
  "zero_provenance = \<lparr>pv_sender_pid = 0, pv_sender_process_object_id = 0, pv_sender_cspace_id = 0,
     pv_sender_owner_core = 0, pv_delivery_generation = 0, pv_cap_type = CAP_TYPE_NONE, pv_cap_rights = 0,
     pv_has_provenance = False, pv_boot_session_id = 0, pv_service_incarnation_id = 0,
     pv_reply_cap_to_send = 0, pv_reply_cap_send_rights = 0\<rparr>"

section \<open>Threads and the kernel state\<close>

record ipc_thread =
  th_blocked :: bool
  th_ipc_wakeup_reason :: int
  th_ipc_deadline_ticks :: u64

abbreviation (input) "IPC_ENDPOINTS_PER_CORE \<equiv> 64 :: nat"
abbreviation (input) "IPC_PAYLOAD_MAX \<equiv> 128 :: nat"

record kstate =
  ks_tables :: "tptr \<Rightarrow> capability_table"
  ks_registry :: "nat \<Rightarrow> nat \<Rightarrow> cap_cspace_registry_entry"
  ks_bootstrap_used :: "nat \<Rightarrow> bool"
  ks_tx :: "nat \<Rightarrow> nat \<Rightarrow> cap_tx_entry"
  ks_endpoints :: "nat \<Rightarrow> nat \<Rightarrow> ipc_endpoint"
  ks_threads :: "nat \<Rightarrow> ipc_thread"
  ks_urpc :: urpc_state
  ks_max_cpus :: nat
  ks_pmm_initialized :: bool
  ks_ticks :: u64

definition upd_table :: "tptr \<Rightarrow> (capability_table \<Rightarrow> capability_table) \<Rightarrow> kstate \<Rightarrow> kstate" where
  "upd_table p f s = s\<lparr>ks_tables := (ks_tables s)(p := f (ks_tables s p))\<rparr>"

definition entry_at :: "kstate \<Rightarrow> tptr \<Rightarrow> nat \<Rightarrow> capability_entry" where
  "entry_at s p i = ct_entries (ks_tables s p) ! i"

definition upd_entry :: "tptr \<Rightarrow> nat \<Rightarrow> (capability_entry \<Rightarrow> capability_entry) \<Rightarrow> kstate \<Rightarrow> kstate" where
  "upd_entry p i f = upd_table p (\<lambda>t. t\<lparr>ct_entries := (ct_entries t)[i := f (ct_entries t ! i)]\<rparr>)"

definition upd_registry ::
    "nat \<Rightarrow> nat \<Rightarrow> (cap_cspace_registry_entry \<Rightarrow> cap_cspace_registry_entry) \<Rightarrow> kstate \<Rightarrow> kstate" where
  "upd_registry core slot f s =
     s\<lparr>ks_registry := (ks_registry s)(core := (ks_registry s core)(slot := f (ks_registry s core slot)))\<rparr>"

definition upd_tx :: "nat \<Rightarrow> nat \<Rightarrow> (cap_tx_entry \<Rightarrow> cap_tx_entry) \<Rightarrow> kstate \<Rightarrow> kstate" where
  "upd_tx core slot f s = s\<lparr>ks_tx := (ks_tx s)(core := (ks_tx s core)(slot := f (ks_tx s core slot)))\<rparr>"

definition upd_endpoint :: "nat \<Rightarrow> nat \<Rightarrow> (ipc_endpoint \<Rightarrow> ipc_endpoint) \<Rightarrow> kstate \<Rightarrow> kstate" where
  "upd_endpoint core slot f s =
     s\<lparr>ks_endpoints := (ks_endpoints s)(core := (ks_endpoints s core)(slot := f (ks_endpoints s core slot)))\<rparr>"

definition upd_thread :: "nat \<Rightarrow> (ipc_thread \<Rightarrow> ipc_thread) \<Rightarrow> kstate \<Rightarrow> kstate" where
  "upd_thread t f s = s\<lparr>ks_threads := (ks_threads s)(t := f (ks_threads s t))\<rparr>"

text \<open>A uRPC send of the capability code; its callers ignore the status except where they use it.\<close>

definition ks_urpc_send :: "nat \<Rightarrow> u64 \<Rightarrow> kstate \<Rightarrow> kstatus \<times> kstate" where
  "ks_urpc_send target msg s =
     (case urpc_bootstrap_send (ks_max_cpus s) (us_channels (ks_urpc s)) target msg of
        (st, ch) \<Rightarrow> (st, s\<lparr>ks_urpc := (ks_urpc s)\<lparr>us_channels := ch\<rparr>\<rparr>))"

section \<open>Frame lemmas\<close>

named_theorems ks_frame \<open>what each update of the kernel state leaves alone\<close>

lemma upd_table_frame [ks_frame, simp]:
  "ks_registry (upd_table p f s) = ks_registry s" "ks_bootstrap_used (upd_table p f s) = ks_bootstrap_used s"
  "ks_tx (upd_table p f s) = ks_tx s" "ks_endpoints (upd_table p f s) = ks_endpoints s"
  "ks_threads (upd_table p f s) = ks_threads s" "ks_urpc (upd_table p f s) = ks_urpc s"
  "ks_max_cpus (upd_table p f s) = ks_max_cpus s" "ks_pmm_initialized (upd_table p f s) = ks_pmm_initialized s"
  "ks_ticks (upd_table p f s) = ks_ticks s"
  by (simp_all add: upd_table_def)

lemma upd_table_tables [simp]:
  "ks_tables (upd_table p f s) q = (if q = p then f (ks_tables s p) else ks_tables s q)"
  by (simp add: upd_table_def)

lemma upd_entry_frame [ks_frame, simp]:
  "ks_registry (upd_entry p i f s) = ks_registry s" "ks_bootstrap_used (upd_entry p i f s) = ks_bootstrap_used s"
  "ks_tx (upd_entry p i f s) = ks_tx s" "ks_endpoints (upd_entry p i f s) = ks_endpoints s"
  "ks_threads (upd_entry p i f s) = ks_threads s" "ks_urpc (upd_entry p i f s) = ks_urpc s"
  "ks_max_cpus (upd_entry p i f s) = ks_max_cpus s" "ks_pmm_initialized (upd_entry p i f s) = ks_pmm_initialized s"
  "ks_ticks (upd_entry p i f s) = ks_ticks s"
  by (simp_all add: upd_entry_def)

lemma upd_registry_frame [ks_frame, simp]:
  "ks_tables (upd_registry c k f s) = ks_tables s" "ks_bootstrap_used (upd_registry c k f s) = ks_bootstrap_used s"
  "ks_tx (upd_registry c k f s) = ks_tx s" "ks_endpoints (upd_registry c k f s) = ks_endpoints s"
  "ks_threads (upd_registry c k f s) = ks_threads s" "ks_urpc (upd_registry c k f s) = ks_urpc s"
  "ks_max_cpus (upd_registry c k f s) = ks_max_cpus s"
  "ks_pmm_initialized (upd_registry c k f s) = ks_pmm_initialized s" "ks_ticks (upd_registry c k f s) = ks_ticks s"
  by (simp_all add: upd_registry_def)

lemma upd_registry_registry [simp]:
  "ks_registry (upd_registry c k f s) d j = (if d = c \<and> j = k then f (ks_registry s c k) else ks_registry s d j)"
  by (simp add: upd_registry_def)

lemma upd_tx_frame [ks_frame, simp]:
  "ks_tables (upd_tx c k f s) = ks_tables s" "ks_registry (upd_tx c k f s) = ks_registry s"
  "ks_bootstrap_used (upd_tx c k f s) = ks_bootstrap_used s" "ks_endpoints (upd_tx c k f s) = ks_endpoints s"
  "ks_threads (upd_tx c k f s) = ks_threads s" "ks_urpc (upd_tx c k f s) = ks_urpc s"
  "ks_max_cpus (upd_tx c k f s) = ks_max_cpus s" "ks_pmm_initialized (upd_tx c k f s) = ks_pmm_initialized s"
  "ks_ticks (upd_tx c k f s) = ks_ticks s"
  by (simp_all add: upd_tx_def)

lemma upd_tx_tx [simp]:
  "ks_tx (upd_tx c k f s) d j = (if d = c \<and> j = k then f (ks_tx s c k) else ks_tx s d j)"
  by (simp add: upd_tx_def)

lemma upd_endpoint_frame [ks_frame, simp]:
  "ks_tables (upd_endpoint c k f s) = ks_tables s" "ks_registry (upd_endpoint c k f s) = ks_registry s"
  "ks_bootstrap_used (upd_endpoint c k f s) = ks_bootstrap_used s" "ks_tx (upd_endpoint c k f s) = ks_tx s"
  "ks_threads (upd_endpoint c k f s) = ks_threads s" "ks_urpc (upd_endpoint c k f s) = ks_urpc s"
  "ks_max_cpus (upd_endpoint c k f s) = ks_max_cpus s"
  "ks_pmm_initialized (upd_endpoint c k f s) = ks_pmm_initialized s" "ks_ticks (upd_endpoint c k f s) = ks_ticks s"
  by (simp_all add: upd_endpoint_def)

lemma upd_endpoint_endpoints [simp]:
  "ks_endpoints (upd_endpoint c k f s) d j = (if d = c \<and> j = k then f (ks_endpoints s c k) else ks_endpoints s d j)"
  by (simp add: upd_endpoint_def)

lemma upd_thread_frame [ks_frame, simp]:
  "ks_tables (upd_thread t f s) = ks_tables s" "ks_registry (upd_thread t f s) = ks_registry s"
  "ks_bootstrap_used (upd_thread t f s) = ks_bootstrap_used s" "ks_tx (upd_thread t f s) = ks_tx s"
  "ks_endpoints (upd_thread t f s) = ks_endpoints s" "ks_urpc (upd_thread t f s) = ks_urpc s"
  "ks_max_cpus (upd_thread t f s) = ks_max_cpus s" "ks_pmm_initialized (upd_thread t f s) = ks_pmm_initialized s"
  "ks_ticks (upd_thread t f s) = ks_ticks s"
  by (simp_all add: upd_thread_def)

lemma upd_thread_threads [simp]:
  "ks_threads (upd_thread t f s) u = (if u = t then f (ks_threads s t) else ks_threads s u)"
  by (simp add: upd_thread_def)

lemma ks_urpc_send_frame [ks_frame, simp]:
  "ks_tables (snd (ks_urpc_send k m s)) = ks_tables s" "ks_registry (snd (ks_urpc_send k m s)) = ks_registry s"
  "ks_bootstrap_used (snd (ks_urpc_send k m s)) = ks_bootstrap_used s" "ks_tx (snd (ks_urpc_send k m s)) = ks_tx s"
  "ks_endpoints (snd (ks_urpc_send k m s)) = ks_endpoints s" "ks_threads (snd (ks_urpc_send k m s)) = ks_threads s"
  "ks_max_cpus (snd (ks_urpc_send k m s)) = ks_max_cpus s"
  "ks_pmm_initialized (snd (ks_urpc_send k m s)) = ks_pmm_initialized s"
  "ks_ticks (snd (ks_urpc_send k m s)) = ks_ticks s"
  by (simp_all add: ks_urpc_send_def split: prod.split)

end
