(* ===== verification/Ipc_Refs.thy ===== *)
theory Ipc_Refs
  imports Kernel_State
begin

text \<open>
  Endpoint references (src/core/kernel/src/ipc/endpoint_ipc.c, first half): the encoding of an
  endpoint in a capability's object reference, the counts of send and receive capabilities, and
  the closing and reclaiming of endpoints. The wait queue operations are those of
  src/core/kernel/src/sched/sched_wait.c. The default build is modelled, with 64 endpoints per core
  and 128 bytes of payload.
\<close>

unbundle bit_operations_syntax

section \<open>References\<close>

definition endpoint_make_ref :: "u32 \<Rightarrow> u32 \<Rightarrow> u32 \<Rightarrow> u64" where
  "endpoint_make_ref owner_core slot generation =
     push_bit 48 (ucast (owner_core AND 0xFFFF)) OR push_bit 16 (ucast generation) OR ucast (slot AND 0xFFFF)"

definition endpoint_unpack_ref :: "u64 \<Rightarrow> u32 \<times> u32 \<times> u32" where
  "endpoint_unpack_ref ref =
     (ucast (drop_bit 48 ref AND 0xFFFF), ucast (ref AND 0xFFFF), ucast (drop_bit 16 ref AND 0xFFFFFFFF))"

definition endpoint_by_ref :: "kstate \<Rightarrow> u64 \<Rightarrow> (nat \<times> nat) option" where
  "endpoint_by_ref s ref =
     (case endpoint_unpack_ref ref of (core, slot, gen) \<Rightarrow>
        if unat core \<ge> MAX_CPUS \<or> unat slot \<ge> IPC_ENDPOINTS_PER_CORE then None
        else let ep = ks_endpoints s (unat core) (unat slot)
             in if \<not> ep_in_use ep then None
                else if ep_generation ep \<noteq> gen then None
                else Some (unat core, unat slot))"

section \<open>Wait queues\<close>

definition sched_wait_queue_enqueue :: "nat list \<Rightarrow> nat \<Rightarrow> nat list" where
  "sched_wait_queue_enqueue queue thread = queue @ [thread]"

text \<open>Threads that are not blocked, such as those a timeout woke, are dropped from the head.\<close>

definition sched_wait_queue_dequeue :: "kstate \<Rightarrow> nat list \<Rightarrow> nat option \<times> nat list" where
  "sched_wait_queue_dequeue s queue =
     (case dropWhile (\<lambda>t. \<not> th_blocked (ks_threads s t)) queue of
        [] \<Rightarrow> (None, [])
      | t # rest \<Rightarrow> (Some t, rest))"

fun ipc_wait_queue_remove :: "nat list \<Rightarrow> nat \<Rightarrow> bool \<times> nat list" where
  "ipc_wait_queue_remove [] target = (False, [])"
| "ipc_wait_queue_remove (t # q) target =
     (if t = target then (True, q)
      else case ipc_wait_queue_remove q target of (found, q') \<Rightarrow> (found, t # q'))"

text \<open>Waking a thread, as far as the wait queues see it.\<close>

definition sched_wakeup :: "nat \<Rightarrow> kstate \<Rightarrow> kstate" where
  "sched_wakeup t = upd_thread t (\<lambda>th. th\<lparr>th_blocked := False\<rparr>)"

definition ipc_set_wakeup :: "int \<Rightarrow> nat \<Rightarrow> kstate \<Rightarrow> kstate" where
  "ipc_set_wakeup reason t = upd_thread t (\<lambda>th. th\<lparr>th_ipc_wakeup_reason := reason, th_ipc_deadline_ticks := 0\<rparr>)"

lemma dequeue_shorter: "sched_wait_queue_dequeue s q = (Some t, q') \<Longrightarrow> length q' < length q"
  using length_dropWhile_le [of "\<lambda>t. \<not> th_blocked (ks_threads s t)" q]
  by (auto simp: sched_wait_queue_dequeue_def split: list.splits)

text \<open>
  The loops that empty a queue: each dequeued thread gets the reason and goes to the front of
  the list of threads to wake.
\<close>

function drain_waiters :: "int \<Rightarrow> nat list \<Rightarrow> nat list \<Rightarrow> kstate \<Rightarrow> nat list \<times> kstate" where
  "drain_waiters reason q wake s =
     (case sched_wait_queue_dequeue s q of
        (None, _) \<Rightarrow> (wake, s)
      | (Some t, q') \<Rightarrow> drain_waiters reason q' (t # wake) (ipc_set_wakeup reason t s))"
  by pat_completeness auto
termination by (relation "measure (\<lambda>(_, q, _, _). length q)") (auto intro: dequeue_shorter [OF sym])

declare drain_waiters.simps [simp del]

definition wake_all :: "nat list \<Rightarrow> kstate \<Rightarrow> kstate" where
  "wake_all ts s = fold sched_wakeup ts s"

section \<open>Reclaiming\<close>

definition ipc_endpoint_clear_msg_locked :: "ipc_endpoint \<Rightarrow> ipc_endpoint" where
  "ipc_endpoint_clear_msg_locked ep =
     ep\<lparr>ep_msg := (ep_msg ep)\<lparr>msg_len := 0, msg_cap_transfer_id := 0, msg_cap_transfer_rights := 0\<rparr>,
        ep_cap_transfer_source := zero_locator, ep_reply_cap_transfer_id := 0,
        ep_reply_cap_transfer_rights := 0, ep_reply_cap_transfer_source := zero_locator,
        ep_provenance := zero_provenance, ep_has_msg := 0\<rparr>"

definition ipc_endpoint_try_reclaim_locked :: "ipc_endpoint \<Rightarrow> ipc_endpoint" where
  "ipc_endpoint_try_reclaim_locked ep =
     (if \<not> ep_in_use ep then ep
      else if ep_state ep \<noteq> IPC_ENDPOINT_STATE_CLOSED \<and> ep_state ep \<noteq> IPC_ENDPOINT_STATE_CLOSING \<and>
              ep_state ep \<noteq> IPC_ENDPOINT_STATE_REVOKED then ep
      else if ep_send_cap_refs ep = 0 \<and> ep_recv_cap_refs ep = 0 \<and> ep_active_claims ep = 0 \<and>
              ep_senders ep = [] \<and> ep_receivers ep = []
      then (ipc_endpoint_clear_msg_locked ep)\<lparr>ep_state := IPC_ENDPOINT_STATE_FREE,
             ep_generation := (if ep_generation ep + 1 = 0 then 1 else ep_generation ep + 1),
             ep_in_use := False\<rparr>
      else ep)"

section \<open>Reference counts\<close>

definition ipc_endpoint_acquire_send_cap :: "u64 \<Rightarrow> kstate \<Rightarrow> int \<times> kstate" where
  "ipc_endpoint_acquire_send_cap ref s =
     (case endpoint_by_ref s ref of None \<Rightarrow> (IPC_ERR_INVALID, s)
      | Some (c, k) \<Rightarrow>
        let ep = ks_endpoints s c k
        in if \<not> ep_in_use ep \<or> ep_state ep \<noteq> IPC_ENDPOINT_STATE_READY then (IPC_ERR_CLOSED, s)
           else (IPC_OK, upd_endpoint c k (\<lambda>ep. ep\<lparr>ep_send_cap_refs := ep_send_cap_refs ep + 1\<rparr>) s))"

definition ipc_endpoint_acquire_recv_cap :: "u64 \<Rightarrow> kstate \<Rightarrow> int \<times> kstate" where
  "ipc_endpoint_acquire_recv_cap ref s =
     (case endpoint_by_ref s ref of None \<Rightarrow> (IPC_ERR_INVALID, s)
      | Some (c, k) \<Rightarrow>
        let ep = ks_endpoints s c k
        in if \<not> ep_in_use ep \<or> ep_state ep \<noteq> IPC_ENDPOINT_STATE_READY then (IPC_ERR_CLOSED, s)
           else (IPC_OK, upd_endpoint c k (\<lambda>ep. ep\<lparr>ep_recv_cap_refs := ep_recv_cap_refs ep + 1\<rparr>) s))"

definition ipc_endpoint_release_send_cap :: "u64 \<Rightarrow> kstate \<Rightarrow> int \<times> kstate" where
  "ipc_endpoint_release_send_cap ref s =
     (case endpoint_by_ref s ref of None \<Rightarrow> (IPC_ERR_INVALID, s)
      | Some (c, k) \<Rightarrow>
        (IPC_OK, upd_endpoint c k (\<lambda>ep.
           let ep1 = (if ep_send_cap_refs ep > 0 then ep\<lparr>ep_send_cap_refs := ep_send_cap_refs ep - 1\<rparr> else ep);
               ep2 = (if ep_send_cap_refs ep1 = 0 \<and> ep_recv_cap_refs ep1 = 0 \<and>
                         ep_state ep1 = IPC_ENDPOINT_STATE_READY
                      then ep1\<lparr>ep_state := IPC_ENDPOINT_STATE_CLOSED\<rparr> else ep1)
           in ipc_endpoint_try_reclaim_locked ep2) s))"

text \<open>
  What the last receive capability and an owner's close do alike: drop a queued message and fail
  every waiter with \<^verbatim>\<open>IPC_ERR_CLOSED\<close>. The result is the list of threads to wake.
\<close>

definition endpoint_fail_waiters :: "nat \<Rightarrow> nat \<Rightarrow> kstate \<Rightarrow> nat list \<times> kstate" where
  "endpoint_fail_waiters c k s =
     (let s1 = upd_endpoint c k (\<lambda>ep. if ep_has_msg ep = 1 then ipc_endpoint_clear_msg_locked ep else ep) s;
          (wake1, s2) = drain_waiters IPC_ERR_CLOSED (ep_senders (ks_endpoints s1 c k)) [] s1;
          (wake2, s3) = drain_waiters IPC_ERR_CLOSED (ep_receivers (ks_endpoints s2 c k)) wake1 s2
      in (wake2, upd_endpoint c k (\<lambda>ep. ep\<lparr>ep_senders := [], ep_receivers := []\<rparr>) s3))"

definition ipc_endpoint_release_recv_cap :: "u64 \<Rightarrow> kstate \<Rightarrow> int \<times> kstate" where
  "ipc_endpoint_release_recv_cap ref s =
     (case endpoint_by_ref s ref of None \<Rightarrow> (IPC_ERR_INVALID, s)
      | Some (c, k) \<Rightarrow>
        let s1 = upd_endpoint c k (\<lambda>ep. if ep_recv_cap_refs ep > 0
                   then ep\<lparr>ep_recv_cap_refs := ep_recv_cap_refs ep - 1\<rparr> else ep) s;
            ep1 = ks_endpoints s1 c k;
            (wake, s2) =
              (if ep_recv_cap_refs ep1 = 0 \<and> ep_state ep1 = IPC_ENDPOINT_STATE_READY
               then endpoint_fail_waiters c k
                      (upd_endpoint c k (\<lambda>ep. ep\<lparr>ep_state := IPC_ENDPOINT_STATE_CLOSED\<rparr>) s1)
               else ([], s1));
            s3 = upd_endpoint c k ipc_endpoint_try_reclaim_locked s2
        in (IPC_OK, wake_all wake s3))"

text \<open>The two hooks of the capability code (cap_internal.h), which ignore the status.\<close>

definition cap_endpoint_ref_acquire :: "cap_type \<Rightarrow> u64 \<Rightarrow> u64 \<Rightarrow> kstate \<Rightarrow> kstate" where
  "cap_endpoint_ref_acquire type object_ref rights s =
     (if type \<noteq> CAP_TYPE_ENDPOINT then s
      else let s1 = (if rights AND CAP_RIGHT_ENDPOINT_SEND \<noteq> 0
                     then snd (ipc_endpoint_acquire_send_cap object_ref s) else s)
           in if rights AND CAP_RIGHT_ENDPOINT_RECEIVE \<noteq> 0
              then snd (ipc_endpoint_acquire_recv_cap object_ref s1) else s1)"

definition cap_endpoint_ref_release :: "cap_type \<Rightarrow> u64 \<Rightarrow> u64 \<Rightarrow> kstate \<Rightarrow> kstate" where
  "cap_endpoint_ref_release type object_ref rights s =
     (if type \<noteq> CAP_TYPE_ENDPOINT then s
      else let s1 = (if rights AND CAP_RIGHT_ENDPOINT_SEND \<noteq> 0
                     then snd (ipc_endpoint_release_send_cap object_ref s) else s)
           in if rights AND CAP_RIGHT_ENDPOINT_RECEIVE \<noteq> 0
              then snd (ipc_endpoint_release_recv_cap object_ref s1) else s1)"

section \<open>Frames\<close>

text \<open>Only endpoints and threads change.\<close>

definition ep_frame :: "kstate \<Rightarrow> kstate \<Rightarrow> bool" where
  "ep_frame s s' \<longleftrightarrow> s' = s\<lparr>ks_endpoints := ks_endpoints s', ks_threads := ks_threads s'\<rparr>"

lemma ep_frame_refl [simp]: "ep_frame s s"
  by (simp add: ep_frame_def)

lemma ep_frame_trans [trans]: "ep_frame s t \<Longrightarrow> ep_frame t u \<Longrightarrow> ep_frame s u"
  unfolding ep_frame_def by (cases s; cases t; cases u) simp

lemma ep_frame_upd [simp]: "ep_frame s (upd_endpoint c k f s)" "ep_frame s (upd_thread t g s)"
  by (simp_all add: ep_frame_def upd_endpoint_def upd_thread_def)

lemma ep_frameD:
  assumes "ep_frame s s'"
  shows "ks_tables s' = ks_tables s" "ks_registry s' = ks_registry s" "ks_bootstrap_used s' = ks_bootstrap_used s"
    "ks_tx s' = ks_tx s" "ks_urpc s' = ks_urpc s" "ks_max_cpus s' = ks_max_cpus s"
    "ks_pmm_initialized s' = ks_pmm_initialized s" "ks_ticks s' = ks_ticks s"
  using assms unfolding ep_frame_def by (cases s; cases s'; simp)+

lemma ep_frame_fold: "(\<And>t s. ep_frame s (f t s)) \<Longrightarrow> ep_frame s (fold f ts s)"
  by (induction ts arbitrary: s) (auto intro: ep_frame_trans)

lemma ep_frame_wakeup [simp]: "ep_frame s (sched_wakeup t s)" "ep_frame s (ipc_set_wakeup r t s)"
  by (simp_all add: sched_wakeup_def ipc_set_wakeup_def)

lemma set_wakeup_blocked [simp]: "th_blocked (ks_threads (ipc_set_wakeup r t s) u) = th_blocked (ks_threads s u)"
  by (simp add: ipc_set_wakeup_def)

lemma dropWhile_filter_not: "dropWhile (\<lambda>x. \<not> P x) xs = [] \<Longrightarrow> filter P xs = []"
  "dropWhile (\<lambda>x. \<not> P x) xs = y # ys \<Longrightarrow> P y \<and> filter P xs = y # filter P ys"
  by (induction xs) (auto split: if_splits)

text \<open>Emptying a queue gives the reason to every blocked thread of it, in queue order.\<close>

lemma drain_waiters_eq:
  "drain_waiters r q w s =
     (rev (filter (\<lambda>t. th_blocked (ks_threads s t)) q) @ w,
      fold (ipc_set_wakeup r) (filter (\<lambda>t. th_blocked (ks_threads s t)) q) s)"
proof (induction r q w s rule: drain_waiters.induct)
  case (1 r q w s)
  show ?case
  proof (cases "dropWhile (\<lambda>t. \<not> th_blocked (ks_threads s t)) q")
    case Nil
    have d: "sched_wait_queue_dequeue s q = (None, [])" unfolding sched_wait_queue_dequeue_def Nil by simp
    show ?thesis using dropWhile_filter_not(1) [OF Nil] by (simp add: drain_waiters.simps [of r q] d)
  next
    case (Cons t q')
    then have d: "sched_wait_queue_dequeue s q = (Some t, q')" by (simp add: sched_wait_queue_dequeue_def)
    show ?thesis
      using 1 [OF d [symmetric] refl] dropWhile_filter_not(2) [OF Cons] by (simp add: drain_waiters.simps [of r q] d)
  qed
qed

lemma fold_set_wakeup_threads:
  "ks_threads (fold (ipc_set_wakeup r) ts s) u =
     (if u \<in> set ts then (ks_threads s u)\<lparr>th_ipc_wakeup_reason := r, th_ipc_deadline_ticks := 0\<rparr> else ks_threads s u)"
  by (induction ts arbitrary: s) (auto simp: ipc_set_wakeup_def)

lemma fold_set_wakeup_blocked [simp]:
  "th_blocked (ks_threads (fold (ipc_set_wakeup r) ts s) u) = th_blocked (ks_threads s u)"
  by (simp add: fold_set_wakeup_threads)

lemma wake_all_threads:
  "ks_threads (wake_all ts s) u = (if u \<in> set ts then (ks_threads s u)\<lparr>th_blocked := False\<rparr> else ks_threads s u)"
  unfolding wake_all_def by (induction ts arbitrary: s) (auto simp: sched_wakeup_def)

lemma fold_wakeup_endpoints [simp]:
  "ks_endpoints (fold (ipc_set_wakeup r) ts s) = ks_endpoints s" "ks_endpoints (wake_all ts s) = ks_endpoints s"
  unfolding wake_all_def by (induction ts arbitrary: s) (simp_all add: ipc_set_wakeup_def sched_wakeup_def)

lemma fail_waiters_frame: "ep_frame s (snd (endpoint_fail_waiters c k s))"
  unfolding endpoint_fail_waiters_def Let_def drain_waiters_eq split_beta prod.sel
  by (intro ep_frame_trans [OF _ ep_frame_upd(1)] ep_frame_trans [OF _ ep_frame_fold]) simp_all

lemma ref_ops_frame:
  "ep_frame s (snd (ipc_endpoint_acquire_send_cap ref s))" "ep_frame s (snd (ipc_endpoint_acquire_recv_cap ref s))"
  "ep_frame s (snd (ipc_endpoint_release_send_cap ref s))" "ep_frame s (snd (ipc_endpoint_release_recv_cap ref s))"
proof -
  show "ep_frame s (snd (ipc_endpoint_acquire_send_cap ref s))" "ep_frame s (snd (ipc_endpoint_acquire_recv_cap ref s))"
    "ep_frame s (snd (ipc_endpoint_release_send_cap ref s))"
    by (auto simp: ipc_endpoint_acquire_send_cap_def ipc_endpoint_acquire_recv_cap_def
        ipc_endpoint_release_send_cap_def Let_def split: option.split prod.split)
  have w: "ep_frame t (wake_all ts t)" for ts t
    unfolding wake_all_def by (rule ep_frame_fold) simp
  show "ep_frame s (snd (ipc_endpoint_release_recv_cap ref s))"
    unfolding ipc_endpoint_release_recv_cap_def Let_def split_beta
    by (auto split: option.split simp: if_distrib [of snd]
        intro!: ep_frame_trans [OF _ w] ep_frame_trans [OF _ ep_frame_upd(1)] ep_frame_trans [OF _ fail_waiters_frame])
qed

lemma cap_endpoint_ref_frame:
  "ep_frame s (cap_endpoint_ref_acquire ty ref r s)" "ep_frame s (cap_endpoint_ref_release ty ref r s)"
  unfolding cap_endpoint_ref_acquire_def cap_endpoint_ref_release_def Let_def
  by (auto intro: ref_ops_frame ep_frame_trans [OF ref_ops_frame(1) ref_ops_frame(2)]
      ep_frame_trans [OF ref_ops_frame(3) ref_ops_frame(4)])

lemmas cap_endpoint_ref_simps [ks_frame, simp] =
  ep_frameD [OF cap_endpoint_ref_frame(1)] ep_frameD [OF cap_endpoint_ref_frame(2)]

section \<open>Properties\<close>

lemma endpoint_unpack_make:
  assumes "core < 0x10000" and "slot < 0x10000"
  shows "endpoint_unpack_ref (endpoint_make_ref core slot gen) = (core, slot, gen)"
proof -
  have c: "n < 16" if "bit core n" for n using bit_below [of core 16 n] assms that by simp
  have s: "n < 16" if "bit slot n" for n using bit_below [of slot 16 n] assms that by simp
  have g: "n < 32" if "bit gen n" for n using bit_imp_le_length [OF that] by simp
  show ?thesis
    unfolding endpoint_unpack_ref_def endpoint_make_ref_def prod.inject mask_folds
    by (intro conjI; rule bit_word_eqI) (auto simp: bit_simps dest: c s g)
qed

lemma endpoint_by_ref_make:
  assumes "core < 32" and "slot < 64"
  shows "endpoint_by_ref s (endpoint_make_ref core slot gen) =
    (let ep = ks_endpoints s (unat core) (unat slot)
     in if ep_in_use ep \<and> ep_generation ep = gen then Some (unat core, unat slot) else None)"
proof -
  have "core < 0x10000" "slot < 0x10000" using assms by unat_arith+
  moreover have "unat core < 32" "unat slot < 64" using assms by (simp_all add: word_less_nat_alt)
  ultimately show ?thesis by (simp add: endpoint_by_ref_def endpoint_unpack_make Let_def)
qed

text \<open>
  C37: An object reference names its endpoint exactly: core, slot and the full 32-bit generation
  survive the packing, and the reference resolves to the endpoint as long as it is in use in that
  generation, and to nothing afterwards.
\<close>

theorem endpoint_ref_roundtrip:
  assumes "core < 32" and "slot < 64"
  shows "endpoint_unpack_ref (endpoint_make_ref core slot gen) = (core, slot, gen) \<and>
    endpoint_by_ref s (endpoint_make_ref core slot gen) =
      (if ep_in_use (ks_endpoints s (unat core) (unat slot)) \<and> ep_generation (ks_endpoints s (unat core) (unat slot)) = gen
       then Some (unat core, unat slot) else None)"
proof -
  have "core < 0x10000" "slot < 0x10000" using assms by unat_arith+
  then show ?thesis using assms by (simp add: endpoint_unpack_make endpoint_by_ref_make Let_def)
qed

theorem endpoint_ref_roundtrip_witness: "endpoint_unpack_ref (endpoint_make_ref 3 9 0xFFFFFFFF) = (3, 9, 0xFFFFFFFF)"
  using endpoint_ref_roundtrip [of 3 9 "0xFFFFFFFF"] by simp

lemma try_reclaim_fields:
  "ep_state ep = IPC_ENDPOINT_STATE_CLOSED \<Longrightarrow> ep_in_use ep \<Longrightarrow> ep_senders ep = [] \<Longrightarrow> ep_receivers ep = [] \<Longrightarrow>
   ep_senders (ipc_endpoint_try_reclaim_locked ep) = [] \<and> ep_receivers (ipc_endpoint_try_reclaim_locked ep) = [] \<and>
   (ep_in_use (ipc_endpoint_try_reclaim_locked ep) \<longleftrightarrow>
      \<not> (ep_send_cap_refs ep = 0 \<and> ep_recv_cap_refs ep = 0 \<and> ep_active_claims ep = 0)) \<and>
   ep_state (ipc_endpoint_try_reclaim_locked ep) =
     (if ep_in_use (ipc_endpoint_try_reclaim_locked ep) then IPC_ENDPOINT_STATE_CLOSED else IPC_ENDPOINT_STATE_FREE)"
  by (simp add: ipc_endpoint_try_reclaim_locked_def ipc_endpoint_clear_msg_locked_def)

lemma endpoint_by_ref_in_use: "endpoint_by_ref s ref = Some (c, k) \<Longrightarrow> ep_in_use (ks_endpoints s c k)"
  by (auto simp: endpoint_by_ref_def Let_def split: prod.splits if_splits)


text \<open>A concrete state: every endpoint is a ready one with one capability of each kind.\<close>

definition sample_endpoint :: ipc_endpoint where
  "sample_endpoint = \<lparr>ep_in_use = True, ep_state = IPC_ENDPOINT_STATE_READY, ep_generation = 1, ep_owner_core = 0,
     ep_send_cap_refs = 1, ep_recv_cap_refs = 1, ep_active_claims = 0, ep_queued_msgs = 0, ep_dropped_msgs = 0,
     ep_timeouts = 0, ep_msg = \<lparr>msg_len = 0, msg_payload = replicate 128 0, msg_cap_transfer_id = 0,
     msg_cap_transfer_rights = 0\<rparr>, ep_has_msg = 0, ep_cap_transfer_source = zero_locator,
     ep_reply_cap_transfer_id = 0, ep_reply_cap_transfer_rights = 0, ep_reply_cap_transfer_source = zero_locator,
     ep_provenance = zero_provenance, ep_senders = [5], ep_receivers = []\<rparr>"

definition sample_state :: kstate where
  "sample_state = \<lparr>ks_tables = \<lambda>_. \<lparr>ct_entries = [], ct_id_allocator = \<lparr>ida_capacity = 64, ida_next_hint = 0,
     ida_allocated_count = 0, ida_bitmap = replicate 8 0\<rparr>, ct_cspace_id = 0, ct_owner_core = 0,
     ct_registry_slot = 0, ct_owner_pid = 0, ct_numa_node = 0\<rparr>,
     ks_registry = \<lambda>_ _. \<lparr>re_table = None, re_generation = 0, re_uses_bootstrap_storage = False, re_reserved = False\<rparr>,
     ks_bootstrap_used = \<lambda>_. False,
     ks_tx = \<lambda>_ _. \<lparr>tx_state = BH_CAP_TX_FREE, tx_generation = 0, tx_op = 0, tx_src = cap_locator_null,
       tx_dst = cap_locator_null, tx_target = cap_locator_null, tx_revocation_epoch = 0, tx_type = CAP_TYPE_NONE,
       tx_requested_rights = 0, tx_object_ref = 0, tx_flags = 0, tx_owner_core = 0,
       tx_instance_id = \<lparr>ci_origin_core = 0, ci_object_id = 0, ci_slot_gen = 0, ci_rights_digest = 0\<rparr>,
       tx_src_first_child = cap_locator_null, tx_target_mask = 0, tx_ack_mask = 0, tx_result = 0,
       tx_remote_cap_id = 0, tx_remote_dst_slot = 0, tx_remote_dst_gen = 0\<rparr>,
     ks_endpoints = \<lambda>_ _. sample_endpoint,
     ks_threads = \<lambda>_. \<lparr>th_blocked = True, th_ipc_wakeup_reason = 0, th_ipc_deadline_ticks = 0\<rparr>,
     ks_urpc = \<lparr>us_channels = \<lambda>_. \<lparr>uc_tx_ring = init_ring, uc_rx_ring = init_ring, uc_is_bound = True\<rparr>,
       us_states = \<lambda>_. URPC_CHANNEL_BOUND\<rparr>,
     ks_max_cpus = 64, ks_pmm_initialized = True, ks_ticks = 0\<rparr>"


text \<open>
  A capability for an endpoint that is no longer ready is granted without a reference, because the
  hook ignores the refusal, but its removal still gives one back: the count then is one less than
  the capabilities that are left.
\<close>

lemma endpoint_closed_undercount:
  assumes "endpoint_by_ref s ref = Some (c, k)" and "ep_state (ks_endpoints s c k) = IPC_ENDPOINT_STATE_CLOSED"
    and "ep_send_cap_refs (ks_endpoints s c k) = 2"
  shows "ep_send_cap_refs (ks_endpoints
      (cap_endpoint_ref_release CAP_TYPE_ENDPOINT ref CAP_RIGHT_ENDPOINT_SEND
        (cap_endpoint_ref_acquire CAP_TYPE_ENDPOINT ref CAP_RIGHT_ENDPOINT_SEND s)) c k) = 1"
proof -
  have r: "CAP_RIGHT_ENDPOINT_SEND AND CAP_RIGHT_ENDPOINT_RECEIVE = 0" "CAP_RIGHT_ENDPOINT_SEND \<noteq> 0"
    by (simp_all add: rights_simps)
  have "cap_endpoint_ref_acquire CAP_TYPE_ENDPOINT ref CAP_RIGHT_ENDPOINT_SEND s = s"
    using assms r by (simp add: cap_endpoint_ref_acquire_def ipc_endpoint_acquire_send_cap_def)
  then show ?thesis
    using assms r
    by (simp add: cap_endpoint_ref_release_def ipc_endpoint_release_send_cap_def ipc_endpoint_try_reclaim_locked_def Let_def)
qed

end
