(* ===== verification/Cap_Cspace.thy ===== *)
theory Cap_Cspace
  imports Ipc_Refs
begin

text \<open>
  Capability spaces (src/core/kernel/src/cap/cap_cspace.c): transaction slots, creation and
  destruction of capability tables, granting, lookup, delegation within a core and across cores,
  and the capture and installation of capabilities that travel in messages. Tables are reached
  through their addresses, so that source and destination of a delegation may be one table. The
  locks are held for whole operations and do not appear.
\<close>

unbundle bit_operations_syntax

section \<open>Resolving locators\<close>

definition cap_locator_resolve_table :: "kstate \<Rightarrow> bh_cap_locator \<Rightarrow> tptr option" where
  "cap_locator_resolve_table s l =
     (if cap_locator_is_null l \<or> unat (loc_owner_core l) \<ge> MAX_CPUS then None
      else let encoded_slot = unat (loc_cspace_id l AND 0x7F)
      in if encoded_slot = 0 \<or> encoded_slot > CSPACES_PER_CORE then None
      else let slot = encoded_slot - 1
      in case re_table (ks_registry s (unat (loc_owner_core l)) slot) of
           None \<Rightarrow> None
         | Some p \<Rightarrow>
           let t = ks_tables s p
           in if ct_cspace_id t \<noteq> loc_cspace_id l \<or> ct_owner_core t \<noteq> loc_owner_core l \<or>
                 unat (ct_registry_slot t) \<noteq> slot then None
              else Some p)"

section \<open>Transaction slots\<close>

definition zero_instance_id :: cap_instance_id where
  "zero_instance_id = \<lparr>ci_origin_core = 0, ci_object_id = 0, ci_slot_gen = 0, ci_rights_digest = 0\<rparr>"

definition cap_tx_reset :: "nat \<Rightarrow> u32 \<Rightarrow> cap_tx_entry \<Rightarrow> cap_tx_entry" where
  "cap_tx_reset origin_core op tx =
     \<lparr>tx_state = BH_CAP_TX_PREPARED,
      tx_generation = (if tx_generation tx + 1 = 0 then 1 else tx_generation tx + 1),
      tx_op = op, tx_src = cap_locator_null, tx_dst = cap_locator_null, tx_target = cap_locator_null,
      tx_revocation_epoch = 0, tx_type = CAP_TYPE_NONE, tx_requested_rights = 0, tx_object_ref = 0,
      tx_flags = 0, tx_owner_core = of_nat origin_core, tx_instance_id = zero_instance_id,
      tx_src_first_child = cap_locator_null, tx_target_mask = 0, tx_ack_mask = 0, tx_result = 0,
      tx_remote_cap_id = 0, tx_remote_dst_slot = - 1, tx_remote_dst_gen = 0\<rparr>"

definition cap_tx_alloc :: "nat \<Rightarrow> u32 \<Rightarrow> kstate \<Rightarrow> nat option \<times> kstate" where
  "cap_tx_alloc origin_core op s =
     (if origin_core \<ge> MAX_CPUS then (None, s)
      else case find (\<lambda>i. let st = tx_state (ks_tx s origin_core i)
                          in st = BH_CAP_TX_FREE \<or> st = BH_CAP_TX_COMMITTED \<or> st = BH_CAP_TX_ABORTED)
                  [0..<CAP_TX_PER_CORE] of
             None \<Rightarrow> (None, s)
           | Some i \<Rightarrow> (Some i, upd_tx origin_core i (cap_tx_reset origin_core op) s))"

definition cap_tx_set_state :: "nat \<Rightarrow> nat \<Rightarrow> cap_tx_state \<Rightarrow> kstate \<Rightarrow> kstate" where
  "cap_tx_set_state core slot st = upd_tx core slot (\<lambda>tx. tx\<lparr>tx_state := st\<rparr>)"

definition cap_tx_release :: "nat \<Rightarrow> nat \<Rightarrow> kstate \<Rightarrow> kstate" where
  "cap_tx_release origin_core slot s =
     (if origin_core \<ge> MAX_CPUS \<or> slot \<ge> CAP_TX_PER_CORE then s
      else cap_tx_set_state origin_core slot BH_CAP_TX_FREE s)"

section \<open>Tables\<close>

text \<open>The scan for an entry by its number, which every operation starts with.\<close>

definition cap_slot_of_id :: "capability_table \<Rightarrow> u32 \<Rightarrow> nat option" where
  "cap_slot_of_id t idn = find (\<lambda>i. ce_in_use (ct_entries t ! i) \<and> ce_id (ct_entries t ! i) = idn) [0..<CAP_ENTRIES]"

definition cap_find_entry :: "kstate \<Rightarrow> tptr option \<Rightarrow> u32 \<Rightarrow> nat option" where
  "cap_find_entry s table cap_id =
     (case table of None \<Rightarrow> None
      | Some p \<Rightarrow> if cap_id = 0 then None else cap_slot_of_id (ks_tables s p) cap_id)"

definition zero_entry :: capability_entry where
  "zero_entry = \<lparr>ce_in_use = False, ce_state = CAP_STATE_FREE, ce_id = 0, ce_type = CAP_TYPE_NONE, ce_rights = 0,
     ce_flags = 0, ce_object_ref = 0, ce_parent = cap_locator_null, ce_first_child = cap_locator_null,
     ce_next_sibling = cap_locator_null, ce_generation = 0, ce_owner_core = 0, ce_active_pins = 0,
     ce_scope_id = 0, ce_instance_id = zero_instance_id, ce_revocation_epoch = 0\<rparr>"

definition fresh_id_allocator :: bh_id_allocator where
  "fresh_id_allocator =
     the (snd (bh_id_allocator_init (Some \<lparr>ida_capacity = 0, ida_next_hint = 0, ida_allocated_count = 0, ida_bitmap = []\<rparr>)
                 (Some (replicate 8 0)) CAP_ENTRIES))"

definition fresh_table :: "nat \<Rightarrow> nat \<Rightarrow> u32 \<Rightarrow> capability_table" where
  "fresh_table owner_core slot generation =
     \<lparr>ct_entries = replicate CAP_ENTRIES zero_entry, ct_id_allocator = fresh_id_allocator,
      ct_cspace_id = cap_cspace_id_make (of_nat owner_core) (of_nat slot) generation,
      ct_owner_core = of_nat owner_core, ct_registry_slot = of_nat slot, ct_owner_pid = 0, ct_numa_node = 0\<rparr>"

text \<open>
  \<open>cpu\<close> is \<^verbatim>\<open>hal_cpu_get_id()\<close> and \<open>block\<close> what \<^verbatim>\<open>kmalloc\<close> returns. The generation of a registry
  slot stays below \<^verbatim>\<open>BH_CAP_CSPACE_GENERATION_MAX\<close>, which is \<open>2 ^ 20 - 1\<close>.
\<close>

definition cap_table_create :: "nat \<Rightarrow> nat option \<Rightarrow> kstate \<Rightarrow> tptr option \<times> kstate" where
  "cap_table_create cpu block s =
     (if cpu \<ge> MAX_CPUS then (None, s)
      else case find (\<lambda>i. let r = ks_registry s cpu i
                          in re_table r = None \<and> \<not> re_reserved r \<and> re_generation r < 0xFFFFF) [0..<CSPACES_PER_CORE] of
        None \<Rightarrow> (None, s)
      | Some slot \<Rightarrow>
        let s1 = upd_registry cpu slot (\<lambda>r. r\<lparr>re_reserved := True, re_generation := re_generation r + 1\<rparr>) s;
            generation = re_generation (ks_registry s1 cpu slot);
            (table, bootstrap, s2) =
              (case block of
                 Some b \<Rightarrow> (Some (Heap_Table b), False, s1)
               | None \<Rightarrow> if \<not> ks_bootstrap_used s1 cpu
                          then (Some (Bootstrap_Table cpu), True, s1\<lparr>ks_bootstrap_used := (ks_bootstrap_used s1)(cpu := True)\<rparr>)
                          else (None, False, s1))
        in case table of
             None \<Rightarrow> (None, upd_registry cpu slot (\<lambda>r. r\<lparr>re_reserved := False\<rparr>) s2)
           | Some p \<Rightarrow>
             let s3 = upd_table p (\<lambda>_. fresh_table cpu slot generation) s2
             in (Some p, upd_registry cpu slot (\<lambda>r. r\<lparr>re_uses_bootstrap_storage := bootstrap, re_table := Some p,
                                                     re_reserved := False\<rparr>) s3))"

text \<open>The process is its number and its table, which the call sets.\<close>

definition cap_table_init_for_process ::
    "nat \<Rightarrow> nat option \<Rightarrow> (u64 \<times> tptr option) option \<Rightarrow> kstate \<Rightarrow> int \<times> (u64 \<times> tptr option) option \<times> kstate" where
  "cap_table_init_for_process cpu block proc s =
     (case proc of None \<Rightarrow> (-1, None, s)
      | Some (pid, ctx) \<Rightarrow>
        (case cap_table_create cpu block s of
           (None, s1) \<Rightarrow> (-2, proc, s1)
         | (Some p, s1) \<Rightarrow> (0, Some (pid, Some p), upd_table p (\<lambda>t. t\<lparr>ct_owner_pid := pid\<rparr>) s1)))"

definition cap_destroy_entry :: "tptr \<Rightarrow> nat \<Rightarrow> kstate \<Rightarrow> kstate" where
  "cap_destroy_entry p i s =
     (let e = entry_at s p i
      in if ce_in_use e \<and> ce_state e = CAP_STATE_LIVE
         then upd_entry p i (\<lambda>e. e\<lparr>ce_state := CAP_STATE_FREE, ce_in_use := False\<rparr>)
                (cap_endpoint_ref_release (ce_type e) (ce_object_ref e) (ce_rights e) s)
         else s)"

definition cap_table_destroy :: "nat \<Rightarrow> tptr option \<Rightarrow> kstate \<Rightarrow> kstate" where
  "cap_table_destroy cpu table s =
     (case table of None \<Rightarrow> s
      | Some p \<Rightarrow>
        let owner_core = unat (ct_owner_core (ks_tables s p));
            slot = unat (ct_registry_slot (ks_tables s p))
        in if owner_core \<ge> MAX_CPUS \<or> slot \<ge> CSPACES_PER_CORE then s
           else if owner_core \<noteq> cpu then s
           else if re_table (ks_registry s owner_core slot) \<noteq> Some p then s
           else let bootstrap = re_uses_bootstrap_storage (ks_registry s owner_core slot);
                    s1 = upd_registry owner_core slot (\<lambda>r. r\<lparr>re_table := None\<rparr>) s;
                    s2 = (if bootstrap
                          then upd_registry owner_core slot (\<lambda>r. r\<lparr>re_uses_bootstrap_storage := False\<rparr>)
                                 (s1\<lparr>ks_bootstrap_used := (ks_bootstrap_used s1)(owner_core := False)\<rparr>)
                          else s1)
                in fold (cap_destroy_entry p) [0..<CAP_ENTRIES] s2)"

text \<open>Taking a slot from the table's identifier allocator.\<close>

definition cap_alloc_slot :: "tptr \<Rightarrow> kstate \<Rightarrow> nat option \<times> kstate" where
  "cap_alloc_slot p s =
     (case bh_id_allocator_alloc (Some (ct_id_allocator (ks_tables s p))) (Some 0) of
        (st, a, out) \<Rightarrow>
          if st = K_OK then (out, upd_table p (\<lambda>t. t\<lparr>ct_id_allocator := the a\<rparr>) s) else (None, s))"

definition cap_grant_entry ::
    "nat \<Rightarrow> nat \<Rightarrow> cap_type \<Rightarrow> u64 \<Rightarrow> u64 \<Rightarrow> capability_entry \<Rightarrow> capability_entry" where
  "cap_grant_entry cpu slot type object_ref rights e =
     e\<lparr>ce_id := of_nat slot + 1, ce_state := CAP_STATE_LIVE, ce_type := type, ce_rights := rights,
       ce_object_ref := object_ref, ce_flags := 0, ce_active_pins := 0, ce_scope_id := 0,
       ce_parent := cap_locator_null, ce_first_child := cap_locator_null, ce_next_sibling := cap_locator_null,
       ce_generation := ce_generation e + 1, ce_owner_core := of_nat cpu,
       ce_instance_id := \<lparr>ci_origin_core = of_nat cpu, ci_object_id = object_ref,
                          ci_slot_gen = ce_generation e + 1, ci_rights_digest = rights\<rparr>,
       ce_revocation_epoch := 0, ce_in_use := True\<rparr>"

definition cap_table_grant ::
    "nat \<Rightarrow> tptr option \<Rightarrow> cap_type \<Rightarrow> u64 \<Rightarrow> u64 \<Rightarrow> u32 option \<Rightarrow> kstate \<Rightarrow> int \<times> kstate \<times> u32 option" where
  "cap_table_grant cpu table type object_ref rights out_cap_id s =
     (case table of None \<Rightarrow> (-1, s, out_cap_id)
      | Some p \<Rightarrow>
        if type = CAP_TYPE_NONE then (-1, s, out_cap_id)
        else if \<not> cap_rights_valid type rights \<or> rights = CAP_RIGHT_NONE then (-3, s, out_cap_id)
        else case cap_alloc_slot p s of
               (None, s1) \<Rightarrow> (-2, s1, out_cap_id)
             | (Some i, s1) \<Rightarrow>
               let s2 = upd_entry p i (cap_grant_entry cpu i type object_ref rights) s1;
                   e = entry_at s2 p i
               in (0, cap_endpoint_ref_acquire type object_ref rights s2,
                   map_option (\<lambda>_. cap_handle_of (ce_id e) (ce_generation e)) out_cap_id))"

definition cap_table_lookup ::
    "kstate \<Rightarrow> tptr option \<Rightarrow> u32 \<Rightarrow> cap_type \<Rightarrow> u64 \<Rightarrow> int \<times> capability_entry option" where
  "cap_table_lookup s table cap_id required_type required_rights =
     (case table of None \<Rightarrow> (-1, None)
      | Some p \<Rightarrow>
        if cap_id = 0 then (-1, None)
        else case cap_slot_of_id (ks_tables s p) (bh_cap_index cap_id) of
               None \<Rightarrow> (-4, None)
             | Some i \<Rightarrow>
               let e = entry_at s p i
               in if \<not> bh_cap_generation_matches (ce_generation e) (bh_cap_generation cap_id) then (-6, None)
                  else if ce_state e \<noteq> CAP_STATE_LIVE then (-7, None)
                  else if required_type \<noteq> CAP_TYPE_NONE \<and> ce_type e \<noteq> required_type then (-2, None)
                  else if ce_rights e AND required_rights \<noteq> required_rights then (-3, None)
                  else (0, Some e))"

section \<open>Delegation\<close>

text \<open>The source of a delegation: the live entry the handle names.\<close>

definition cap_delegate_source :: "capability_table \<Rightarrow> u32 \<Rightarrow> nat option" where
  "cap_delegate_source t cap_id =
     (case cap_slot_of_id t (bh_cap_index cap_id) of
        None \<Rightarrow> None
      | Some i \<Rightarrow>
        if \<not> bh_cap_generation_matches (ce_generation (ct_entries t ! i)) (bh_cap_generation cap_id) then None
        else if ce_state (ct_entries t ! i) \<noteq> CAP_STATE_LIVE then None
        else Some i)"

definition locator_expects :: "bh_cap_locator option \<Rightarrow> nat \<Rightarrow> capability_entry \<Rightarrow> bool" where
  "locator_expects expected slot e \<longleftrightarrow>
     (case expected of None \<Rightarrow> True
      | Some l \<Rightarrow> slot = unat (loc_slot l) \<and> ce_generation e = loc_generation l \<and>
                   ce_revocation_epoch e = ucast (loc_revocation_epoch l))"

definition cap_child_entry ::
    "capability_table \<Rightarrow> nat \<Rightarrow> capability_entry \<Rightarrow> u64 \<Rightarrow> nat \<Rightarrow> capability_entry \<Rightarrow> capability_entry" where
  "cap_child_entry src src_slot src_entry delegated_rights dst_slot e =
     e\<lparr>ce_id := of_nat dst_slot + 1, ce_state := CAP_STATE_LIVE, ce_type := ce_type src_entry,
       ce_rights := delegated_rights, ce_object_ref := ce_object_ref src_entry, ce_flags := ce_flags src_entry,
       ce_active_pins := 0, ce_scope_id := ce_scope_id src_entry,
       ce_parent := cap_locator_make (Some src) src_slot (ce_generation src_entry) (ucast (ce_revocation_epoch src_entry)),
       ce_first_child := cap_locator_null, ce_next_sibling := ce_first_child src_entry,
       ce_generation := ce_generation e + 1, ce_owner_core := ce_owner_core src_entry,
       ce_instance_id := (ce_instance_id src_entry)\<lparr>ci_rights_digest := delegated_rights, ci_slot_gen := ce_generation e + 1\<rparr>,
       ce_revocation_epoch := ce_revocation_epoch src_entry, ce_in_use := True\<rparr>"

text \<open>
  Within a core. The slot the allocator hands out is that of no entry in use, so the source entry
  is not among what the assignments to the new entry overwrite (\<open>cap_alloc_not_in_use\<close> in Cap_Space_Inv).
\<close>

definition cap_table_delegate_local ::
    "tptr \<Rightarrow> tptr \<Rightarrow> u32 \<Rightarrow> u64 \<Rightarrow> u32 option \<Rightarrow> bh_cap_locator option \<Rightarrow> kstate \<Rightarrow> int \<times> kstate \<times> u32 option" where
  "cap_table_delegate_local src dst cap_id delegated_rights out expected s =
     (case cap_delegate_source (ks_tables s src) cap_id of
        None \<Rightarrow> (-51, s, out)
      | Some i \<Rightarrow>
        let e = entry_at s src i
        in if \<not> locator_expects expected i e then (-51, s, out)
           else if ce_rights e AND CAP_RIGHT_DELEGATE = 0 then (-52, s, out)
           else if ce_rights e AND delegated_rights \<noteq> delegated_rights then (-53, s, out)
           else if \<not> cap_rights_valid (ce_type e) delegated_rights then (-54, s, out)
           else if delegated_rights = CAP_RIGHT_NONE then (-55, s, out)
           else case cap_alloc_slot dst s of
                  (None, s1) \<Rightarrow> (-2, s1, out)
                | (Some j, s1) \<Rightarrow>
                  let s2 = upd_entry dst j (cap_child_entry (ks_tables s1 src) i e delegated_rights j) s1;
                      d = entry_at s2 dst j;
                      s3 = upd_entry src i (\<lambda>e. e\<lparr>ce_first_child := cap_locator_make (Some (ks_tables s2 dst)) j
                             (ce_generation d) (ucast (ce_revocation_epoch d))\<rparr>) s2
                  in (0, cap_endpoint_ref_acquire (ce_type e) (ce_object_ref e) delegated_rights s3,
                      map_option (\<lambda>_. cap_handle_of (ce_id d) (ce_generation d)) out))"

definition cap_destination_registered :: "kstate \<Rightarrow> tptr \<Rightarrow> bool" where
  "cap_destination_registered s dst \<longleftrightarrow>
     (let t = ks_tables s dst; core = unat (ct_owner_core t); slot = unat (ct_registry_slot t)
      in core < MAX_CPUS \<and> slot < CSPACES_PER_CORE \<and> re_table (ks_registry s core slot) = Some dst \<and> ct_cspace_id t \<noteq> 0)"

text \<open>
  Across cores, up to the request: the source is checked, a transaction is filled in and
  published, and the request is sent. The result is a status, or the source slot and the
  transaction slot with which the operation waits.
\<close>

definition cap_table_delegate_begin ::
    "nat \<Rightarrow> tptr \<Rightarrow> tptr \<Rightarrow> u32 \<Rightarrow> u64 \<Rightarrow> kstate \<Rightarrow> (int + nat \<times> nat) \<times> kstate" where
  "cap_table_delegate_begin cpu src dst cap_id delegated_rights s =
     (let target_core = unat (ct_owner_core (ks_tables s dst))
      in if urpc_channel_get_state (ks_max_cpus s) (ks_urpc s) target_core \<noteq> URPC_CHANNEL_BOUND then (Inl (-6), s)
      else case cap_delegate_source (ks_tables s src) cap_id of
        None \<Rightarrow> (Inl (-5), s)
      | Some i \<Rightarrow>
        let e = entry_at s src i
        in if ce_rights e AND CAP_RIGHT_DELEGATE = 0 \<or> ce_rights e AND delegated_rights \<noteq> delegated_rights \<or>
              \<not> cap_rights_valid (ce_type e) delegated_rights \<or> delegated_rights = CAP_RIGHT_NONE
           then (Inl (-5), s)
           else case cap_tx_alloc cpu BH_CAP_TX_OP_DELEGATE s of
                  (None, s1) \<Rightarrow> (Inl (-6), s1)
                | (Some k, s1) \<Rightarrow>
                  let s2 = upd_tx cpu k (\<lambda>tx. tx\<lparr>
                        tx_src := cap_locator_make (Some (ks_tables s1 src)) i (ce_generation e) (ucast (ce_revocation_epoch e)),
                        tx_dst := cap_locator_make (Some (ks_tables s1 dst)) 0 0 0,
                        tx_type := ce_type e, tx_requested_rights := delegated_rights,
                        tx_object_ref := ce_object_ref e, tx_flags := ce_flags e, tx_owner_core := ce_owner_core e,
                        tx_instance_id := (ce_instance_id e)\<lparr>ci_rights_digest := delegated_rights\<rparr>,
                        tx_revocation_epoch := ce_revocation_epoch e, tx_src_first_child := ce_first_child e,
                        tx_target_mask := push_bit target_core 1, tx_ack_mask := 0, tx_result := 0,
                        tx_remote_cap_id := 0, tx_remote_dst_slot := - 1, tx_remote_dst_gen := 0,
                        tx_state := BH_CAP_TX_PUBLISHED\<rparr>) s1;
                      req = cap_tx_pack_req (of_nat cpu) (of_nat k) (tx_generation (ks_tx s2 cpu k)) (ucast BH_CAP_TX_OP_DELEGATE)
                  in case ks_urpc_send target_core (urpc_pack_msg URPC_CAP_DELEGATE_REQ req) s2 of
                       (st, s3) \<Rightarrow>
                         if st \<noteq> K_OK
                         then (Inl (-6), cap_tx_release cpu k (cap_tx_set_state cpu k BH_CAP_TX_ABORTED s3))
                         else (Inr (i, k), s3))"

definition cap_tx_acked :: "kstate \<Rightarrow> nat \<Rightarrow> nat \<Rightarrow> bool" where
  "cap_tx_acked s core slot \<longleftrightarrow>
     tx_ack_mask (ks_tx s core slot) AND tx_target_mask (ks_tx s core slot) = tx_target_mask (ks_tx s core slot)"

definition cap_send_rollback :: "nat \<Rightarrow> nat \<Rightarrow> nat \<Rightarrow> kstate \<Rightarrow> kstate" where
  "cap_send_rollback cpu target_core k s =
     snd (ks_urpc_send target_core
            (urpc_pack_msg URPC_CAP_REVOKE
               (cap_tx_pack_req (of_nat cpu) (of_nat k) (tx_generation (ks_tx s cpu k)) (ucast BH_CAP_TX_OP_ROLLBACK))) s)"

text \<open>
  After the wait: a wait that ends without the acknowledgement has run into its deadline. The
  source is looked at again, since it may have changed while the operation waited.
\<close>

definition cap_table_delegate_finish ::
    "nat \<Rightarrow> tptr \<Rightarrow> tptr \<Rightarrow> u32 \<Rightarrow> nat \<Rightarrow> nat \<Rightarrow> u32 option \<Rightarrow> kstate \<Rightarrow> int \<times> kstate \<times> u32 option" where
  "cap_table_delegate_finish cpu src dst cap_id i k out s =
     (let target_core = unat (ct_owner_core (ks_tables s dst)); tx = ks_tx s cpu k
      in if \<not> cap_tx_acked s cpu k
         then (K_ERR_TIMEOUT,
               cap_tx_release cpu k (cap_send_rollback cpu target_core k (cap_tx_set_state cpu k BH_CAP_TX_ABORTED s)), out)
         else if tx_result tx \<noteq> 0
         then (tx_result tx, cap_tx_release cpu k (cap_tx_set_state cpu k BH_CAP_TX_ABORTED s), out)
         else let e = entry_at s src i
              in if ce_in_use e \<and> ce_id e = bh_cap_index cap_id \<and> ce_generation e = loc_generation (tx_src tx) \<and>
                    ce_state e = CAP_STATE_LIVE
                 then (0, cap_tx_release cpu k (cap_tx_set_state cpu k BH_CAP_TX_COMMITTED
                            (upd_entry src i (\<lambda>e. e\<lparr>ce_first_child := cap_locator_make (Some (ks_tables s dst))
                               (unat (tx_remote_dst_slot tx)) (tx_remote_dst_gen tx) (ucast (tx_revocation_epoch tx))\<rparr>) s)),
                       map_option (\<lambda>_. cap_handle_of (tx_remote_cap_id tx) (tx_remote_dst_gen tx)) out)
                 else (-7, cap_tx_release cpu k
                             (cap_send_rollback cpu target_core k (cap_tx_set_state cpu k BH_CAP_TX_ABORTED s)), out))"

text \<open>\<open>wait\<close> is what the other cores and interrupts do to the state while the operation waits.\<close>

definition cap_table_delegate ::
    "(kstate \<Rightarrow> kstate) \<Rightarrow> nat \<Rightarrow> tptr option \<Rightarrow> tptr option \<Rightarrow> u32 \<Rightarrow> u64 \<Rightarrow> u32 option \<Rightarrow> kstate \<Rightarrow> int \<times> kstate \<times> u32 option" where
  "cap_table_delegate wait cpu src dst cap_id delegated_rights out s =
     (case (src, dst) of
        (Some sp, Some dp) \<Rightarrow>
          if cap_id = 0 then (-1, s, out)
          else if \<not> cap_destination_registered s dp then (-6, s, out)
          else if unat (ct_owner_core (ks_tables s dp)) = cpu
          then cap_table_delegate_local sp dp cap_id delegated_rights out None s
          else (case cap_table_delegate_begin cpu sp dp cap_id delegated_rights s of
                  (Inl st, s1) \<Rightarrow> (st, s1, out)
                | (Inr (i, k), s1) \<Rightarrow>
                  cap_table_delegate_finish cpu sp dp cap_id i k out (if cap_tx_acked s1 cpu k then s1 else wait s1))
      | _ \<Rightarrow> (-1, s, out))"

section \<open>Transfer in messages\<close>

definition bh_cap_transfer_capture ::
    "nat \<Rightarrow> tptr option \<Rightarrow> u32 \<Rightarrow> u64 \<Rightarrow> bh_cap_locator option \<Rightarrow> kstate \<Rightarrow> kstatus \<times> bh_cap_locator option" where
  "bh_cap_transfer_capture cpu table cap_id rights out s =
     (case (table, out) of
        (Some p, Some _) \<Rightarrow>
          if rights = CAP_RIGHT_NONE then (K_ERR_INVALID_ARG, out)
          else let t = ks_tables s p
          in if cpu \<ge> MAX_CPUS \<or> unat (ct_owner_core t) \<noteq> cpu \<or> unat (ct_registry_slot t) \<ge> CSPACES_PER_CORE
             then (K_ERR_CAP_OWNERSHIP, Some cap_locator_null)
             else if re_table (ks_registry s cpu (unat (ct_registry_slot t))) = Some p \<and> ct_cspace_id t \<noteq> 0
             then (case find (\<lambda>i. let e = ct_entries t ! i
                       in ce_in_use e \<and> ce_id e = bh_cap_index cap_id \<and>
                          bh_cap_generation_matches (ce_generation e) (bh_cap_generation cap_id) \<and>
                          ce_state e = CAP_STATE_LIVE \<and> ce_rights e AND CAP_RIGHT_DELEGATE \<noteq> 0 \<and>
                          cap_can_transfer (ce_type e) (ce_rights e) rights) [0..<CAP_ENTRIES] of
                     Some i \<Rightarrow> (K_OK, Some (cap_locator_make (Some t) i (ce_generation (ct_entries t ! i))
                                               (ucast (ce_revocation_epoch (ct_entries t ! i)))))
                   | None \<Rightarrow> (K_ERR_CAP_STALE, Some cap_locator_null))
             else (K_ERR_CAP_STALE, Some cap_locator_null)
      | _ \<Rightarrow> (K_ERR_INVALID_ARG, out))"

definition bh_cap_transfer_install ::
    "nat \<Rightarrow> bh_cap_locator option \<Rightarrow> tptr option \<Rightarrow> u64 \<Rightarrow> u32 option \<Rightarrow> kstate \<Rightarrow> kstatus \<times> kstate \<times> u32 option" where
  "bh_cap_transfer_install cpu locator destination rights out s =
     (case (locator, destination, out) of
        (Some l, Some dp, Some _) \<Rightarrow>
          if rights = CAP_RIGHT_NONE then (K_ERR_INVALID_ARG, s, out)
          else if cpu \<ge> MAX_CPUS \<or> unat (loc_owner_core l) \<noteq> cpu \<or> unat (ct_owner_core (ks_tables s dp)) \<noteq> cpu
          then (K_ERR_IPC_CROSS_CORE, s, Some 0)
          else (case cap_locator_resolve_table s l of
                  None \<Rightarrow> (K_ERR_CAP_STALE, s, Some 0)
                | Some sp \<Rightarrow>
                  let slot = unat (ct_registry_slot (ks_tables s dp))
                  in if unat (loc_slot l) < CAP_ENTRIES \<and> slot < CSPACES_PER_CORE \<and>
                        re_table (ks_registry s cpu slot) = Some dp
                     then case cap_table_delegate_local sp dp (cap_handle_of (ucast (loc_slot l) + 1) (loc_generation l))
                                 rights (Some 0) (Some l) s of
                            (st, s1, o1) \<Rightarrow>
                              (if st = 0 then K_OK else if st = -2 then K_ERR_NO_RESOURCES else K_ERR_CAP_STALE, s1, o1)
                     else (K_ERR_CAP_STALE, s, Some 0))
      | _ \<Rightarrow> (K_ERR_INVALID_ARG, s, out))"

end
