(* ===== verification/Cap_Space_Inv.thy ===== *)
theory Cap_Space_Inv
  imports Cap_Cspace
begin

text \<open>
  Correctness of the capability spaces: the invariant of a capability table and of the CSpace
  registry, that creation, destruction, granting and delegation within a core keep it, what a grant
  and a delegation write, that handles find the entries they were made for, that locators resolve
  to the tables they were made for, and the capture and installation of capabilities in messages.
\<close>

unbundle bit_operations_syntax

section \<open>The table invariant\<close>

text \<open>
  A table has its 64 entries and a well-formed allocator for them; an entry in use sits in an
  allocated slot, carries the number of its slot, and has legal rights.
\<close>

definition cap_table_wf :: "capability_table \<Rightarrow> bool" where
  "cap_table_wf t \<longleftrightarrow> length (ct_entries t) = CAP_ENTRIES \<and> ida_wf (ct_id_allocator t) \<and>
     ida_capacity (ct_id_allocator t) = CAP_ENTRIES \<and>
     (\<forall>i < CAP_ENTRIES. ce_in_use (ct_entries t ! i) \<longrightarrow>
        i \<in> ida_used (ct_id_allocator t) \<and> ce_id (ct_entries t ! i) = of_nat i + 1 \<and>
        ce_type (ct_entries t ! i) \<noteq> CAP_TYPE_NONE \<and> ce_rights (ct_entries t ! i) \<noteq> 0 \<and>
        cap_rights_valid (ce_type (ct_entries t ! i)) (ce_rights (ct_entries t ! i)))"

lemma cap_table_wfD:
  assumes "cap_table_wf t"
  shows "length (ct_entries t) = CAP_ENTRIES" "ida_wf (ct_id_allocator t)"
    "ida_capacity (ct_id_allocator t) = CAP_ENTRIES"
    "\<And>i. i < CAP_ENTRIES \<Longrightarrow> ce_in_use (ct_entries t ! i) \<Longrightarrow>
       i \<in> ida_used (ct_id_allocator t) \<and> ce_id (ct_entries t ! i) = of_nat i + 1 \<and>
       ce_type (ct_entries t ! i) \<noteq> CAP_TYPE_NONE \<and> ce_rights (ct_entries t ! i) \<noteq> 0 \<and>
       cap_rights_valid (ce_type (ct_entries t ! i)) (ce_rights (ct_entries t ! i))"
  using assms by (simp_all add: cap_table_wf_def)

lemma unat_slot_id: "i < CAP_ENTRIES \<Longrightarrow> unat (of_nat i + 1 :: u32) = i + 1"
  unfolding of_nat_Suc [symmetric, unfolded add.commute [of 1]] unsigned_of_nat
  by (subst take_bit_nat_eq_self) simp_all

lemma slot_id_inject:
  "i < CAP_ENTRIES \<Longrightarrow> j < CAP_ENTRIES \<Longrightarrow> (of_nat i + 1 :: u32) = of_nat j + 1 \<longleftrightarrow> i = j"
  using unat_slot_id [of i] unat_slot_id [of j] by (metis add_right_cancel)

lemma slot_id_bound: "i < CAP_ENTRIES \<Longrightarrow> (of_nat i + 1 :: u32) < 0x10000 \<and> (of_nat i + 1 :: u32) \<noteq> 0"
  using unat_slot_id [of i] by (auto simp: word_less_nat_alt)

text \<open>The scan by number finds the slot of that number, if its entry is in use.\<close>

lemma cap_slot_of_id_iff:
  assumes "cap_table_wf t" and "i < CAP_ENTRIES"
  shows "cap_slot_of_id t (of_nat i + 1) = (if ce_in_use (ct_entries t ! i) then Some i else None)"
proof -
  have key: "ce_in_use (ct_entries t ! j) \<and> ce_id (ct_entries t ! j) = of_nat i + 1 \<longleftrightarrow>
      j = i \<and> ce_in_use (ct_entries t ! i)" if "j < 64" for j
    using cap_table_wfD(4) [OF assms(1) that] slot_id_inject [OF that assms(2)] by auto
  show ?thesis
  proof (cases "ce_in_use (ct_entries t ! i)")
    case True
    then have "find (\<lambda>j. ce_in_use (ct_entries t ! j) \<and> ce_id (ct_entries t ! j) = of_nat i + 1) [0..<64] = Some i"
      unfolding find_upt_Some_iff using key assms(2) by auto
    then show ?thesis using True by (simp add: cap_slot_of_id_def)
  next
    case False
    then have "find (\<lambda>j. ce_in_use (ct_entries t ! j) \<and> ce_id (ct_entries t ! j) = of_nat i + 1) [0..<64] = None"
      unfolding find_upt_None_iff using key by auto
    then show ?thesis using False by (simp add: cap_slot_of_id_def)
  qed
qed

lemma cap_slot_of_id_Some:
  assumes "cap_table_wf t" and "cap_slot_of_id t idn = Some i"
  shows "i < CAP_ENTRIES \<and> ce_in_use (ct_entries t ! i) \<and> idn = of_nat i + 1"
proof -
  have "i < 64" "ce_in_use (ct_entries t ! i)" "ce_id (ct_entries t ! i) = idn"
    using assms(2) by (simp_all add: cap_slot_of_id_def find_upt_Some_iff)
  then show ?thesis using cap_table_wfD(4) [OF assms(1)] by metis
qed

section \<open>Allocating and writing an entry\<close>

lemma cap_alloc_slot_cases:
  assumes "cap_table_wf (ks_tables s p)"
  obtains (full) "ida_used (ct_id_allocator (ks_tables s p)) = {..<CAP_ENTRIES}" "cap_alloc_slot p s = (None, s)"
  | (ok) i a where "i < CAP_ENTRIES" "i \<notin> ida_used (ct_id_allocator (ks_tables s p))"
      "cap_alloc_slot p s = (Some i, upd_table p (\<lambda>t. t\<lparr>ct_id_allocator := a\<rparr>) s)" "ida_wf a"
      "ida_capacity a = CAP_ENTRIES" "ida_used a = insert i (ida_used (ct_id_allocator (ks_tables s p)))"
proof -
  let ?a = "ct_id_allocator (ks_tables s p)"
  have wf: "ida_wf ?a" "ida_capacity ?a = 64" using cap_table_wfD(2,3) [OF assms] .
  show ?thesis
  proof (cases "ida_used ?a = {..<64}")
    case True
    then have "fst (bh_id_allocator_alloc (Some ?a) (Some 0)) \<noteq> K_OK"
      using ida_alloc_exhausted [OF wf(1)] wf(2) by (simp add: status_simps)
    then show ?thesis using full True by (simp add: cap_alloc_slot_def split_beta)
  next
    case False
    with ida_alloc_success [OF wf(1), of 0] wf(2) obtain a i where
      "bh_id_allocator_alloc (Some ?a) (Some 0) = (K_OK, Some a, Some i)" "ida_wf a" "ida_capacity a = 64"
      "i < 64" "i \<notin> ida_used ?a" "ida_used a = insert i (ida_used ?a)" by auto
    then show ?thesis by (intro ok) (simp_all add: cap_alloc_slot_def)
  qed
qed

lemma cap_alloc_not_in_use:
  assumes "cap_table_wf (ks_tables s p)" and "cap_alloc_slot p s = (Some i, s')"
  shows "\<not> ce_in_use (entry_at s p i)"
  using assms(2) cap_table_wfD(4) [OF assms(1), of i]
  by (cases rule: cap_alloc_slot_cases [OF assms(1)]) (auto simp: entry_at_def)

text \<open>Writing a legal entry into the slot just allocated keeps the table well-formed.\<close>

lemma cap_table_wf_write:
  assumes "cap_table_wf t" and "i < CAP_ENTRIES" and "ida_wf a" and "ida_capacity a = CAP_ENTRIES"
    and "ida_used a = insert i (ida_used (ct_id_allocator t))"
    and "ce_id e = of_nat i + 1" "ce_type e \<noteq> CAP_TYPE_NONE" "ce_rights e \<noteq> 0" "cap_rights_valid (ce_type e) (ce_rights e)"
  shows "cap_table_wf (t\<lparr>ct_id_allocator := a, ct_entries := (ct_entries t)[i := e]\<rparr>)"
  using assms by (auto simp: cap_table_wf_def nth_list_update)

text \<open>Changes to links, pins and epochs do not matter to the invariant.\<close>

definition same_authority :: "capability_entry \<Rightarrow> capability_entry \<Rightarrow> bool" where
  "same_authority d e \<longleftrightarrow> ce_in_use d = ce_in_use e \<and> ce_id d = ce_id e \<and> ce_type d = ce_type e \<and>
     ce_rights d = ce_rights e"

lemma cap_table_wf_links:
  assumes "cap_table_wf t" and "same_authority e (ct_entries t ! i)"
  shows "cap_table_wf (t\<lparr>ct_entries := (ct_entries t)[i := e]\<rparr>)"
  using assms by (cases "i < length (ct_entries t)") (auto simp: cap_table_wf_def same_authority_def nth_list_update)

lemma upd_entry_tables:
  "ks_tables (upd_entry p i f s) q =
     (if q = p then (ks_tables s p)\<lparr>ct_entries := (ct_entries (ks_tables s p))[i := f (entry_at s p i)]\<rparr> else ks_tables s q)"
  by (simp add: upd_entry_def entry_at_def)

lemma entry_at_upd_entry:
  "j < length (ct_entries (ks_tables s p)) \<Longrightarrow>
   entry_at (upd_entry p i f s) q j = (if q = p \<and> j = i then f (entry_at s p i) else entry_at s q j)"
  by (auto simp: entry_at_def upd_entry_tables nth_list_update)

lemma entry_at_endpoint_ref [simp]:
  "entry_at (cap_endpoint_ref_acquire ty ref r s) p i = entry_at s p i"
  "entry_at (cap_endpoint_ref_release ty ref r s) p i = entry_at s p i"
  by (simp_all add: entry_at_def)

section \<open>Granting\<close>

text \<open>
  \<open>cap_installs p i e s s'\<close>: from \<open>s\<close> to \<open>s'\<close> the free slot \<open>i\<close> of table \<open>p\<close> has received the
  entry \<open>e\<close>; the other entries, the other tables and the registry are as they were.
\<close>

definition cap_installs :: "tptr \<Rightarrow> nat \<Rightarrow> capability_entry \<Rightarrow> kstate \<Rightarrow> kstate \<Rightarrow> bool" where
  "cap_installs p i e s s' \<longleftrightarrow> i < CAP_ENTRIES \<and> \<not> ce_in_use (entry_at s p i) \<and> entry_at s' p i = e \<and>
     (\<forall>j < CAP_ENTRIES. j \<noteq> i \<longrightarrow> entry_at s' p j = entry_at s p j) \<and>
     (\<forall>q. q \<noteq> p \<longrightarrow> ks_tables s' q = ks_tables s q) \<and> ks_registry s' = ks_registry s \<and>
     ks_bootstrap_used s' = ks_bootstrap_used s \<and> ks_tx s' = ks_tx s \<and>
     cap_table_wf (ks_tables s' p) \<and> ct_cspace_id (ks_tables s' p) = ct_cspace_id (ks_tables s p) \<and>
     ct_owner_core (ks_tables s' p) = ct_owner_core (ks_tables s p) \<and>
     ct_registry_slot (ks_tables s' p) = ct_registry_slot (ks_tables s p)"

lemma cap_alloc_write_installs:
  assumes "cap_table_wf (ks_tables s p)" and "cap_alloc_slot p s = (Some i, s1)"
    and "ce_in_use e" "ce_id e = of_nat i + 1" "ce_type e \<noteq> CAP_TYPE_NONE" "ce_rights e \<noteq> 0" "cap_rights_valid (ce_type e) (ce_rights e)"
    and "f (entry_at s1 p i) = e"
  shows "cap_installs p i e s (upd_entry p i f s1)"
  using assms(2)
proof (cases rule: cap_alloc_slot_cases [OF assms(1)])
  case (2 j a)
  with assms(2) have i: "j = i" and s1: "s1 = upd_table p (\<lambda>t. t\<lparr>ct_id_allocator := a\<rparr>) s" by simp_all
  have l: "length (ct_entries (ks_tables s p)) = 64" by (rule cap_table_wfD(1) [OF assms(1)])
  have e1: "entry_at s1 q k = entry_at s q k" for q k by (simp add: s1 entry_at_def)
  have wf: "cap_table_wf (ks_tables (upd_entry p i f s1) p)"
    using cap_table_wf_write [OF assms(1), of i a e] 2 i assms(3-8) by (simp add: upd_entry_tables s1)
  show ?thesis
    using wf 2(1) i cap_alloc_not_in_use [OF assms(1,2)] l assms(8)
    by (simp add: cap_installs_def e1 upd_entry_tables s1 entry_at_upd_entry)
       (simp add: entry_at_def upd_entry_tables)
qed (use assms(2) in simp)

lemma cap_grant_cases:
  assumes "cap_table_wf (ks_tables s p)"
  obtains (bad_type) "type = CAP_TYPE_NONE" "cap_table_grant cpu (Some p) type obj rights out s = (-1, s, out)"
  | (bad_rights) "type \<noteq> CAP_TYPE_NONE" "\<not> cap_rights_valid type rights \<or> rights = CAP_RIGHT_NONE"
      "cap_table_grant cpu (Some p) type obj rights out s = (-3, s, out)"
  | (full) "ida_used (ct_id_allocator (ks_tables s p)) = {..<CAP_ENTRIES}"
      "cap_table_grant cpu (Some p) type obj rights out s = (-2, s, out)"
  | (ok) i s' where "type \<noteq> CAP_TYPE_NONE" "cap_rights_valid type rights" "rights \<noteq> CAP_RIGHT_NONE"
      "cap_table_grant cpu (Some p) type obj rights out s =
         (0, s', map_option (\<lambda>_. cap_handle_of (of_nat i + 1) (ce_generation (entry_at s p i) + 1)) out)"
      "cap_installs p i (cap_grant_entry cpu i type obj rights (entry_at s p i)) s s'"
proof -
  consider "type = CAP_TYPE_NONE" | "type \<noteq> CAP_TYPE_NONE" "\<not> cap_rights_valid type rights \<or> rights = CAP_RIGHT_NONE"
    | (good) "type \<noteq> CAP_TYPE_NONE" "cap_rights_valid type rights" "rights \<noteq> CAP_RIGHT_NONE" by blast
  then show ?thesis
  proof cases
    case good
    show ?thesis
    proof (cases rule: cap_alloc_slot_cases [OF assms])
      case 1
      then show ?thesis using full good by (simp add: cap_table_grant_def)
    next
      case (2 i a)
      let ?s1 = "upd_table p (\<lambda>t. t\<lparr>ct_id_allocator := a\<rparr>) s"
      let ?s2 = "upd_entry p i (cap_grant_entry cpu i type obj rights) ?s1"
      have e1: "entry_at ?s1 p i = entry_at s p i" by (simp add: entry_at_def)
      have inst: "cap_installs p i (cap_grant_entry cpu i type obj rights (entry_at s p i)) s ?s2"
        by (rule cap_alloc_write_installs [OF assms 2(3)])
           (use good in \<open>simp_all add: cap_grant_entry_def rights_simps e1\<close>)
      then have e2: "entry_at ?s2 p i = cap_grant_entry cpu i type obj rights (entry_at s p i)"
        by (simp add: cap_installs_def)
      have "cap_installs p i (cap_grant_entry cpu i type obj rights (entry_at s p i)) s (cap_endpoint_ref_acquire type obj rights ?s2)"
        using inst by (simp add: cap_installs_def)
      moreover have "cap_table_grant cpu (Some p) type obj rights out s =
         (0, cap_endpoint_ref_acquire type obj rights ?s2,
          map_option (\<lambda>_. cap_handle_of (of_nat i + 1) (ce_generation (entry_at s p i) + 1)) out)"
        using good 2(3) by (simp add: cap_table_grant_def Let_def e2) (simp add: cap_grant_entry_def)
      ultimately show ?thesis using ok good by blast
    qed
  qed (use bad_type bad_rights in \<open>auto simp: cap_table_grant_def\<close>)
qed

section \<open>Lookup\<close>

lemma lookup_Some:
  "cap_table_lookup s (Some p) h ty req = (0, Some e) \<longleftrightarrow>
     h \<noteq> 0 \<and> (\<exists>i. cap_slot_of_id (ks_tables s p) (bh_cap_index h) = Some i \<and> e = entry_at s p i \<and>
       bh_cap_generation_matches (ce_generation e) (bh_cap_generation h) \<and> ce_state e = CAP_STATE_LIVE \<and>
       (ty = CAP_TYPE_NONE \<or> ce_type e = ty) \<and> ce_rights e AND req = req)"
  by (auto simp: cap_table_lookup_def Let_def split: option.splits if_splits)

text \<open>The handle of an entry finds it.\<close>

lemma handle_nonzero: "i < CAP_ENTRIES \<Longrightarrow> cap_handle_of (of_nat i + 1) g \<noteq> 0"
  using handle_index [of "of_nat i + 1" g] slot_id_bound [of i] by (auto simp: bh_cap_index_def)

lemma lookup_by_handle:
  assumes "cap_table_wf (ks_tables s p)" and "i < CAP_ENTRIES" and "ce_in_use (entry_at s p i)"
  shows "cap_table_lookup s (Some p) (cap_handle_of (of_nat i + 1) g) ty req =
    (let e = entry_at s p i
     in if \<not> bh_cap_generation_matches (ce_generation e) (take_bit 16 g) then (-6, None)
        else if ce_state e \<noteq> CAP_STATE_LIVE then (-7, None)
        else if ty \<noteq> CAP_TYPE_NONE \<and> ce_type e \<noteq> ty then (-2, None)
        else if ce_rights e AND req \<noteq> req then (-3, None) else (0, Some e))"
  using assms handle_nonzero [of i g] slot_id_bound [of i] cap_slot_of_id_iff [of "ks_tables s p" i]
  by (simp add: cap_table_lookup_def handle_index handle_generation entry_at_def)

text \<open>An installation does not disturb the lookups that succeed.\<close>

lemma installs_keeps_lookup:
  assumes "cap_table_wf (ks_tables s p)" and "cap_installs p i e s s'"
    and "cap_table_lookup s (Some p) h ty req = (0, Some d)"
  shows "cap_table_lookup s' (Some p) h ty req = (0, Some d)"
proof -
  from assms(3) obtain j where j: "h \<noteq> 0" "cap_slot_of_id (ks_tables s p) (bh_cap_index h) = Some j"
    "d = entry_at s p j" and rest: "bh_cap_generation_matches (ce_generation d) (bh_cap_generation h)"
    "ce_state d = CAP_STATE_LIVE" "ty = CAP_TYPE_NONE \<or> ce_type d = ty" "ce_rights d AND req = req"
    unfolding lookup_Some by blast
  have jb: "j < 64" "ce_in_use (entry_at s p j)" "bh_cap_index h = of_nat j + 1"
    using cap_slot_of_id_Some [OF assms(1) j(2)] by (auto simp: entry_at_def)
  with assms(2) have ej: "entry_at s' p j = entry_at s p j" and wf: "cap_table_wf (ks_tables s' p)"
    by (auto simp: cap_installs_def)
  have "cap_slot_of_id (ks_tables s' p) (bh_cap_index h) = Some j"
    using cap_slot_of_id_iff [OF wf jb(1)] jb(2,3) ej by (simp add: entry_at_def)
  then show ?thesis unfolding lookup_Some using j(1,3) rest ej by metis
qed

lemma take_bit_16_small: "g < 0x10000 \<Longrightarrow> take_bit 16 (g :: u32) = g"
  by (simp add: less_mask_eq take_bit_eq_mask)

section \<open>Delegation within a core\<close>

lemma cap_locator_make_cong:
  "ct_cspace_id t = ct_cspace_id u \<Longrightarrow> ct_owner_core t = ct_owner_core u \<Longrightarrow>
   cap_locator_make (Some t) i g r = cap_locator_make (Some u) i g r"
  by (simp add: cap_locator_make_def)

lemma cap_delegate_source_Some:
  assumes "cap_table_wf t" and "cap_delegate_source t h = Some i"
  shows "i < CAP_ENTRIES \<and> ce_in_use (ct_entries t ! i) \<and> bh_cap_index h = of_nat i + 1 \<and>
    ce_state (ct_entries t ! i) = CAP_STATE_LIVE \<and> ce_generation (ct_entries t ! i) = bh_cap_generation h"
  using assms(2) cap_slot_of_id_Some [OF assms(1)]
  by (auto simp: cap_delegate_source_def bh_cap_generation_matches_def split: option.splits if_splits)

text \<open>
  What a delegation from slot \<open>i\<close> of \<open>src\<close> leaves behind: a child \<open>d\<close> in slot \<open>j\<close> of \<open>dst\<close>,
  which the source entry now names as its first child.
\<close>

definition cap_delegated :: "tptr \<Rightarrow> nat \<Rightarrow> tptr \<Rightarrow> nat \<Rightarrow> u64 \<Rightarrow> kstate \<Rightarrow> kstate \<Rightarrow> bool" where
  "cap_delegated src i dst j rights s s' \<longleftrightarrow> i < CAP_ENTRIES \<and> j < CAP_ENTRIES \<and> (src, i) \<noteq> (dst, j) \<and>
     \<not> ce_in_use (entry_at s dst j) \<and>
     entry_at s' dst j = cap_child_entry (ks_tables s src) i (entry_at s src i) rights j (entry_at s dst j) \<and>
     entry_at s' src i = (entry_at s src i)\<lparr>ce_first_child := cap_locator_make (Some (ks_tables s dst)) j
       (ce_generation (entry_at s' dst j)) (ucast (ce_revocation_epoch (entry_at s' dst j)))\<rparr> \<and>
     (\<forall>q k. k < CAP_ENTRIES \<longrightarrow> (q, k) \<noteq> (dst, j) \<longrightarrow> (q, k) \<noteq> (src, i) \<longrightarrow> entry_at s' q k = entry_at s q k) \<and>
     cap_table_wf (ks_tables s' src) \<and> cap_table_wf (ks_tables s' dst) \<and>
     (\<forall>q. q \<noteq> src \<longrightarrow> q \<noteq> dst \<longrightarrow> ks_tables s' q = ks_tables s q) \<and>
     (\<forall>q. ct_cspace_id (ks_tables s' q) = ct_cspace_id (ks_tables s q) \<and>
          ct_owner_core (ks_tables s' q) = ct_owner_core (ks_tables s q) \<and>
          ct_registry_slot (ks_tables s' q) = ct_registry_slot (ks_tables s q)) \<and>
     ks_registry s' = ks_registry s \<and> ks_bootstrap_used s' = ks_bootstrap_used s \<and> ks_tx s' = ks_tx s"

lemma cap_installs_link:
  assumes inst: "cap_installs dst j d s s2" and src: "i < CAP_ENTRIES" "ce_in_use (entry_at s src i)"
    and wf: "cap_table_wf (ks_tables s src)"
    and d: "d = cap_child_entry (ks_tables s src) i (entry_at s src i) rights j (entry_at s dst j)"
  shows "cap_delegated src i dst j rights s (upd_entry src i (\<lambda>e. e\<lparr>ce_first_child :=
           cap_locator_make (Some (ks_tables s2 dst)) j (ce_generation d) (ucast (ce_revocation_epoch d))\<rparr>) s2)"
    (is "cap_delegated src i dst j rights s ?s3")
proof -
  note I = inst [unfolded cap_installs_def]
  have ne: "(src, i) \<noteq> (dst, j)" using I src(2) by auto
  have wf2: "cap_table_wf (ks_tables s2 src)" using I wf by (cases "src = dst") auto
  have es: "entry_at s2 src i = entry_at s src i" using I src ne by (cases "src = dst") (auto simp: entry_at_def)
  have len: "length (ct_entries (ks_tables s2 q)) = 64" if "q = src \<or> q = dst" for q
    using that cap_table_wfD(1) wf2 I by auto
  have at3: "entry_at ?s3 q k = (if q = src \<and> k = i then (entry_at s src i)\<lparr>ce_first_child :=
        cap_locator_make (Some (ks_tables s dst)) j (ce_generation d) (ucast (ce_revocation_epoch d))\<rparr>
      else entry_at s2 q k)" if "k < 64" for q k
    using that len [of src] I es cap_locator_make_cong [of "ks_tables s2 dst" "ks_tables s dst"]
    by (simp add: entry_at_upd_entry)
  have at2: "entry_at s2 q k = (if q = dst \<and> k = j then d else entry_at s q k)" if "k < 64" for q k
    using that I by (cases "q = dst") (auto simp: entry_at_def)
  have wf3: "cap_table_wf (ks_tables ?s3 q)" if "cap_table_wf (ks_tables s2 q)" for q
    using that cap_table_wf_links [OF wf2, of _ i]
    by (simp add: upd_entry_tables entry_at_def same_authority_def)
  have I1: "j < 64" "\<not> ce_in_use (entry_at s dst j)" "cap_table_wf (ks_tables s2 dst)" "ks_registry s2 = ks_registry s"
    "ks_bootstrap_used s2 = ks_bootstrap_used s" "ks_tx s2 = ks_tx s"
    using I by auto
  have I2: "ks_tables s2 q = ks_tables s q" if "q \<noteq> dst" for q
    using I that by auto
  have I3: "ct_cspace_id (ks_tables s2 dst) = ct_cspace_id (ks_tables s dst)"
      "ct_owner_core (ks_tables s2 dst) = ct_owner_core (ks_tables s dst)"
      "ct_registry_slot (ks_tables s2 dst) = ct_registry_slot (ks_tables s dst)"
    using I by auto
  have ids: "ct_cspace_id (ks_tables ?s3 q) = ct_cspace_id (ks_tables s q)"
      "ct_owner_core (ks_tables ?s3 q) = ct_owner_core (ks_tables s q)"
      "ct_registry_slot (ks_tables ?s3 q) = ct_registry_slot (ks_tables s q)" for q
    by (cases "q = dst"; cases "q = src"; simp add: upd_entry_tables I2 I3)+
  have d3: "entry_at ?s3 dst j = d" using ne I1(1) by (auto simp: at3 at2)
  have "entry_at ?s3 q k = entry_at s q k" if "k < 64" "(q, k) \<noteq> (dst, j)" "(q, k) \<noteq> (src, i)" for q k
    using that by (auto simp: at3 at2)
  moreover have "ks_tables ?s3 q = ks_tables s q" if "q \<noteq> src" "q \<noteq> dst" for q
    using that I2 by (simp add: upd_entry_tables)
  moreover have "entry_at ?s3 src i = (entry_at s src i)\<lparr>ce_first_child :=
      cap_locator_make (Some (ks_tables s dst)) j (ce_generation d) (ucast (ce_revocation_epoch d))\<rparr>"
    using src(1) by (simp only: at3 simp_thms if_True)
  ultimately show ?thesis
    unfolding cap_delegated_def d3 using ne src(1) I1 wf3 wf2 d ids by simp
qed

lemma cap_delegate_local_ok:
  assumes wf: "cap_table_wf (ks_tables s src)" "cap_table_wf (ks_tables s dst)"
    and source: "cap_delegate_source (ks_tables s src) h = Some i" "locator_expects expected i (entry_at s src i)"
    and checks: "ce_rights (entry_at s src i) AND CAP_RIGHT_DELEGATE \<noteq> 0" "ce_rights (entry_at s src i) AND rights = rights"
      "cap_rights_valid (ce_type (entry_at s src i)) rights" "rights \<noteq> CAP_RIGHT_NONE"
    and room: "ida_used (ct_id_allocator (ks_tables s dst)) \<noteq> {..<CAP_ENTRIES}"
  shows "\<exists>j s'. cap_delegated src i dst j rights s s' \<and>
    cap_table_delegate_local src dst h rights out expected s =
      (0, s', map_option (\<lambda>_. cap_handle_of (of_nat j + 1) (ce_generation (entry_at s dst j) + 1)) out)"
proof -
  let ?e = "entry_at s src i"
  have i: "i < 64" "ce_in_use ?e"
    using cap_delegate_source_Some [OF wf(1) source(1)] by (auto simp: entry_at_def)
  have ty: "ce_type ?e \<noteq> CAP_TYPE_NONE" using cap_table_wfD(4) [OF wf(1) i(1)] i(2) by (simp add: entry_at_def)
  show ?thesis
  proof (cases rule: cap_alloc_slot_cases [OF wf(2)])
    case (2 j a)
    define s1 where "s1 = upd_table dst (\<lambda>t. t\<lparr>ct_id_allocator := a\<rparr>) s"
    have al: "cap_alloc_slot dst s = (Some j, s1)" using 2(3) by (simp add: s1_def)
    let ?f = "cap_child_entry (ks_tables s1 src) i ?e rights j"
    let ?s2 = "upd_entry dst j ?f s1"
    let ?d = "cap_child_entry (ks_tables s src) i ?e rights j (entry_at s dst j)"
    have e1: "?f (entry_at s1 dst j) = ?d"
      using cap_locator_make_cong [of "ks_tables s1 src" "ks_tables s src"]
      by (simp add: entry_at_def cap_child_entry_def s1_def)
    have inst: "cap_installs dst j ?d s ?s2"
      by (rule cap_alloc_write_installs [OF wf(2) al], rule_tac [6] e1)
         (use checks ty in \<open>simp_all add: cap_child_entry_def rights_simps\<close>)
    then have e2: "entry_at ?s2 dst j = ?d" by (simp add: cap_installs_def)
    let ?s3 = "upd_entry src i (\<lambda>e. e\<lparr>ce_first_child := cap_locator_make (Some (ks_tables ?s2 dst)) j
                 (ce_generation ?d) (ucast (ce_revocation_epoch ?d))\<rparr>) ?s2"
    let ?s4 = "cap_endpoint_ref_acquire (ce_type ?e) (ce_object_ref ?e) rights ?s3"
    have "cap_delegated src i dst j rights s ?s3"
      by (rule cap_installs_link [OF inst i wf(1) refl])
    then have "cap_delegated src i dst j rights s ?s4" by (simp add: cap_delegated_def)
    moreover have "cap_table_delegate_local src dst h rights out expected s =
       (0, ?s4, map_option (\<lambda>_. cap_handle_of (of_nat j + 1) (ce_generation (entry_at s dst j) + 1)) out)"
      using checks source al by (simp add: cap_table_delegate_local_def Let_def e2) (simp add: cap_child_entry_def)
    ultimately show ?thesis by blast
  qed (use room in simp)
qed

lemma cap_delegate_local_cases:
  assumes "cap_table_wf (ks_tables s src)" and "cap_table_wf (ks_tables s dst)"
  obtains (refused) st where "st \<noteq> 0" "cap_table_delegate_local src dst h rights out expected s = (st, s, out)"
  | (ok) i j s' where "cap_delegate_source (ks_tables s src) h = Some i" "locator_expects expected i (entry_at s src i)"
      "ce_rights (entry_at s src i) AND CAP_RIGHT_DELEGATE \<noteq> 0" "ce_rights (entry_at s src i) AND rights = rights"
      "cap_rights_valid (ce_type (entry_at s src i)) rights" "rights \<noteq> CAP_RIGHT_NONE"
      "cap_delegated src i dst j rights s s'"
      "cap_table_delegate_local src dst h rights out expected s =
         (0, s', map_option (\<lambda>_. cap_handle_of (of_nat j + 1) (ce_generation (entry_at s dst j) + 1)) out)"
proof (cases "cap_delegate_source (ks_tables s src) h")
  case None
  then show ?thesis using refused by (simp add: cap_table_delegate_local_def)
next
  case (Some i)
  let ?e = "entry_at s src i"
  show ?thesis
  proof (cases "locator_expects expected i ?e \<and> ce_rights ?e AND CAP_RIGHT_DELEGATE \<noteq> 0 \<and>
      ce_rights ?e AND rights = rights \<and> cap_rights_valid (ce_type ?e) rights \<and> rights \<noteq> CAP_RIGHT_NONE")
    case False
    have "\<exists>st. st \<noteq> 0 \<and> cap_table_delegate_local src dst h rights out expected s = (st, s, out)"
      using False unfolding cap_table_delegate_local_def Some option.case Let_def by (simp split del: prod.split) argo
    then show ?thesis using refused by blast
  next
    case good: True
    show ?thesis
    proof (cases "ida_used (ct_id_allocator (ks_tables s dst)) = {..<CAP_ENTRIES}")
      case True
      then have "cap_alloc_slot dst s = (None, s)"
        using ida_alloc_exhausted [OF cap_table_wfD(2) [OF assms(2)]] cap_table_wfD(3) [OF assms(2)]
        by (simp add: cap_alloc_slot_def status_simps)
      then show ?thesis using refused [of "-2"] good Some by (simp add: cap_table_delegate_local_def Let_def)
    next
      case False
      then show ?thesis using cap_delegate_local_ok [OF assms Some] ok [OF Some] good by metis
    qed
  qed
qed

section \<open>The registry\<close>

text \<open>
  A registered table is well-formed and carries its place and generation in its identity; the
  static table of a core is registered only there and only while it is marked as used.
\<close>

definition cspace_wf :: "kstate \<Rightarrow> nat \<Rightarrow> nat \<Rightarrow> bool" where
  "cspace_wf s c k \<longleftrightarrow> re_generation (ks_registry s c k) \<le> 0xFFFFF \<and>
     (\<forall>p. re_table (ks_registry s c k) = Some p \<longrightarrow>
        cap_table_wf (ks_tables s p) \<and> ct_owner_core (ks_tables s p) = of_nat c \<and> ct_registry_slot (ks_tables s p) = of_nat k \<and>
        ct_cspace_id (ks_tables s p) = cap_cspace_id_make (of_nat c) (of_nat k) (re_generation (ks_registry s c k)) \<and>
        (\<forall>b. p = Bootstrap_Table b \<longrightarrow> b = c \<and> ks_bootstrap_used s c) \<and>
        re_uses_bootstrap_storage (ks_registry s c k) = (p = Bootstrap_Table c))"

definition caps_wf :: "kstate \<Rightarrow> bool" where
  "caps_wf s \<longleftrightarrow> (\<forall>c < MAX_CPUS. \<forall>k < CSPACES_PER_CORE. cspace_wf s c k)"

definition cap_registered :: "kstate \<Rightarrow> nat \<Rightarrow> nat \<Rightarrow> tptr \<Rightarrow> bool" where
  "cap_registered s c k p \<longleftrightarrow> c < MAX_CPUS \<and> k < CSPACES_PER_CORE \<and> re_table (ks_registry s c k) = Some p"

lemma caps_wfD:
  assumes "caps_wf s" and "cap_registered s c k p"
  shows "cap_table_wf (ks_tables s p)" "ct_owner_core (ks_tables s p) = of_nat c"
    "ct_registry_slot (ks_tables s p) = of_nat k"
    "ct_cspace_id (ks_tables s p) = cap_cspace_id_make (of_nat c) (of_nat k) (re_generation (ks_registry s c k))"
    "re_generation (ks_registry s c k) \<le> 0xFFFFF"
  using assms by (auto simp: caps_wf_def cspace_wf_def cap_registered_def)

lemma small_unat:
  "c < 32 \<Longrightarrow> unat (of_nat c :: u16) = c" "c < 32 \<Longrightarrow> unat (of_nat c :: u32) = c"
  "k < 64 \<Longrightarrow> unat (of_nat k :: u16) = k" "k < 64 \<Longrightarrow> unat (of_nat k :: u32) = k"
  by (simp_all add: unsigned_of_nat take_bit_nat_eq_self)

lemma cspace_id_inject:
  assumes "c < MAX_CPUS" "k < CSPACES_PER_CORE" "g \<le> 0xFFFFF" "c' < MAX_CPUS" "k' < CSPACES_PER_CORE" "g' \<le> 0xFFFFF"
    and "cap_cspace_id_make (of_nat c) (of_nat k) g = cap_cspace_id_make (of_nat c') (of_nat k') g'"
  shows "c = c' \<and> k = k' \<and> g = g'"
proof -
  have b: "(of_nat c :: u32) < 32" "(of_nat k :: u32) < 64" "g < 0x100000"
    "(of_nat c' :: u32) < 32" "(of_nat k' :: u32) < 64" "g' < 0x100000"
    using assms(1-6) small_unat by (simp_all add: word_less_nat_alt word_le_nat_alt)
  have "(of_nat c :: u32) = of_nat c'" "(of_nat k :: u32) + 1 = of_nat k' + 1" "g = g'"
    using cspace_id_fields [OF b(1-3), unfolded assms(7)] cspace_id_fields [OF b(4-6)] by metis+
  then show ?thesis using small_unat assms(1-6) by (metis add_right_cancel)
qed

lemma cspace_id_slot:
  assumes "c < MAX_CPUS" "k < CSPACES_PER_CORE" "g \<le> 0xFFFFF"
  shows "unat (cap_cspace_id_make (of_nat c) (of_nat k) g AND 0x7F) = k + 1"
    "cap_cspace_id_make (of_nat c) (of_nat k) g \<noteq> 0"
proof -
  have b: "(of_nat c :: u32) < 32" "(of_nat k :: u32) < 64" "g < 0x100000"
    using assms small_unat by (simp_all add: word_less_nat_alt word_le_nat_alt)
  have f: "cap_cspace_id_make (of_nat c) (of_nat k) g AND 0x7F = of_nat k + 1"
    using cspace_id_fields [OF b] by simp
  then show "unat (cap_cspace_id_make (of_nat c) (of_nat k) g AND 0x7F) = k + 1"
    using unat_slot_id [of k] assms(2) by simp
  then show "cap_cspace_id_make (of_nat c) (of_nat k) g \<noteq> 0" by auto
qed

text \<open>Registered tables are told apart by their place.\<close>

lemma registered_inject:
  assumes "caps_wf s" and "cap_registered s c k p" and "cap_registered s c' k' p"
  shows "c = c' \<and> k = k'"
  using caps_wfD(2,3) [OF assms(1,2)] caps_wfD(2,3) [OF assms(1,3)] assms(2,3) small_unat
  by (metis cap_registered_def)

lemma registered_id_unique:
  assumes "caps_wf s" and "cap_registered s c k p" and "cap_registered s c' k' q"
    and "ct_cspace_id (ks_tables s p) = ct_cspace_id (ks_tables s q)"
  shows "p = q"
proof -
  have "c = c' \<and> k = k' \<and> re_generation (ks_registry s c k) = re_generation (ks_registry s c' k')"
    using assms(2-4) caps_wfD(4,5) [OF assms(1,2)] caps_wfD(4,5) [OF assms(1,3)]
    by (intro cspace_id_inject) (auto simp: cap_registered_def)
  then show ?thesis using assms(2,3) by (simp add: cap_registered_def)
qed

text \<open>A locator of a registered table resolves to it, and a locator resolves to nothing else.\<close>

lemma resolve_registered:
  assumes "caps_wf s" and "cap_registered s c k p" and "i < CAP_ENTRIES"
  shows "cap_locator_resolve_table s (cap_locator_make (Some (ks_tables s p)) i g r) = Some p"
proof -
  have b: "c < 32" "k < 64" "re_table (ks_registry s c k) = Some p" using assms(2) by (auto simp: cap_registered_def)
  note w = caps_wfD(2-5) [OF assms(1,2)]
  have u: "unat (of_nat c :: u16) = c" "unat (of_nat k :: u16) = k" using small_unat b by auto
  have e: "unat (ct_cspace_id (ks_tables s p) AND 0x7F) = k + 1" "ct_cspace_id (ks_tables s p) \<noteq> 0"
    using cspace_id_slot [OF b(1,2) w(4)] w(3) by auto
  show ?thesis
    using assms(3) b e w(1,2) u by (simp add: cap_locator_resolve_table_def cap_locator_make_def cap_locator_is_null_def Let_def)
qed

lemma resolve_Some:
  assumes "cap_locator_resolve_table s l = Some p"
  shows "cap_registered s (unat (loc_owner_core l)) (unat (loc_cspace_id l AND 0x7F) - 1) p \<and>
    ct_cspace_id (ks_tables s p) = loc_cspace_id l \<and> ct_owner_core (ks_tables s p) = loc_owner_core l"
  using assms by (auto simp: cap_locator_resolve_table_def cap_registered_def Let_def split: if_splits option.splits)

lemma fresh_table_wf: "cap_table_wf (fresh_table c k g)"
proof -
  obtain a where "bh_id_allocator_init (Some \<lparr>ida_capacity = 0, ida_next_hint = 0, ida_allocated_count = 0, ida_bitmap = []\<rparr>)
      (Some (replicate 8 0)) 64 = (K_OK, Some a)" "ida_wf a" "ida_capacity a = 64" "ida_used a = {}"
    using ida_init_wf [of 64 "replicate 8 0"] by auto
  then show ?thesis by (simp add: cap_table_wf_def fresh_table_def fresh_id_allocator_def zero_entry_def)
qed

lemma fresh_table_used: "ida_used (ct_id_allocator (fresh_table c k g)) = {}"
proof -
  obtain a where "bh_id_allocator_init (Some \<lparr>ida_capacity = 0, ida_next_hint = 0, ida_allocated_count = 0, ida_bitmap = []\<rparr>)
      (Some (replicate 8 0)) 64 = (K_OK, Some a)" "ida_used a = {}"
    using ida_init_wf [of 64 "replicate 8 0"] by auto
  then show ?thesis by (simp add: fresh_table_def fresh_id_allocator_def)
qed

section \<open>Creation and destruction of tables\<close>

text \<open>What the allocator promises: the block it returns holds no registered table.\<close>

definition block_fresh :: "kstate \<Rightarrow> nat option \<Rightarrow> bool" where
  "block_fresh s block \<longleftrightarrow> (\<forall>b. block = Some b \<longrightarrow> (\<forall>c k. \<not> cap_registered s c k (Heap_Table b)))"

lemma caps_wf_registry_change:
  assumes "caps_wf s" and "ks_tables s' = ks_tables s" and "ks_bootstrap_used s' = ks_bootstrap_used s"
    and "\<And>c k. c < MAX_CPUS \<Longrightarrow> k < CSPACES_PER_CORE \<Longrightarrow> ks_registry s' c k = ks_registry s c k \<or>
           re_table (ks_registry s' c k) = None \<and> re_generation (ks_registry s' c k) \<le> 0xFFFFF"
  shows "caps_wf s'"
  unfolding caps_wf_def
proof (intro allI impI)
  fix c k assume b: "c < MAX_CPUS" "k < CSPACES_PER_CORE"
  from assms(4) [OF b] show "cspace_wf s' c k"
    using assms(1) b unfolding caps_wf_def cspace_wf_def assms(2,3) by auto
qed

lemma word_inc_bound: "(g :: u32) < 0xFFFFF \<Longrightarrow> g + 1 \<le> 0xFFFFF \<and> g < g + 1"
proof -
  assume "g < 0xFFFFF"
  then have "unat g < 0xFFFFF" by (simp add: word_less_nat_alt)
  moreover from this have "unat (g + 1) = unat g + 1" by (simp add: unat_word_ariths)
  ultimately show ?thesis by (simp add: word_less_nat_alt word_le_nat_alt)
qed

lemma bootstrap_unregistered:
  "caps_wf s \<Longrightarrow> \<not> ks_bootstrap_used s b \<Longrightarrow> \<not> cap_registered s c k (Bootstrap_Table b)"
  by (auto simp: caps_wf_def cspace_wf_def cap_registered_def)

lemma cap_table_create_cases:
  assumes "caps_wf s" and "block_fresh s block"
  obtains (none) s' where "cap_table_create cpu block s = (None, s')" "caps_wf s'"
  | (ok) k p s' where "cap_table_create cpu block s = (Some p, s')" "cpu < MAX_CPUS" "k < CSPACES_PER_CORE"
      "re_table (ks_registry s cpu k) = None" "re_generation (ks_registry s cpu k) < 0xFFFFF"
      "\<And>c j. \<not> cap_registered s c j p" "cap_registered s' cpu k p"
      "ks_tables s' = (ks_tables s)(p := fresh_table cpu k (re_generation (ks_registry s cpu k) + 1))"
      "re_generation (ks_registry s' cpu k) = re_generation (ks_registry s cpu k) + 1"
      "\<And>c j. (c, j) \<noteq> (cpu, k) \<Longrightarrow> ks_registry s' c j = ks_registry s c j"
      "p = Bootstrap_Table cpu \<Longrightarrow> ks_bootstrap_used s' cpu"
      "re_uses_bootstrap_storage (ks_registry s' cpu k) = (p = Bootstrap_Table cpu)"
      "p \<in> {Bootstrap_Table cpu} \<union> range Heap_Table" "\<And>c. ks_bootstrap_used s c \<Longrightarrow> ks_bootstrap_used s' c"
      "ks_tx s' = ks_tx s" "ks_endpoints s' = ks_endpoints s"
proof (cases "cpu \<ge> MAX_CPUS")
  case True
  then show ?thesis using none assms(1) by (simp add: cap_table_create_def)
next
  case cpu: False
  let ?P = "\<lambda>i. let r = ks_registry s cpu i in re_table r = None \<and> \<not> re_reserved r \<and> re_generation r < 0xFFFFF"
  show ?thesis
  proof (cases "find ?P [0..<64]")
    case None
    then show ?thesis using none assms(1) cpu by (simp add: cap_table_create_def)
  next
    case (Some k)
    then have k: "k < 64" "re_table (ks_registry s cpu k) = None" "re_generation (ks_registry s cpu k) < 0xFFFFF"
      by (auto simp: find_upt_Some_iff Let_def)
    note g = word_inc_bound [OF k(3)]
    show ?thesis
    proof (cases block)
      case b: (Some b)
      show ?thesis
        by (rule ok [of "Heap_Table b" "snd (cap_table_create cpu block s)" k])
           (use cpu k Some b assms(2) in \<open>auto simp: cap_table_create_def Let_def block_fresh_def cap_registered_def fun_eq_iff\<close>)
    next
      case b: None
      show ?thesis
      proof (cases "ks_bootstrap_used s cpu")
        case True
        let ?s' = "snd (cap_table_create cpu block s)"
        have r: "cap_table_create cpu block s = (None, ?s')" using cpu Some b True by (simp add: cap_table_create_def Let_def)
        have "caps_wf ?s'"
          by (rule caps_wf_registry_change [OF assms(1)])
             (use cpu k g Some b True in \<open>auto simp: cap_table_create_def Let_def\<close>)
        with r show ?thesis by (rule none)
      next
        case False
        show ?thesis
          by (rule ok [of "Bootstrap_Table cpu" "snd (cap_table_create cpu block s)" k])
             (use cpu k Some b False bootstrap_unregistered [OF assms(1) False] in
              \<open>auto simp: cap_table_create_def Let_def cap_registered_def fun_eq_iff\<close>)
      qed
    qed
  qed
qed

lemma cap_table_create_wf:
  assumes "caps_wf s" and "block_fresh s block" and "cap_table_create cpu block s = (r, s')"
  shows "caps_wf s'"
proof (cases rule: cap_table_create_cases [OF assms(1,2), of cpu])
  case (2 k p s'')
  then have [simp]: "s'' = s'" using assms(3) by simp
  note g = word_inc_bound [OF 2(5)]
  show ?thesis
    unfolding caps_wf_def
  proof (intro allI impI)
    fix c j assume b: "c < MAX_CPUS" "j < CSPACES_PER_CORE"
    show "cspace_wf s' c j"
    proof (cases "(c, j) = (cpu, k)")
      case True
      then have "re_table (ks_registry s' c j) = Some p" using 2(7) by (simp add: cap_registered_def)
      then show ?thesis
        using True 2(8,9,11-13) g by (auto simp: cspace_wf_def fresh_table_wf) (auto simp: fresh_table_def)
    next
      case False
      then have r: "ks_registry s' c j = ks_registry s c j" using 2(10) by simp
      have "ks_tables s' q = ks_tables s q" if "re_table (ks_registry s c j) = Some q" for q
        using that 2(6) [of c j] 2(8) b by (auto simp: cap_registered_def)
      then show ?thesis using assms(1) b 2(14) unfolding caps_wf_def cspace_wf_def r by auto
    qed
  qed
qed (use assms in simp)

lemma cap_destroy_entry_frame:
  "ks_registry (cap_destroy_entry p i s) = ks_registry s" "ks_bootstrap_used (cap_destroy_entry p i s) = ks_bootstrap_used s"
  "q \<noteq> p \<Longrightarrow> ks_tables (cap_destroy_entry p i s) q = ks_tables s q"
  "ks_tx (cap_destroy_entry p i s) = ks_tx s"
  by (simp_all add: cap_destroy_entry_def Let_def upd_entry_tables)

lemma cap_destroy_fold_frame:
  "ks_registry (fold (cap_destroy_entry p) is s) = ks_registry s \<and>
   ks_bootstrap_used (fold (cap_destroy_entry p) is s) = ks_bootstrap_used s \<and>
   (\<forall>q. q \<noteq> p \<longrightarrow> ks_tables (fold (cap_destroy_entry p) is s) q = ks_tables s q) \<and>
   ks_tx (fold (cap_destroy_entry p) is s) = ks_tx s"
  by (induction "is" arbitrary: s) (simp_all add: cap_destroy_entry_frame)

text \<open>Operations that leave the registry alone keep the invariant if they keep the tables.\<close>

lemma caps_wf_tables:
  assumes "caps_wf s" and "ks_registry s' = ks_registry s" and "ks_bootstrap_used s' = ks_bootstrap_used s"
    and "\<And>c k p. cap_registered s c k p \<Longrightarrow> cap_table_wf (ks_tables s' p) \<and>
       ct_cspace_id (ks_tables s' p) = ct_cspace_id (ks_tables s p) \<and>
       ct_owner_core (ks_tables s' p) = ct_owner_core (ks_tables s p) \<and>
       ct_registry_slot (ks_tables s' p) = ct_registry_slot (ks_tables s p)"
  shows "caps_wf s'"
  unfolding caps_wf_def
proof (intro allI impI)
  fix c k assume b: "c < MAX_CPUS" "k < CSPACES_PER_CORE"
  then show "cspace_wf s' c k"
    using assms(1) assms(4) [of c k] unfolding caps_wf_def cspace_wf_def assms(2,3) cap_registered_def by auto
qed

lemma cap_registered_cong: "ks_registry s' = ks_registry s \<Longrightarrow> cap_registered s' = cap_registered s"
  by (simp add: cap_registered_def fun_eq_iff)

lemma installs_caps_wf:
  assumes "caps_wf s" and "cap_installs p i e s s'"
  shows "caps_wf s'"
proof (rule caps_wf_tables [OF assms(1)])
  fix c k q assume "cap_registered s c k q"
  then show "cap_table_wf (ks_tables s' q) \<and> ct_cspace_id (ks_tables s' q) = ct_cspace_id (ks_tables s q) \<and>
      ct_owner_core (ks_tables s' q) = ct_owner_core (ks_tables s q) \<and> ct_registry_slot (ks_tables s' q) = ct_registry_slot (ks_tables s q)"
    using assms caps_wfD(1) by (cases "q = p") (auto simp: cap_installs_def)
qed (use assms(2) in \<open>auto simp: cap_installs_def\<close>)

lemma delegated_caps_wf:
  assumes "caps_wf s" and "cap_delegated src i dst j r s s'"
  shows "caps_wf s'"
proof (rule caps_wf_tables [OF assms(1)])
  fix c k q assume "cap_registered s c k q"
  then have "cap_table_wf (ks_tables s' q)"
    using assms caps_wfD(1) by (cases "q = src \<or> q = dst") (auto simp: cap_delegated_def)
  then show "cap_table_wf (ks_tables s' q) \<and> ct_cspace_id (ks_tables s' q) = ct_cspace_id (ks_tables s q) \<and>
      ct_owner_core (ks_tables s' q) = ct_owner_core (ks_tables s q) \<and> ct_registry_slot (ks_tables s' q) = ct_registry_slot (ks_tables s q)"
    using assms(2) by (simp add: cap_delegated_def)
qed (use assms(2) in \<open>auto simp: cap_delegated_def\<close>)

lemma cap_table_grant_caps_wf:
  assumes "caps_wf s" and "cap_registered s c k p"
  shows "caps_wf (fst (snd (cap_table_grant cpu (Some p) type obj rights out s)))"
  by (rule cap_grant_cases [OF caps_wfD(1) [OF assms], of type cpu obj rights out])
     (use assms(1) installs_caps_wf in auto)

lemma cap_delegate_local_caps_wf:
  assumes "caps_wf s" and "cap_registered s c k src" and "cap_registered s c' k' dst"
  shows "caps_wf (fst (snd (cap_table_delegate_local src dst h rights out expected s)))"
  by (rule cap_delegate_local_cases [OF caps_wfD(1) [OF assms(1,2)] caps_wfD(1) [OF assms(1,3)], of h rights out expected])
     (use assms(1) delegated_caps_wf in auto)

text \<open>Destruction takes the table out of the registry and every live capability out of the table.\<close>

lemma cap_destroy_entry_at:
  assumes "i < length (ct_entries (ks_tables s p))"
  shows "entry_at (cap_destroy_entry p i s) p j =
    (if j = i \<and> ce_in_use (entry_at s p i) \<and> ce_state (entry_at s p i) = CAP_STATE_LIVE
     then (entry_at s p i)\<lparr>ce_state := CAP_STATE_FREE, ce_in_use := False\<rparr> else entry_at s p j)"
    "length (ct_entries (ks_tables (cap_destroy_entry p i s) p)) = length (ct_entries (ks_tables s p))"
  using assms by (auto simp: cap_destroy_entry_def Let_def entry_at_def upd_entry_tables nth_list_update)

lemma cap_destroy_fold_at:
  assumes "distinct is" and "\<forall>i \<in> set is. i < length (ct_entries (ks_tables s p))"
  shows "entry_at (fold (cap_destroy_entry p) is s) p j =
    (if j \<in> set is \<and> ce_in_use (entry_at s p j) \<and> ce_state (entry_at s p j) = CAP_STATE_LIVE
     then (entry_at s p j)\<lparr>ce_state := CAP_STATE_FREE, ce_in_use := False\<rparr> else entry_at s p j)"
  using assms
proof (induction "is" arbitrary: s)
  case (Cons i "is")
  have b: "i < length (ct_entries (ks_tables s p))" using Cons.prems(2) by simp
  have "entry_at (fold (cap_destroy_entry p) is (cap_destroy_entry p i s)) p j =
    (if j \<in> set is \<and> ce_in_use (entry_at (cap_destroy_entry p i s) p j) \<and> ce_state (entry_at (cap_destroy_entry p i s) p j) = CAP_STATE_LIVE
     then (entry_at (cap_destroy_entry p i s) p j)\<lparr>ce_state := CAP_STATE_FREE, ce_in_use := False\<rparr>
     else entry_at (cap_destroy_entry p i s) p j)"
    using Cons.prems by (intro Cons.IH) (simp_all add: cap_destroy_entry_at(2) [OF b])
  then show ?case using Cons.prems(1) by (auto simp: cap_destroy_entry_at(1) [OF b])
qed simp

lemma cap_table_destroy_spec:
  assumes "caps_wf s" and "cap_registered s cpu k p"
  shows "caps_wf (cap_table_destroy cpu (Some p) s)"
    and "re_table (ks_registry (cap_table_destroy cpu (Some p) s) cpu k) = None"
    and "re_generation (ks_registry (cap_table_destroy cpu (Some p) s) cpu k) = re_generation (ks_registry s cpu k)"
    and "\<And>c j. (c, j) \<noteq> (cpu, k) \<Longrightarrow> ks_registry (cap_table_destroy cpu (Some p) s) c j = ks_registry s c j"
    and "\<And>q. q \<noteq> p \<Longrightarrow> ks_tables (cap_table_destroy cpu (Some p) s) q = ks_tables s q"
    and "j < CAP_ENTRIES \<Longrightarrow> \<not> (ce_in_use (entry_at (cap_table_destroy cpu (Some p) s) p j) \<and>
           ce_state (entry_at (cap_table_destroy cpu (Some p) s) p j) = CAP_STATE_LIVE)"
proof -
  have b: "cpu < 32" "k < 64" "re_table (ks_registry s cpu k) = Some p" using assms(2) by (auto simp: cap_registered_def)
  have ids: "unat (ct_owner_core (ks_tables s p)) = cpu" "unat (ct_registry_slot (ks_tables s p)) = k"
    using caps_wfD(2,3) [OF assms] small_unat b by auto
  define s2 where "s2 = (if re_uses_bootstrap_storage (ks_registry s cpu k)
    then upd_registry cpu k (\<lambda>r. r\<lparr>re_uses_bootstrap_storage := False\<rparr>)
           ((upd_registry cpu k (\<lambda>r. r\<lparr>re_table := None\<rparr>) s)
             \<lparr>ks_bootstrap_used := (ks_bootstrap_used s)(cpu := False)\<rparr>)
    else upd_registry cpu k (\<lambda>r. r\<lparr>re_table := None\<rparr>) s)"
  have eq: "cap_table_destroy cpu (Some p) s = fold (cap_destroy_entry p) [0..<64] s2"
    using b ids by (simp add: cap_table_destroy_def Let_def s2_def)
  note fr = cap_destroy_fold_frame [of p "[0..<64]" s2]
  have t2: "ks_tables s2 = ks_tables s" by (simp add: s2_def)
  show r1: "re_table (ks_registry (cap_table_destroy cpu (Some p) s) cpu k) = None"
    and r2: "re_generation (ks_registry (cap_table_destroy cpu (Some p) s) cpu k) = re_generation (ks_registry s cpu k)"
    and r3: "\<And>c j. (c, j) \<noteq> (cpu, k) \<Longrightarrow> ks_registry (cap_table_destroy cpu (Some p) s) c j = ks_registry s c j"
    using fr by (auto simp: eq s2_def)
  show t: "\<And>q. q \<noteq> p \<Longrightarrow> ks_tables (cap_table_destroy cpu (Some p) s) q = ks_tables s q"
    using fr by (simp add: eq t2)
  have l: "length (ct_entries (ks_tables s2 p)) = 64" using cap_table_wfD(1) caps_wfD(1) [OF assms] by (simp add: t2)
  show "j < CAP_ENTRIES \<Longrightarrow> \<not> (ce_in_use (entry_at (cap_table_destroy cpu (Some p) s) p j) \<and>
           ce_state (entry_at (cap_table_destroy cpu (Some p) s) p j) = CAP_STATE_LIVE)"
    using cap_destroy_fold_at [of "[0..<64]" s2 p j] l by (simp add: eq)
  have bs: "ks_bootstrap_used (cap_table_destroy cpu (Some p) s) c = ks_bootstrap_used s c"
    if "\<not> (c = cpu \<and> re_uses_bootstrap_storage (ks_registry s cpu k))" for c
    using fr that by (auto simp: eq s2_def)
  show "caps_wf (cap_table_destroy cpu (Some p) s)"
    unfolding caps_wf_def
  proof (intro allI impI)
    fix c j assume cj: "c < MAX_CPUS" "j < CSPACES_PER_CORE"
    let ?s = "cap_table_destroy cpu (Some p) s"
    show "cspace_wf ?s c j"
    proof (cases "(c, j) = (cpu, k)")
      case True
      then show ?thesis using r1 r2 caps_wfD(5) [OF assms] by (simp add: cspace_wf_def)
    next
      case False
      then have r: "ks_registry ?s c j = ks_registry s c j" by (rule r3)
      have tq: "ks_tables ?s q = ks_tables s q" if "re_table (ks_registry s c j) = Some q" for q
        using that t registered_inject [OF assms(1) _ assms(2), of c j] False cj by (auto simp: cap_registered_def)
      have sto: "re_uses_bootstrap_storage (ks_registry s cpu k) = (p = Bootstrap_Table cpu)"
        using assms(1) b by (auto simp: caps_wf_def cspace_wf_def)
      have "ks_bootstrap_used ?s c" if "re_table (ks_registry s c j) = Some (Bootstrap_Table c)" "ks_bootstrap_used s c"
        using that bs [of c] sto registered_inject [OF assms(1) _ assms(2), of c j] False cj by (auto simp: cap_registered_def)
      then show ?thesis
        using assms(1) cj tq unfolding caps_wf_def cspace_wf_def r by auto
    qed
  qed
qed

section \<open>Properties\<close>

text \<open>A state with one fresh table, for the witnesses.\<close>

definition sample_caps :: kstate where
  "sample_caps = snd (cap_table_create 0 (Some 0) sample_state)"

lemma sample_state_caps_wf: "caps_wf sample_state"
  by (simp add: caps_wf_def cspace_wf_def sample_state_def)

lemma sample_create: "cap_table_create 0 (Some 0) sample_state = (Some (Heap_Table 0), sample_caps)"
  by (simp add: sample_caps_def cap_table_create_def sample_state_def upt_conv_Cons Let_def)

lemma sample_caps_fields:
  "ks_tables sample_caps (Heap_Table 0) = fresh_table 0 0 1" "re_table (ks_registry sample_caps 0 0) = Some (Heap_Table 0)"
  by (simp_all add: sample_caps_def cap_table_create_def sample_state_def upt_conv_Cons Let_def)

lemma sample_block_fresh: "block_fresh sample_state b"
  by (simp add: block_fresh_def cap_registered_def sample_state_def)

lemma sample_caps_wf: "caps_wf sample_caps"
  using cap_table_create_wf [OF sample_state_caps_wf sample_block_fresh sample_create] .

lemma sample_registered: "cap_registered sample_caps 0 0 (Heap_Table 0)"
  using sample_caps_fields by (simp add: cap_registered_def)

lemma sample_entry: "i < 64 \<Longrightarrow> entry_at sample_caps (Heap_Table 0) i = zero_entry"
  by (simp add: entry_at_def sample_caps_fields fresh_table_def)

lemma send_rights_valid: "cap_rights_valid CAP_TYPE_ENDPOINT (CAP_RIGHT_ENDPOINT_SEND OR CAP_RIGHT_DELEGATE)"
proof -
  have eq: "rights_of (CAP_RIGHT_ENDPOINT_SEND OR CAP_RIGHT_DELEGATE) = {0, 7}"
    unfolding rights_simps rights_of_or by (simp only: rights_of_bit) auto
  have "{0, 7} \<subseteq> rights_of (cap_valid_rights_for_type CAP_TYPE_ENDPOINT)"
    unfolding cap_valid_rights_for_type.simps k_cap_valid_rights_endpoint_def rights_simps rights_of_or by (simp only: rights_of_bit) auto
  moreover from this have "cap_valid_rights_for_type CAP_TYPE_ENDPOINT \<noteq> 0" by (metis empty_iff insert_subset rights_of_zero)
  ultimately show ?thesis unfolding cap_rights_valid_def cap_transfer_rights_valid_iff eq by blast
qed

lemma word_inc_16: "(g :: u32) < 0xFFFF \<Longrightarrow> g + 1 < 0x10000 \<and> g + 1 \<noteq> 0"
proof -
  assume "g < 0xFFFF"
  then have "unat g < 0xFFFF" by (simp add: word_less_nat_alt)
  moreover from this have "unat (g + 1) = unat g + 1" by (simp add: unat_word_ariths)
  ultimately show ?thesis by (auto simp: word_less_nat_alt)
qed



text \<open>The handle of a slot whose generation has outgrown its 16 bits finds nothing.\<close>

lemma cap_grant_dead_handle:
  assumes "cap_table_wf (ks_tables s p)" and "cap_table_grant cpu (Some p) type obj rights (Some out) s = (0, s', Some h)"
    and "\<And>i. i < CAP_ENTRIES \<Longrightarrow> ce_generation (entry_at s p i) = 0xFFFF"
  shows "cap_table_lookup s' (Some p) h type rights = (-6, None)"
  using assms(2)
proof (cases rule: cap_grant_cases [OF assms(1), of type cpu obj rights "Some out"])
  case (4 i s'')
  then have [simp]: "s'' = s'" and h: "h = cap_handle_of (of_nat i + 1) (ce_generation (entry_at s p i) + 1)"
    using assms(2) by auto
  have i: "i < 64" "entry_at s' p i = cap_grant_entry cpu i type obj rights (entry_at s p i)" "cap_table_wf (ks_tables s' p)"
    using 4(5) by (auto simp: cap_installs_def)
  show ?thesis
    using lookup_by_handle [OF i(3,1)] i(2) assms(3) [OF i(1)]
    by (simp add: h cap_grant_entry_def bh_cap_generation_matches_def take_bit_eq_mask mask_eq_exp_minus_1)
qed (use assms(2) in auto)


lemma cap_delegate_source_handle:
  assumes "cap_table_wf t" and "i < CAP_ENTRIES" and "g < 0x10000"
  shows "cap_delegate_source t (cap_handle_of (of_nat i + 1) g) =
    (if ce_in_use (ct_entries t ! i) \<and> g \<noteq> 0 \<and> ce_generation (ct_entries t ! i) = g \<and> ce_state (ct_entries t ! i) = CAP_STATE_LIVE
     then Some i else None)"
  using assms slot_id_bound [of i] cap_slot_of_id_iff [OF assms(1,2)]
  by (auto simp: cap_delegate_source_def handle_index handle_generation take_bit_16_small bh_cap_generation_matches_def)

definition sample_two :: kstate where
  "sample_two = snd (cap_table_create 0 (Some 1) sample_caps)"

lemma sample_two_facts:
  "caps_wf sample_two" "cap_registered sample_two 0 0 (Heap_Table 0)" "cap_registered sample_two 0 1 (Heap_Table 1)"
  "ks_tables sample_two (Heap_Table 0) = fresh_table 0 0 1" "ks_tables sample_two (Heap_Table 1) = fresh_table 0 1 1"
proof -
  have reg: "ks_registry sample_caps c k = (if c = 0 \<and> k = 0 then \<lparr>re_table = Some (Heap_Table 0), re_generation = 1,
      re_uses_bootstrap_storage = False, re_reserved = False\<rparr> else ks_registry sample_state c k)" for c k
    by (simp add: sample_caps_def cap_table_create_def sample_state_def upt_conv_Cons Let_def)
  have f: "find (\<lambda>i. let r = ks_registry sample_caps 0 i in re_table r = None \<and> \<not> re_reserved r \<and> re_generation r < 0xFFFFF) [0..<64] = Some 1"
    unfolding find_upt_Some_iff by (auto simp: reg sample_state_def)
  have eq: "cap_table_create 0 (Some 1) sample_caps = (Some (Heap_Table 1), sample_two)"
    "ks_registry sample_two 0 0 = ks_registry sample_caps 0 0" "re_table (ks_registry sample_two 0 1) = Some (Heap_Table 1)"
    "ks_tables sample_two = (ks_tables sample_caps)(Heap_Table 1 := fresh_table 0 1 1)"
    unfolding sample_two_def cap_table_create_def f by (simp_all add: Let_def reg fun_eq_iff) (simp_all add: sample_state_def)
  have "block_fresh sample_caps (Some 1)" by (simp add: block_fresh_def cap_registered_def reg sample_state_def)
  then show "caps_wf sample_two" using cap_table_create_wf [OF sample_caps_wf _ eq(1)] by simp
  show "cap_registered sample_two 0 0 (Heap_Table 0)" "cap_registered sample_two 0 1 (Heap_Table 1)"
    using eq(2,3) reg by (simp_all add: cap_registered_def)
  show "ks_tables sample_two (Heap_Table 0) = fresh_table 0 0 1" "ks_tables sample_two (Heap_Table 1) = fresh_table 0 1 1"
    using eq(4) by (simp_all add: sample_caps_fields)
qed

text \<open>The first table with a capability that may be delegated.\<close>

lemma sample_grant:
  obtains i s where "i < CAP_ENTRIES" "caps_wf s" "cap_registered s 0 0 (Heap_Table 0)" "cap_registered s 0 1 (Heap_Table 1)"
    "entry_at s (Heap_Table 0) i = cap_grant_entry 0 i CAP_TYPE_ENDPOINT 5 (CAP_RIGHT_ENDPOINT_SEND OR CAP_RIGHT_DELEGATE) zero_entry"
    "ks_tables s (Heap_Table 1) = fresh_table 0 1 1"
    "cap_table_grant 0 (Some (Heap_Table 0)) CAP_TYPE_ENDPOINT 5 (CAP_RIGHT_ENDPOINT_SEND OR CAP_RIGHT_DELEGATE) (Some 0) sample_two
       = (0, s, Some (cap_handle_of (of_nat i + 1) 1))"
    "\<And>j. j < CAP_ENTRIES \<Longrightarrow> j \<noteq> i \<Longrightarrow> entry_at s (Heap_Table 0) j = zero_entry"
proof (cases rule: cap_grant_cases [OF caps_wfD(1) [OF sample_two_facts(1,2)],
      of CAP_TYPE_ENDPOINT 0 5 "CAP_RIGHT_ENDPOINT_SEND OR CAP_RIGHT_DELEGATE" "Some 0"])
  case 3
  then show ?thesis using lessThan_iff [of 0 "64 :: nat"] unfolding sample_two_facts fresh_table_used by force
next
  case (4 i s)
  have z: "entry_at sample_two (Heap_Table 0) j = zero_entry" if "j < 64" for j
    using that by (simp add: entry_at_def sample_two_facts fresh_table_def)
  show ?thesis
    using that [of i s] 4(4,5) z sample_two_facts installs_caps_wf [OF sample_two_facts(1) 4(5)]
    by (auto simp: cap_installs_def cap_registered_def zero_entry_def)
qed (use send_rights_valid in \<open>auto simp: rights_simps\<close>)

lemma send_rights:
  "rights_of (CAP_RIGHT_ENDPOINT_SEND OR CAP_RIGHT_DELEGATE) = {0, 7}" "rights_of CAP_RIGHT_ENDPOINT_SEND = {0}"
  unfolding rights_simps rights_of_or by (simp_all only: rights_of_bit) auto

lemma send_valid: "cap_rights_valid CAP_TYPE_ENDPOINT CAP_RIGHT_ENDPOINT_SEND"
  using send_rights_valid send_rights by (auto simp: cap_rights_valid_def cap_transfer_rights_valid_iff)


text \<open>
  C14: A new capability table is empty and has an identity of its own. Its locators resolve to it;
  no other registered table has its identity and none is touched; and a locator that names an
  earlier table of the same or any other registry slot (an identity with a generation the slot has
  already used) does not resolve to it.
\<close>

theorem cap_table_create_identity:
  assumes "caps_wf s" and "block_fresh s block" and "cap_table_create cpu block s = (Some p, s')"
  shows "caps_wf s' \<and> (\<exists>k. cap_registered s' cpu k p) \<and> (\<forall>i < CAP_ENTRIES. \<not> ce_in_use (entry_at s' p i)) \<and>
    (\<forall>c k q. cap_registered s c k q \<longrightarrow> cap_registered s' c k q \<and> ks_tables s' q = ks_tables s q \<and>
       ct_cspace_id (ks_tables s' q) \<noteq> ct_cspace_id (ks_tables s' p)) \<and>
    (\<forall>i g r. i < CAP_ENTRIES \<longrightarrow> cap_locator_resolve_table s' (cap_locator_make (Some (ks_tables s' p)) i g r) = Some p) \<and>
    (\<forall>l c k g. c < MAX_CPUS \<longrightarrow> k < CSPACES_PER_CORE \<longrightarrow> g \<le> re_generation (ks_registry s c k) \<longrightarrow>
       loc_cspace_id l = cap_cspace_id_make (of_nat c) (of_nat k) g \<longrightarrow> cap_locator_resolve_table s' l \<noteq> Some p)"
proof (cases rule: cap_table_create_cases [OF assms(1,2), of cpu])
  case (2 k p' s'')
  then have [simp]: "s'' = s'" "p' = p" using assms(3) by auto
  have wf': "caps_wf s'" by (rule cap_table_create_wf [OF assms])
  note reg = 2(7) [simplified]
  have keep: "cap_registered s' c j q \<and> ks_tables s' q = ks_tables s q" if "cap_registered s c j q" for c j q
    using that 2(4,6,8,10) by (cases "(c, j) = (cpu, k)") (auto simp: cap_registered_def)
  have "ct_cspace_id (ks_tables s' q) \<noteq> ct_cspace_id (ks_tables s' p)" if "cap_registered s c j q" for c j q
    using registered_id_unique [OF wf' conjunct1 [OF keep [OF that]] reg] that 2(6) by auto
  moreover have "\<not> ce_in_use (entry_at s' p i)" if "i < 64" for i
    using that 2(8) by (simp add: entry_at_def fresh_table_def zero_entry_def)
  moreover have "cap_locator_resolve_table s' l \<noteq> Some p"
    if "c < 32" "j < 64" "g \<le> re_generation (ks_registry s c j)" "loc_cspace_id l = cap_cspace_id_make (of_nat c) (of_nat j) g" for l c j g
  proof
    assume "cap_locator_resolve_table s' l = Some p"
    then have "cap_cspace_id_make (of_nat c) (of_nat j) g = cap_cspace_id_make (of_nat cpu) (of_nat k) (re_generation (ks_registry s' cpu k))"
      using resolve_Some that(4) caps_wfD(4) [OF wf' reg] by metis
    moreover have "g \<le> 0xFFFFF" using that(1-3) assms(1) unfolding caps_wf_def cspace_wf_def by (meson order_trans)
    ultimately have "c = cpu \<and> j = k \<and> g = re_generation (ks_registry s' cpu k)"
      using that(1,2) 2(2,3) caps_wfD(5) [OF wf' reg] by (intro cspace_id_inject) auto
    then have "re_generation (ks_registry s cpu k) + 1 \<le> re_generation (ks_registry s cpu k)" using 2(9) that(3) by simp
    then show False using word_inc_bound [OF 2(5)] leD by blast
  qed
  ultimately show ?thesis using wf' reg keep resolve_registered [OF wf' reg] by blast
qed (use assms(3) in simp)

theorem cap_table_create_identity_witness:
  "caps_wf sample_caps \<and> \<not> ce_in_use (entry_at sample_caps (Heap_Table 0) 63)"
  using cap_table_create_identity [OF sample_state_caps_wf sample_block_fresh sample_create] by simp

lemma slot_ucast: "i < CAP_ENTRIES \<Longrightarrow> (ucast (of_nat i :: u16) :: u32) = of_nat i"
  using small_unat(3) [of i] by (metis of_nat_unat)

lemma epoch_ucast: "(e :: u64) < 2 ^ 32 \<Longrightarrow> ucast (ucast e :: u32) = e"
proof -
  assume "e < 2 ^ 32"
  then have "n < 32" if "bit e n" for n using bit_below [of e 32 n] that by simp
  then show ?thesis by (intro bit_word_eqI) (auto simp: bit_simps)
qed

lemma generation_bound: "bh_cap_generation h < 0x10000"
proof -
  have "unat (drop_bit 16 h) = unat h div 2 ^ 16" unfolding drop_bit_eq_div by (simp add: unat_div)
  moreover have "unat h < 2 ^ 32" using unsigned_less [of h] by simp
  ultimately have "unat (drop_bit 16 h) < 65536" by simp
  then show ?thesis by (simp add: bh_cap_generation_def word_less_nat_alt)
qed

lemma transfer_capture_install:
  assumes "caps_wf s" and "cap_registered s cpu k src" and "cap_registered s cpu k' dst"
    and "bh_cap_transfer_capture cpu (Some src) h rights (Some x) s = (K_OK, Some l)"
    and "ida_used (ct_id_allocator (ks_tables s dst)) \<noteq> {..<CAP_ENTRIES}"
    and "\<And>i. i < CAP_ENTRIES \<Longrightarrow> ce_revocation_epoch (entry_at s src i) < 2 ^ 32"
  shows "(\<exists>s' j. j < CAP_ENTRIES \<and> caps_wf s' \<and>
       bh_cap_transfer_install cpu (Some l) (Some dst) rights (Some y) s =
         (K_OK, s', Some (cap_handle_of (of_nat j + 1) (ce_generation (entry_at s' dst j)))) \<and>
       ce_in_use (entry_at s' dst j) \<and> ce_state (entry_at s' dst j) = CAP_STATE_LIVE \<and>
       ce_rights (entry_at s' dst j) = rights \<and>
       ce_object_ref (entry_at s' dst j) = ce_object_ref (entry_at s src (unat (loc_slot l))) \<and>
       rights_of rights \<subseteq> rights_of (ce_rights (entry_at s src (unat (loc_slot l))))) \<and>
    (\<forall>t. caps_wf t \<longrightarrow> (\<forall>p. cap_locator_resolve_table t l = Some p \<longrightarrow>
         \<not> ce_in_use (entry_at t p (unat (loc_slot l))) \<or> ce_state (entry_at t p (unat (loc_slot l))) \<noteq> CAP_STATE_LIVE \<or>
         ce_generation (entry_at t p (unat (loc_slot l))) \<noteq> loc_generation l) \<longrightarrow>
       (\<exists>st. st \<noteq> K_OK \<and> bh_cap_transfer_install cpu (Some l) (Some dst) rights (Some y) t = (st, t, Some 0)))"
proof -
  have b: "cpu < 32" "k < 64" "k' < 64" "re_table (ks_registry s cpu k) = Some src" "re_table (ks_registry s cpu k') = Some dst"
    using assms(2,3) by (auto simp: cap_registered_def)
  note wf = caps_wfD(1) [OF assms(1,2)] caps_wfD(1) [OF assms(1,3)]
  have ids: "unat (ct_owner_core (ks_tables s src)) = cpu" "unat (ct_registry_slot (ks_tables s src)) = k"
    "unat (ct_owner_core (ks_tables s dst)) = cpu" "unat (ct_registry_slot (ks_tables s dst)) = k'"
    "ct_cspace_id (ks_tables s src) \<noteq> 0"
    using caps_wfD(2,3,4,5) [OF assms(1,2)] caps_wfD(2,3) [OF assms(1,3)] small_unat b cspace_id_slot(2) by auto
  obtain i where i: "i < 64" "ce_in_use (entry_at s src i)" "ce_id (entry_at s src i) = bh_cap_index h"
      "bh_cap_generation_matches (ce_generation (entry_at s src i)) (bh_cap_generation h)"
      "ce_state (entry_at s src i) = CAP_STATE_LIVE" "ce_rights (entry_at s src i) AND CAP_RIGHT_DELEGATE \<noteq> 0"
      "cap_can_transfer (ce_type (entry_at s src i)) (ce_rights (entry_at s src i)) rights"
    and l: "l = cap_locator_make (Some (ks_tables s src)) i (ce_generation (entry_at s src i)) (ucast (ce_revocation_epoch (entry_at s src i)))"
    and nz: "rights \<noteq> CAP_RIGHT_NONE"
    using assms(4) b ids
    by (auto simp: bh_cap_transfer_capture_def Let_def find_upt_Some_iff entry_at_def status_simps
             split: if_splits option.splits)
  have lf: "unat (loc_slot l) = i" "loc_generation l = ce_generation (entry_at s src i)" "unat (loc_owner_core l) = cpu"
      "loc_revocation_epoch l = ucast (ce_revocation_epoch (entry_at s src i))"
    "(ucast (loc_slot l) :: u32) = of_nat i"
    using i(1) ids small_unat [of i] slot_ucast [of i] unfolding l by (auto simp: cap_locator_make_def)
  have g: "loc_generation l < 0x10000" "loc_generation l \<noteq> 0"
    using i(4) lf(2) generation_bound [of h] by (auto simp: bh_cap_generation_matches_def)
  have ep: "ucast (loc_revocation_epoch l) = ce_revocation_epoch (entry_at s src i)"
    unfolding lf(4) by (rule epoch_ucast [OF assms(6) [OF i(1)]])
  let ?h = "cap_handle_of (ucast (loc_slot l) + 1) (loc_generation l)"
  have res: "cap_locator_resolve_table s l = Some src"
    unfolding l using resolve_registered [OF assms(1,2) i(1)] by simp
  have source: "cap_delegate_source (ks_tables s src) ?h = Some i"
    using cap_delegate_source_handle [OF wf(1) i(1) g(1)] i g(2) lf(2,5) by (simp add: entry_at_def)
  have ok: "rights_of rights \<subseteq> rights_of (ce_rights (entry_at s src i))" "cap_rights_valid (ce_type (entry_at s src i)) rights"
    using i(7) by (auto simp: cap_can_transfer_iff cap_rights_valid_def)
  obtain j s' where d: "cap_delegated src i dst j rights s s'"
    "cap_table_delegate_local src dst ?h rights (Some 0) (Some l) s =
      (0, s', map_option (\<lambda>_. cap_handle_of (of_nat j + 1) (ce_generation (entry_at s dst j) + 1)) (Some 0))"
    using cap_delegate_local_ok [OF wf source _ i(6) _ ok(2) nz assms(5), of "Some l" "Some 0"] lf ep ok(1)
    by (auto simp: locator_expects_def rights_subset_and)
  have dj: "j < 64" "entry_at s' dst j = cap_child_entry (ks_tables s src) i (entry_at s src i) rights j (entry_at s dst j)"
    using d(1) by (auto simp: cap_delegated_def)
  have inst: "bh_cap_transfer_install cpu (Some l) (Some dst) rights (Some y) s =
      (K_OK, s', Some (cap_handle_of (of_nat j + 1) (ce_generation (entry_at s' dst j))))"
    unfolding dj(2) using nz b ids lf(1,3) i(1) res d(2)
    by (simp add: bh_cap_transfer_install_def Let_def cap_child_entry_def)
  have "\<exists>st. st \<noteq> K_OK \<and> bh_cap_transfer_install cpu (Some l) (Some dst) rights (Some y) t = (st, t, Some 0)"
    if t: "caps_wf t" and st: "\<And>p. cap_locator_resolve_table t l = Some p \<Longrightarrow>
         \<not> ce_in_use (entry_at t p i) \<or> ce_state (entry_at t p i) \<noteq> CAP_STATE_LIVE \<or> ce_generation (entry_at t p i) \<noteq> loc_generation l" for t
  proof (cases "cap_locator_resolve_table t l")
    case (Some p)
    then have "cap_delegate_source (ks_tables t p) ?h = None"
      using cap_delegate_source_handle [OF caps_wfD(1) [OF t conjunct1 [OF resolve_Some [OF Some]]] i(1) g(1)] st [OF Some] lf(5)
      by (auto simp: entry_at_def)
    then show ?thesis
      using Some nz by (simp add: bh_cap_transfer_install_def cap_table_delegate_local_def Let_def status_simps)
  qed (use nz in \<open>simp add: bh_cap_transfer_install_def status_simps\<close>)
  then show ?thesis
    using inst dj ok(1) delegated_caps_wf [OF assms(1) d(1)] unfolding lf(1)
    by (intro conjI exI [of _ s'] exI [of _ j]) (auto simp: cap_child_entry_def)
qed

text \<open>
  C13: A capability captured for a message can be installed at its receiver, on the same core and
  while the receiver's table has room: the new capability is for the captured object with the
  rights of the message. (The locator keeps 32 bits of the revocation epoch, so this is for
  epochs below \<open>2 ^ 32\<close>.) If meanwhile the captured capability was removed, or its slot reused, the
  installation fails and changes nothing.
\<close>

theorem cap_transfer_capture_install:
  assumes "caps_wf s" and "cap_registered s cpu k src" and "cap_registered s cpu k' dst"
    and "bh_cap_transfer_capture cpu (Some src) h rights (Some x) s = (K_OK, Some l)"
    and "ida_used (ct_id_allocator (ks_tables s dst)) \<noteq> {..<CAP_ENTRIES}"
    and "\<And>i. i < CAP_ENTRIES \<Longrightarrow> ce_revocation_epoch (entry_at s src i) < 2 ^ 32"
  shows "(\<exists>s' j. j < CAP_ENTRIES \<and> caps_wf s' \<and>
       bh_cap_transfer_install cpu (Some l) (Some dst) rights (Some y) s =
         (K_OK, s', Some (cap_handle_of (of_nat j + 1) (ce_generation (entry_at s' dst j)))) \<and>
       ce_in_use (entry_at s' dst j) \<and> ce_state (entry_at s' dst j) = CAP_STATE_LIVE \<and>
       ce_rights (entry_at s' dst j) = rights \<and>
       ce_object_ref (entry_at s' dst j) = ce_object_ref (entry_at s src (unat (loc_slot l))) \<and>
       rights_of rights \<subseteq> rights_of (ce_rights (entry_at s src (unat (loc_slot l))))) \<and>
    (\<forall>t. caps_wf t \<longrightarrow> (\<forall>p. cap_locator_resolve_table t l = Some p \<longrightarrow>
         \<not> ce_in_use (entry_at t p (unat (loc_slot l))) \<or> ce_state (entry_at t p (unat (loc_slot l))) \<noteq> CAP_STATE_LIVE \<or>
         ce_generation (entry_at t p (unat (loc_slot l))) \<noteq> loc_generation l) \<longrightarrow>
       (\<exists>st. st \<noteq> K_OK \<and> bh_cap_transfer_install cpu (Some l) (Some dst) rights (Some y) t = (st, t, Some 0)))"
  by (rule transfer_capture_install [OF assms])

lemma cap_capture_handle:
  assumes "caps_wf s" and "cap_registered s cpu k p" and "i < CAP_ENTRIES" and "g < 0x10000" "g \<noteq> 0"
    and "ce_in_use (entry_at s p i)" "ce_state (entry_at s p i) = CAP_STATE_LIVE" "ce_generation (entry_at s p i) = g"
    and "ce_rights (entry_at s p i) AND CAP_RIGHT_DELEGATE \<noteq> 0" "rights \<noteq> CAP_RIGHT_NONE"
    and "cap_can_transfer (ce_type (entry_at s p i)) (ce_rights (entry_at s p i)) rights"
  shows "bh_cap_transfer_capture cpu (Some p) (cap_handle_of (of_nat i + 1) g) rights (Some x) s =
    (K_OK, Some (cap_locator_make (Some (ks_tables s p)) i g (ucast (ce_revocation_epoch (entry_at s p i)))))"
proof -
  let ?t = "ks_tables s p" and ?h = "cap_handle_of (of_nat i + 1) g"
  have b: "cpu < 32" "k < 64" "re_table (ks_registry s cpu k) = Some p" using assms(2) by (auto simp: cap_registered_def)
  have ids: "unat (ct_owner_core ?t) = cpu" "unat (ct_registry_slot ?t) = k" "ct_cspace_id ?t \<noteq> 0"
    using caps_wfD(2-5) [OF assms(1,2)] small_unat b cspace_id_slot(2) by auto
  have id_i: "bh_cap_index ?h = of_nat i + 1" "bh_cap_generation ?h = g"
    using handle_index handle_generation slot_id_bound [OF assms(3)] take_bit_16_small [OF assms(4)] by auto
  have "\<not> (ce_in_use (ct_entries ?t ! j) \<and> ce_id (ct_entries ?t ! j) = of_nat i + 1)" if "j < i" for j
    using cap_table_wfD(4) [OF caps_wfD(1) [OF assms(1,2)], of j] slot_id_inject [OF _ assms(3), of j] that assms(3) by auto
  moreover have "ce_id (ct_entries ?t ! i) = of_nat i + 1"
    using cap_table_wfD(4) [OF caps_wfD(1) [OF assms(1,2)] assms(3)] assms(6) by (simp add: entry_at_def)
  ultimately have "find (\<lambda>j. let e = ct_entries ?t ! j
      in ce_in_use e \<and> ce_id e = bh_cap_index ?h \<and> bh_cap_generation_matches (ce_generation e) (bh_cap_generation ?h) \<and>
         ce_state e = CAP_STATE_LIVE \<and> ce_rights e AND CAP_RIGHT_DELEGATE \<noteq> 0 \<and>
         cap_can_transfer (ce_type e) (ce_rights e) rights) [0..<64] = Some i"
    unfolding find_upt_Some_iff id_i Let_def
    using assms by (auto simp: entry_at_def bh_cap_generation_matches_def)
  then show ?thesis
    unfolding bh_cap_transfer_capture_def Let_def using b ids assms(8,10) by (simp add: entry_at_def)
qed

theorem cap_transfer_capture_install_witness:
  "\<exists>s h l s' h'. cap_table_grant 0 (Some (Heap_Table 0)) CAP_TYPE_ENDPOINT 5 (CAP_RIGHT_ENDPOINT_SEND OR CAP_RIGHT_DELEGATE) (Some 0)
       sample_two = (0, s, Some h) \<and>
     bh_cap_transfer_capture 0 (Some (Heap_Table 0)) h CAP_RIGHT_ENDPOINT_SEND (Some zero_locator) s = (K_OK, Some l) \<and>
     bh_cap_transfer_install 0 (Some l) (Some (Heap_Table 1)) CAP_RIGHT_ENDPOINT_SEND (Some 0) s = (K_OK, s', Some h')"
proof (rule sample_grant)
  fix i s assume A: "i < CAP_ENTRIES" "caps_wf s" "cap_registered s 0 0 (Heap_Table 0)" "cap_registered s 0 1 (Heap_Table 1)"
    "entry_at s (Heap_Table 0) i = cap_grant_entry 0 i CAP_TYPE_ENDPOINT 5 (CAP_RIGHT_ENDPOINT_SEND OR CAP_RIGHT_DELEGATE) zero_entry"
    "ks_tables s (Heap_Table 1) = fresh_table 0 1 1"
    "cap_table_grant 0 (Some (Heap_Table 0)) CAP_TYPE_ENDPOINT 5 (CAP_RIGHT_ENDPOINT_SEND OR CAP_RIGHT_DELEGATE) (Some 0) sample_two
       = (0, s, Some (cap_handle_of (of_nat i + 1) 1))"
    and others: "\<And>j. j < CAP_ENTRIES \<Longrightarrow> j \<noteq> i \<Longrightarrow> entry_at s (Heap_Table 0) j = zero_entry"
  have can: "cap_can_transfer CAP_TYPE_ENDPOINT (CAP_RIGHT_ENDPOINT_SEND OR CAP_RIGHT_DELEGATE) CAP_RIGHT_ENDPOINT_SEND"
    using send_valid send_rights by (simp add: cap_can_transfer_iff cap_rights_valid_def)
  have cap: "bh_cap_transfer_capture 0 (Some (Heap_Table 0)) (cap_handle_of (of_nat i + 1) 1) CAP_RIGHT_ENDPOINT_SEND (Some zero_locator) s =
      (K_OK, Some (cap_locator_make (Some (ks_tables s (Heap_Table 0))) i 1 (ucast (ce_revocation_epoch (entry_at s (Heap_Table 0) i)))))"
    by (rule cap_capture_handle [OF A(2,3,1)])
       (use A(5) can in \<open>simp_all add: cap_grant_entry_def zero_entry_def rights_simps\<close>)
  have room: "ida_used (ct_id_allocator (ks_tables s (Heap_Table 1))) \<noteq> {..<64}"
    using lessThan_iff [of 0 "64 :: nat"] unfolding A(6) fresh_table_used by force
  have "ce_revocation_epoch (entry_at s (Heap_Table 0) j) < 2 ^ 32" if "j < 64" for j
    using A(5) others [OF that] by (cases "j = i") (simp_all add: cap_grant_entry_def zero_entry_def)
  from cap_transfer_capture_install [OF A(2-4) cap room this, of 0] A(7) cap show ?thesis by blast
qed

end
