(* ===== verification/Cap_Validate.thy ===== *)
theory Cap_Validate
  imports Cap_Space_Inv
begin

text \<open>
  Validation of capabilities (src/core/kernel/src/cap/cap_dispatch.c, lines 259 to 640, and
  src/core/kernel/include/capability/cap_lookup.h): the checks of a validation request, pinning, the
  typed lookups and their system call wrappers, and the resolver the services use through
  src/core/lib/cap/src/cap_validate.c and cap_authz.c. Audit logging does not appear.
\<close>

unbundle bit_operations_syntax

section \<open>Requests\<close>

definition cap_validate_rights_internal :: "u64 \<Rightarrow> u64 \<Rightarrow> kstatus" where
  "cap_validate_rights_internal entry_rights required_rights =
     (if entry_rights AND required_rights \<noteq> required_rights then K_ERR_CAP_DENIED else K_OK)"

definition cap_validate_object_type_internal :: "cap_type \<Rightarrow> cap_type \<Rightarrow> kstatus" where
  "cap_validate_object_type_internal entry_type expected_type =
     (if expected_type \<noteq> CAP_TYPE_NONE \<and> entry_type \<noteq> expected_type then K_ERR_CAP_WRONG_TYPE else K_OK)"

definition cap_validate_scope_internal :: "capability_table \<Rightarrow> u64 \<Rightarrow> kstatus" where
  "cap_validate_scope_internal table requester_pid =
     (if requester_pid = 0 then K_OK
      else if ct_owner_pid table \<noteq> 0 \<and> ct_owner_pid table \<noteq> requester_pid then K_ERR_CAP_DENIED
      else K_OK)"

definition cap_validate_generation_internal :: "u32 \<Rightarrow> u64 \<Rightarrow> kstatus" where
  "cap_validate_generation_internal entry_gen expected_gen =
     (if expected_gen \<noteq> 0 \<and> ucast expected_gen \<noteq> entry_gen then K_ERR_CAP_STALE else K_OK)"

text \<open>The checks of one entry, which both validation routines run in this order.\<close>

definition cap_validate_checks :: "capability_table \<Rightarrow> cap_validation_request \<Rightarrow> capability_entry \<Rightarrow> kstatus" where
  "cap_validate_checks table req e =
     (if \<not> bh_cap_generation_matches (ce_generation e) (bh_cap_generation (rq_cap_id req)) then K_ERR_CAP_STALE
      else let status = cap_validate_generation_internal (ce_generation e) (rq_expected_generation req)
      in if status \<noteq> K_OK then status
      else if ce_state e \<noteq> CAP_STATE_LIVE then K_ERR_CAP_REVOKED
      else let status = cap_validate_object_type_internal (ce_type e) (rq_expected_object_type req)
      in if status \<noteq> K_OK then status
      else let status = cap_validate_rights_internal (ce_rights e) (rq_required_rights req)
      in if status \<noteq> K_OK then status
      else cap_validate_scope_internal table (rq_requester_pid req))"

text \<open>The copy of the entry goes to the caller if the status is \<^const>\<open>K_OK\<close>.\<close>

definition cap_validate_ex ::
    "kstate \<Rightarrow> tptr option \<Rightarrow> cap_validation_request option \<Rightarrow> kstatus \<times> capability_entry option" where
  "cap_validate_ex s table req =
     (case (table, req) of
        (Some p, Some r) \<Rightarrow>
          (case cap_slot_of_id (ks_tables s p) (bh_cap_index (rq_cap_id r)) of
             None \<Rightarrow> (K_ERR_NOT_FOUND, None)
           | Some i \<Rightarrow>
             let status = cap_validate_checks (ks_tables s p) r (entry_at s p i)
             in (status, if status = K_OK then Some (entry_at s p i) else None))
      | _ \<Rightarrow> (K_ERR_INVALID_ARG, None))"

definition cap_validate_and_pin ::
    "tptr option \<Rightarrow> cap_validation_request option \<Rightarrow> u32 option \<Rightarrow> kstate \<Rightarrow>
     kstatus \<times> capability_entry option \<times> u32 option \<times> kstate" where
  "cap_validate_and_pin table req out_pinned_slot s =
     (case (table, req, out_pinned_slot) of
        (Some p, Some r, Some _) \<Rightarrow>
          (case cap_slot_of_id (ks_tables s p) (bh_cap_index (rq_cap_id r)) of
             None \<Rightarrow> (K_ERR_NOT_FOUND, None, Some (- 1), s)
           | Some i \<Rightarrow>
             let status = cap_validate_checks (ks_tables s p) r (entry_at s p i)
             in if status = K_OK
                then let s1 = upd_entry p i (\<lambda>e. e\<lparr>ce_active_pins := ce_active_pins e + 1\<rparr>) s
                     in (K_OK, Some (entry_at s1 p i), Some (of_nat i), s1)
                else (status, None, Some (- 1), s))
      | _ \<Rightarrow> (K_ERR_INVALID_ARG, None, out_pinned_slot, s))"

definition cap_unpin :: "tptr option \<Rightarrow> u32 \<Rightarrow> kstate \<Rightarrow> kstate" where
  "cap_unpin table pinned_slot s =
     (case table of None \<Rightarrow> s
      | Some p \<Rightarrow>
        if unat pinned_slot \<ge> CAP_ENTRIES then s
        else let e = entry_at s p (unat pinned_slot)
             in if ce_in_use e \<and> ce_active_pins e > 0
                then upd_entry p (unat pinned_slot) (\<lambda>e. e\<lparr>ce_active_pins := ce_active_pins e - 1\<rparr>) s
                else s)"

section \<open>Typed lookups\<close>

text \<open>The request the typed lookups share: the handle's own generation, the table's own process.\<close>

definition cap_lookup_request :: "capability_table \<Rightarrow> u32 \<Rightarrow> cap_type \<Rightarrow> u64 \<Rightarrow> cap_validation_request" where
  "cap_lookup_request table cap_id type required_rights =
     \<lparr>rq_cap_id = cap_id, rq_expected_object_type = type, rq_required_rights = required_rights,
      rq_requester_pid = ct_owner_pid table, rq_expected_generation = ucast (bh_cap_generation cap_id)\<rparr>"

definition cap_lookup_typed ::
    "kstate \<Rightarrow> tptr option \<Rightarrow> u32 \<Rightarrow> cap_type \<Rightarrow> u64 \<Rightarrow> 'a option \<Rightarrow> kstatus \<times> capability_entry option" where
  "cap_lookup_typed s table cap_id type required_rights out =
     (case (table, out) of
        (Some p, Some _) \<Rightarrow>
          if \<not> bh_cap_is_valid_encoding cap_id then (K_ERR_CAP_INVALID, None)
          else cap_validate_ex s table (Some (cap_lookup_request (ks_tables s p) cap_id type required_rights))
      | _ \<Rightarrow> (K_ERR_INVALID_ARG, None))"

record bh_thread_object = tho_tid :: u64  tho_thread :: u64
record bh_process_object = pro_pid :: u32  pro_process :: u64
record bh_memory_object = meo_base :: u64  meo_size :: nat  meo_flags :: u32
record bh_endpoint_object = epo_endpoint_id :: u64  epo_endpoint_ref :: u64

definition cap_lookup_thread ::
    "kstate \<Rightarrow> tptr option \<Rightarrow> u32 \<Rightarrow> u64 \<Rightarrow> bh_thread_object option \<Rightarrow> kstatus \<times> bh_thread_object option" where
  "cap_lookup_thread s table cap_id rights out =
     (case cap_lookup_typed s table cap_id CAP_TYPE_THREAD rights out of
        (st, Some e) \<Rightarrow> (st, Some \<lparr>tho_tid = ce_object_ref e, tho_thread = ce_object_ref e\<rparr>)
      | (st, None) \<Rightarrow> (st, out))"

text \<open>\<open>process_id\<close> reads the number of the process at an address.\<close>

definition cap_lookup_process ::
    "(u64 \<Rightarrow> u64) \<Rightarrow> kstate \<Rightarrow> tptr option \<Rightarrow> u32 \<Rightarrow> u64 \<Rightarrow> bh_process_object option \<Rightarrow> kstatus \<times> bh_process_object option" where
  "cap_lookup_process process_id s table cap_id rights out =
     (case cap_lookup_typed s table cap_id CAP_TYPE_PROCESS rights out of
        (st, Some e) \<Rightarrow> (st, Some \<lparr>pro_pid = (if ce_object_ref e \<noteq> 0 then ucast (process_id (ce_object_ref e)) else 0),
                                    pro_process = ce_object_ref e\<rparr>)
      | (st, None) \<Rightarrow> (st, out))"

definition cap_lookup_memory ::
    "kstate \<Rightarrow> tptr option \<Rightarrow> u32 \<Rightarrow> u64 \<Rightarrow> bh_memory_object option \<Rightarrow> kstatus \<times> bh_memory_object option" where
  "cap_lookup_memory s table cap_id rights out =
     (case cap_lookup_typed s table cap_id CAP_TYPE_MEMORY rights out of
        (st, Some e) \<Rightarrow> (st, Some \<lparr>meo_base = ce_object_ref e, meo_size = 4096, meo_flags = ce_flags e\<rparr>)
      | (st, None) \<Rightarrow> (st, out))"

definition cap_lookup_endpoint ::
    "kstate \<Rightarrow> tptr option \<Rightarrow> u32 \<Rightarrow> u64 \<Rightarrow> bh_endpoint_object option \<Rightarrow> kstatus \<times> bh_endpoint_object option" where
  "cap_lookup_endpoint s table cap_id rights out =
     (case cap_lookup_typed s table cap_id CAP_TYPE_ENDPOINT rights out of
        (st, Some e) \<Rightarrow> (st, Some \<lparr>epo_endpoint_id = ucast (ce_id e), epo_endpoint_ref = ce_object_ref e\<rparr>)
      | (st, None) \<Rightarrow> (st, out))"

section \<open>Lookups of system calls\<close>

text \<open>
  The context of a system call is its process, as its number and its capability table; the handle
  is the low half of a register.
\<close>

type_synonym syscall_ctx = "(u64 \<times> tptr option) option option"

definition ctx_table :: "syscall_ctx \<Rightarrow> tptr option" where
  "ctx_table ctx = (case ctx of Some (Some (_, t)) \<Rightarrow> t | _ \<Rightarrow> None)"

definition ctx_pid :: "syscall_ctx \<Rightarrow> u64" where
  "ctx_pid ctx = (case ctx of Some (Some (pid, _)) \<Rightarrow> pid | _ \<Rightarrow> 0)"

definition bh_syscall_cap_lookup_thread ::
    "kstate \<Rightarrow> syscall_ctx \<Rightarrow> u64 \<Rightarrow> u64 \<Rightarrow> bh_thread_object option \<Rightarrow> kstatus \<times> bh_thread_object option" where
  "bh_syscall_cap_lookup_thread s ctx cap_id rights out =
     (if ctx_table ctx = None then (K_ERR_DENIED, out) else cap_lookup_thread s (ctx_table ctx) (ucast cap_id) rights out)"

definition bh_syscall_cap_lookup_memory ::
    "kstate \<Rightarrow> syscall_ctx \<Rightarrow> u64 \<Rightarrow> u64 \<Rightarrow> bh_memory_object option \<Rightarrow> kstatus \<times> bh_memory_object option" where
  "bh_syscall_cap_lookup_memory s ctx cap_id rights out =
     (if ctx_table ctx = None then (K_ERR_DENIED, out) else cap_lookup_memory s (ctx_table ctx) (ucast cap_id) rights out)"

definition bh_syscall_cap_lookup_process ::
    "(u64 \<Rightarrow> u64) \<Rightarrow> kstate \<Rightarrow> syscall_ctx \<Rightarrow> u64 \<Rightarrow> u64 \<Rightarrow> bh_process_object option \<Rightarrow> kstatus \<times> bh_process_object option" where
  "bh_syscall_cap_lookup_process process_id s ctx cap_id rights out =
     (if ctx_table ctx = None then (K_ERR_DENIED, out)
      else cap_lookup_process process_id s (ctx_table ctx) (ucast cap_id) rights out)"

definition bh_syscall_cap_lookup_endpoint ::
    "kstate \<Rightarrow> syscall_ctx \<Rightarrow> u64 \<Rightarrow> u64 \<Rightarrow> bh_endpoint_object option \<Rightarrow> kstatus \<times> bh_endpoint_object option" where
  "bh_syscall_cap_lookup_endpoint s ctx cap_id rights out =
     (if ctx_table ctx = None then (K_ERR_DENIED, out) else cap_lookup_endpoint s (ctx_table ctx) (ucast cap_id) rights out)"

definition bh_syscall_cap_lookup_ref ::
    "cap_type \<Rightarrow> kstate \<Rightarrow> syscall_ctx \<Rightarrow> u64 \<Rightarrow> u64 \<Rightarrow> u64 option \<Rightarrow> kstatus \<times> u64 option" where
  "bh_syscall_cap_lookup_ref type s ctx cap_id rights out_ref =
     (case ctx_table ctx of None \<Rightarrow> (K_ERR_DENIED, out_ref)
      | Some p \<Rightarrow>
        if \<not> bh_cap_is_valid_encoding (ucast cap_id) then (K_ERR_CAP_INVALID, out_ref)
        else case cap_validate_ex s (Some p) (Some \<lparr>rq_cap_id = ucast cap_id, rq_expected_object_type = type,
                    rq_required_rights = rights, rq_requester_pid = ctx_pid ctx,
                    rq_expected_generation = ucast (bh_cap_generation (ucast cap_id))\<rparr>) of
               (st, Some e) \<Rightarrow> (st, map_option (\<lambda>_. ce_object_ref e) out_ref)
             | (st, None) \<Rightarrow> (st, out_ref))"

definition bh_syscall_cap_lookup_fault_domain ::
    "kstate \<Rightarrow> syscall_ctx \<Rightarrow> u64 \<Rightarrow> u64 \<Rightarrow> u64 option \<Rightarrow> kstatus \<times> u64 option" where
  "bh_syscall_cap_lookup_fault_domain = bh_syscall_cap_lookup_ref CAP_TYPE_PROCESS"

definition bh_syscall_cap_lookup_sched_control ::
    "kstate \<Rightarrow> syscall_ctx \<Rightarrow> u64 \<Rightarrow> u64 \<Rightarrow> u64 option \<Rightarrow> kstatus \<times> u64 option" where
  "bh_syscall_cap_lookup_sched_control = bh_syscall_cap_lookup_ref CAP_TYPE_SCHED"

section \<open>The authority resolver\<close>

datatype bharat_cap_status =
    BHARAT_CAP_OK | BHARAT_CAP_INVALID | BHARAT_CAP_NOT_FOUND | BHARAT_CAP_REVOKED | BHARAT_CAP_RIGHTS_DENIED
  | BHARAT_CAP_SCOPE_DENIED | BHARAT_CAP_OBJECT_MISMATCH | BHARAT_CAP_EXPIRED | BHARAT_CAP_STALE | BHARAT_CAP_UNSUPPORTED

datatype bharat_cap_object_type =
    BHARAT_CAP_OBJ_NONE | BHARAT_CAP_OBJ_SERVICE | BHARAT_CAP_OBJ_NET_IFACE | BHARAT_CAP_OBJ_ROUTE_TABLE
  | BHARAT_CAP_OBJ_ENDPOINT | BHARAT_CAP_OBJ_PROCESS | BHARAT_CAP_OBJ_VM_SPACE | BHARAT_CAP_OBJ_DEVICE
  | BHARAT_CAP_OBJ_DMA_DOMAIN

datatype bharat_cap_scope_kind =
    BHARAT_CAP_SCOPE_GLOBAL | BHARAT_CAP_SCOPE_OBJECT | BHARAT_CAP_SCOPE_NAMESPACE | BHARAT_CAP_SCOPE_SERVICE

record bharat_cap_scope =
  sc_kind :: bharat_cap_scope_kind
  sc_scope_id :: u64

record bharat_cap_descriptor =
  bd_handle :: u64
  bd_cap_id :: u64
  bd_parent_cap_id :: u64
  bd_owner_principal_id :: u64
  bd_object_type :: bharat_cap_object_type
  bd_object_id :: u64
  bd_rights :: u64
  bd_scope :: bharat_cap_scope
  bd_generation :: u64
  bd_flags :: u64
  bd_state :: cap_state

record bharat_cap_validation_result =
  vr_allowed :: bool
  vr_status :: bharat_cap_status
  vr_descriptor :: bharat_cap_descriptor

fun map_bharat_type_to_kernel :: "bharat_cap_object_type \<Rightarrow> cap_type" where
  "map_bharat_type_to_kernel BHARAT_CAP_OBJ_NONE = CAP_TYPE_NONE"
| "map_bharat_type_to_kernel BHARAT_CAP_OBJ_SERVICE = CAP_TYPE_NONE"
| "map_bharat_type_to_kernel BHARAT_CAP_OBJ_NET_IFACE = CAP_TYPE_NETDEV"
| "map_bharat_type_to_kernel BHARAT_CAP_OBJ_ROUTE_TABLE = CAP_TYPE_NONE"
| "map_bharat_type_to_kernel BHARAT_CAP_OBJ_ENDPOINT = CAP_TYPE_ENDPOINT"
| "map_bharat_type_to_kernel BHARAT_CAP_OBJ_PROCESS = CAP_TYPE_PROCESS"
| "map_bharat_type_to_kernel BHARAT_CAP_OBJ_VM_SPACE = CAP_TYPE_VM_SPACE"
| "map_bharat_type_to_kernel BHARAT_CAP_OBJ_DEVICE = CAP_TYPE_ACCEL_DEVICE"
| "map_bharat_type_to_kernel BHARAT_CAP_OBJ_DMA_DOMAIN = CAP_TYPE_DMA_DOMAIN"

text \<open>The rights of the services: read, write, execute and grant, the bits 0 to 3.\<close>

definition BHARAT_CAP_RIGHT_READ :: u64 where "BHARAT_CAP_RIGHT_READ = 1"
definition BHARAT_CAP_RIGHT_WRITE :: u64 where "BHARAT_CAP_RIGHT_WRITE = 2"
definition BHARAT_CAP_RIGHT_EXECUTE :: u64 where "BHARAT_CAP_RIGHT_EXECUTE = 4"
definition BHARAT_CAP_RIGHT_GRANT :: u64 where "BHARAT_CAP_RIGHT_GRANT = 8"

text \<open>\<open>if (rights & b) r |= k\<close>, as the value that is or-ed in.\<close>

definition when_right :: "u64 \<Rightarrow> u64 \<Rightarrow> u64 \<Rightarrow> u64" where
  "when_right rights b k = (if rights AND b \<noteq> 0 then k else 0)"

definition map_bharat_rights_to_kernel :: "cap_type \<Rightarrow> u64 \<Rightarrow> u64" where
  "map_bharat_rights_to_kernel type rights =
     (let on = when_right rights
      in if type = CAP_TYPE_VM_SPACE
         then on BHARAT_CAP_RIGHT_READ CAP_RIGHT_QUERY OR on BHARAT_CAP_RIGHT_WRITE CAP_RIGHT_VMM_MANAGE OR
              on BHARAT_CAP_RIGHT_EXECUTE CAP_RIGHT_MEMORY_MAP OR on BHARAT_CAP_RIGHT_GRANT CAP_RIGHT_DELEGATE
         else if type = CAP_TYPE_MEMORY \<or> type = CAP_TYPE_NET_BUFFER
         then on BHARAT_CAP_RIGHT_READ CAP_RIGHT_MEMORY_MAP OR on BHARAT_CAP_RIGHT_WRITE CAP_RIGHT_MEMORY_UNMAP OR
              on BHARAT_CAP_RIGHT_EXECUTE CAP_RIGHT_MEMORY_SHARE OR on BHARAT_CAP_RIGHT_GRANT CAP_RIGHT_DELEGATE
         else if type = CAP_TYPE_ENDPOINT \<or> type = CAP_TYPE_CRYPTO_ENDPOINT
         then on BHARAT_CAP_RIGHT_READ CAP_RIGHT_ENDPOINT_RECEIVE OR on BHARAT_CAP_RIGHT_WRITE CAP_RIGHT_ENDPOINT_SEND OR
              on BHARAT_CAP_RIGHT_GRANT CAP_RIGHT_DELEGATE
         else if type = CAP_TYPE_PROCESS
         then on BHARAT_CAP_RIGHT_READ CAP_RIGHT_PROCESS_MANAGE OR on BHARAT_CAP_RIGHT_WRITE CAP_RIGHT_PROCESS_MANAGE OR
              on BHARAT_CAP_RIGHT_EXECUTE CAP_RIGHT_RESOURCE_ALLOC OR on BHARAT_CAP_RIGHT_GRANT CAP_RIGHT_DELEGATE
         else if type = CAP_TYPE_THREAD \<or> type = CAP_TYPE_SCHED
         then on BHARAT_CAP_RIGHT_EXECUTE CAP_RIGHT_SCHEDULE OR on BHARAT_CAP_RIGHT_GRANT CAP_RIGHT_DELEGATE
         else on BHARAT_CAP_RIGHT_READ CAP_RIGHT_READ OR on BHARAT_CAP_RIGHT_WRITE CAP_RIGHT_WRITE OR
              on BHARAT_CAP_RIGHT_EXECUTE CAP_RIGHT_EXECUTE OR on BHARAT_CAP_RIGHT_GRANT CAP_RIGHT_DELEGATE)"

definition resolver_refuse ::
    "bharat_cap_status \<Rightarrow> bharat_cap_validation_result option \<Rightarrow> bharat_cap_status \<times> bharat_cap_validation_result option" where
  "resolver_refuse st out = (st, map_option (\<lambda>r. r\<lparr>vr_allowed := False, vr_status := st\<rparr>) out)"

definition resolver_error :: "kstatus \<Rightarrow> bharat_cap_status" where
  "resolver_error status =
     (if status = K_ERR_CAP_STALE then BHARAT_CAP_STALE
      else if status = K_ERR_CAP_REVOKED then BHARAT_CAP_REVOKED
      else if status = K_ERR_CAP_DENIED then BHARAT_CAP_RIGHTS_DENIED
      else if status = K_ERR_CAP_WRONG_TYPE then BHARAT_CAP_OBJECT_MISMATCH
      else BHARAT_CAP_NOT_FOUND)"

text \<open>\<open>table\<close> is the table of the process that runs on the current core, if there is one.\<close>

definition kernel_cap_authority_resolver ::
    "kstate \<Rightarrow> tptr option \<Rightarrow> u64 \<Rightarrow> bharat_cap_object_type \<Rightarrow> u64 \<Rightarrow> u64 \<Rightarrow> bharat_cap_scope option \<Rightarrow>
     bharat_cap_validation_result option \<Rightarrow> bharat_cap_status \<times> bharat_cap_validation_result option" where
  "kernel_cap_authority_resolver s table handle expected_object_type expected_object_id required_rights required_scope out =
     (case table of None \<Rightarrow> resolver_refuse BHARAT_CAP_NOT_FOUND out
      | Some p \<Rightarrow>
        let type = map_bharat_type_to_kernel expected_object_type;
            req = \<lparr>rq_cap_id = ucast handle, rq_expected_object_type = type,
                   rq_required_rights = map_bharat_rights_to_kernel type required_rights,
                   rq_requester_pid = ct_owner_pid (ks_tables s p),
                   rq_expected_generation = ucast (bh_cap_generation (ucast handle))\<rparr>
        in case cap_validate_ex s (Some p) (Some req) of
             (status, None) \<Rightarrow> resolver_refuse (resolver_error status) out
           | (status, Some entry) \<Rightarrow>
             if expected_object_id \<noteq> 0 \<and> ce_object_ref entry \<noteq> expected_object_id
             then resolver_refuse BHARAT_CAP_OBJECT_MISMATCH out
             else if (case required_scope of None \<Rightarrow> False
                      | Some sc \<Rightarrow> sc_kind sc \<noteq> BHARAT_CAP_SCOPE_GLOBAL \<and> sc_scope_id sc \<noteq> 0 \<and>
                                   ce_scope_id entry \<noteq> ucast (sc_scope_id sc) \<and> ce_object_ref entry \<noteq> sc_scope_id sc)
             then resolver_refuse BHARAT_CAP_SCOPE_DENIED out
             else (BHARAT_CAP_OK,
                   map_option (\<lambda>r. r\<lparr>vr_allowed := True, vr_status := BHARAT_CAP_OK,
                     vr_descriptor := (vr_descriptor r)\<lparr>bd_handle := handle, bd_cap_id := ucast (ce_id entry),
                       bd_object_type := expected_object_type, bd_object_id := ce_object_ref entry,
                       bd_rights := required_rights, bd_generation := ucast (ce_generation entry), bd_state := ce_state entry,
                       bd_scope := (case required_scope of Some sc \<Rightarrow> sc
                                    | None \<Rightarrow> \<lparr>sc_kind = BHARAT_CAP_SCOPE_GLOBAL, sc_scope_id = ucast (ce_scope_id entry)\<rparr>)\<rparr>\<rparr>) out))"

text \<open>
  Validation in the capability library: a test backend if one is set, else the registered resolver,
  else a refusal.
\<close>

type_synonym validate_fn =
  "u64 \<Rightarrow> bharat_cap_object_type \<Rightarrow> u64 \<Rightarrow> u64 \<Rightarrow> bharat_cap_scope option \<Rightarrow>
   bharat_cap_validation_result option \<Rightarrow> bharat_cap_status \<times> bharat_cap_validation_result option"

definition bharat_cap_validate :: "validate_fn option \<Rightarrow> validate_fn option \<Rightarrow> validate_fn" where
  "bharat_cap_validate g_test_backend g_authority_resolver handle type object_id rights scope out =
     (case g_test_backend of
        Some f \<Rightarrow> f handle type object_id rights scope out
      | None \<Rightarrow>
        (case g_authority_resolver of
           Some f \<Rightarrow> f handle type object_id rights scope out
         | None \<Rightarrow> resolver_refuse BHARAT_CAP_UNSUPPORTED out))"

section \<open>Authorisation of service requests\<close>

record bharat_service_authz_desc =
  ad_opcode :: u32
  ad_object_type :: bharat_cap_object_type
  ad_required_rights :: u64
  ad_required_feature_cap :: u64

definition BHARAT_IPC_STATUS_OK :: int where [status_simps]: "BHARAT_IPC_STATUS_OK = 0"
definition BHARAT_IPC_STATUS_ERR_PERM :: int where [status_simps]: "BHARAT_IPC_STATUS_ERR_PERM = -4"
definition BHARAT_IPC_STATUS_ERR_UNSUPPORTED :: int where [status_simps]: "BHARAT_IPC_STATUS_ERR_UNSUPPORTED = -6"

text \<open>The memory features of the default build, with a full MMU: the bits 0, 1, 2 and 4 to 9.\<close>

definition local_mem_model_get_caps :: u64 where
  "local_mem_model_get_caps = 0x3F7"

definition local_mem_model_has_cap :: "u64 \<Rightarrow> bool" where
  "local_mem_model_has_cap cap \<longleftrightarrow> local_mem_model_get_caps AND cap \<noteq> 0"

definition zero_validation_result :: bharat_cap_validation_result where
  "zero_validation_result = \<lparr>vr_allowed = False, vr_status = BHARAT_CAP_OK,
     vr_descriptor = \<lparr>bd_handle = 0, bd_cap_id = 0, bd_parent_cap_id = 0, bd_owner_principal_id = 0,
       bd_object_type = BHARAT_CAP_OBJ_NONE, bd_object_id = 0, bd_rights = 0,
       bd_scope = \<lparr>sc_kind = BHARAT_CAP_SCOPE_GLOBAL, sc_scope_id = 0\<rparr>, bd_generation = 0, bd_flags = 0,
       bd_state = CAP_STATE_FREE\<rparr>\<rparr>"

definition bharat_service_dispatch_authorize ::
    "validate_fn \<Rightarrow> u32 \<Rightarrow> bharat_service_authz_desc list \<Rightarrow> u64 \<Rightarrow> u64 \<Rightarrow> int" where
  "bharat_service_dispatch_authorize validate opcode descs caller_cap target_object_id =
     (if caller_cap = 0 then BHARAT_IPC_STATUS_ERR_PERM
      else case find (\<lambda>d. ad_opcode d = opcode) descs of
        None \<Rightarrow> BHARAT_IPC_STATUS_ERR_PERM
      | Some desc \<Rightarrow>
        if ad_required_feature_cap desc \<noteq> 0 \<and> \<not> local_mem_model_has_cap (ad_required_feature_cap desc)
        then BHARAT_IPC_STATUS_ERR_UNSUPPORTED
        else case validate caller_cap (ad_object_type desc) target_object_id (ad_required_rights desc)
                    (Some \<lparr>sc_kind = BHARAT_CAP_SCOPE_OBJECT, sc_scope_id = target_object_id\<rparr>) (Some zero_validation_result) of
               (st, Some vr) \<Rightarrow>
                 if st \<noteq> BHARAT_CAP_OK \<or> \<not> vr_allowed vr then BHARAT_IPC_STATUS_ERR_PERM else BHARAT_IPC_STATUS_OK
             | (st, None) \<Rightarrow> BHARAT_IPC_STATUS_ERR_PERM)"

section \<open>What a successful validation means\<close>

lemma cap_validate_checks_ok:
  "cap_validate_checks t r e = K_OK \<longleftrightarrow>
     bh_cap_generation_matches (ce_generation e) (bh_cap_generation (rq_cap_id r)) \<and>
     (rq_expected_generation r = 0 \<or> ucast (rq_expected_generation r) = ce_generation e) \<and>
     ce_state e = CAP_STATE_LIVE \<and> (rq_expected_object_type r = CAP_TYPE_NONE \<or> ce_type e = rq_expected_object_type r) \<and>
     rights_of (rq_required_rights r) \<subseteq> rights_of (ce_rights e) \<and>
     (rq_requester_pid r = 0 \<or> ct_owner_pid t = 0 \<or> ct_owner_pid t = rq_requester_pid r)"
  by (auto simp: cap_validate_checks_def cap_validate_generation_internal_def cap_validate_object_type_internal_def
      cap_validate_rights_internal_def cap_validate_scope_internal_def status_simps rights_subset_and Let_def)

lemma cap_validate_ex_ok:
  "cap_validate_ex s (Some p) (Some r) = (st, Some e) \<longleftrightarrow> st = K_OK \<and>
     (\<exists>i. cap_slot_of_id (ks_tables s p) (bh_cap_index (rq_cap_id r)) = Some i \<and> e = entry_at s p i \<and>
       cap_validate_checks (ks_tables s p) r e = K_OK)"
  by (auto simp: cap_validate_ex_def Let_def split: option.splits if_splits)

lemma cap_validate_ex_none: "cap_validate_ex s t r = (st, None) \<Longrightarrow> st \<noteq> K_OK"
  by (auto simp: cap_validate_ex_def Let_def status_simps split: option.splits if_splits)

text \<open>
  The entry a handle stands for: in use, live, in the handle's slot and of the handle's generation.
\<close>

definition cap_handle_live :: "kstate \<Rightarrow> tptr \<Rightarrow> u32 \<Rightarrow> nat \<Rightarrow> bool" where
  "cap_handle_live s p h i \<longleftrightarrow> i < CAP_ENTRIES \<and> ce_in_use (entry_at s p i) \<and> ce_state (entry_at s p i) = CAP_STATE_LIVE \<and>
     bh_cap_index h = of_nat i + 1 \<and> bh_cap_generation h = ce_generation (entry_at s p i) \<and> bh_cap_generation h \<noteq> 0"

lemma handle_live_unique: "cap_handle_live s p h i \<Longrightarrow> cap_handle_live s p h j \<Longrightarrow> i = j"
  using slot_id_inject by (auto simp: cap_handle_live_def)

lemma validate_ok_live:
  assumes "cap_table_wf (ks_tables s p)"
  shows "cap_validate_ex s (Some p) (Some r) = (st, Some e) \<longleftrightarrow> st = K_OK \<and>
    (\<exists>i. cap_handle_live s p (rq_cap_id r) i \<and> e = entry_at s p i \<and>
      (rq_expected_generation r = 0 \<or> ucast (rq_expected_generation r) = ce_generation e) \<and>
      (rq_expected_object_type r = CAP_TYPE_NONE \<or> ce_type e = rq_expected_object_type r) \<and>
      rights_of (rq_required_rights r) \<subseteq> rights_of (ce_rights e) \<and>
      (rq_requester_pid r = 0 \<or> ct_owner_pid (ks_tables s p) = 0 \<or> ct_owner_pid (ks_tables s p) = rq_requester_pid r))"
proof -
  have slot: "cap_slot_of_id (ks_tables s p) (bh_cap_index (rq_cap_id r)) = Some i \<longleftrightarrow>
      i < 64 \<and> ce_in_use (entry_at s p i) \<and> bh_cap_index (rq_cap_id r) = of_nat i + 1" for i
    using cap_slot_of_id_Some [OF assms] cap_slot_of_id_iff [OF assms] unfolding entry_at_def by metis
  show ?thesis
    unfolding cap_validate_ex_ok cap_validate_checks_ok slot cap_handle_live_def bh_cap_generation_matches_def by auto
qed

text \<open>Two updates of one entry, and an update that changes nothing.\<close>

lemma upd_entry_twice:
  "i < length (ct_entries (ks_tables s p)) \<Longrightarrow> upd_entry p i f (upd_entry p i g s) = upd_entry p i (\<lambda>e. f (g e)) s"
  by (simp add: upd_entry_def upd_table_def)

lemma upd_entry_same: "f (entry_at s p i) = entry_at s p i \<Longrightarrow> upd_entry p i f s = s"
  by (simp add: upd_entry_def upd_table_def entry_at_def)

lemma unat_inc: "(x :: u32) < y \<Longrightarrow> unat (x + 1) = unat x + 1"
proof -
  assume "x < y"
  moreover have "unat y < 2 ^ 32" using unsigned_less [of y] by simp
  ultimately have "unat x + 1 < 2 ^ 32" by (simp add: word_less_nat_alt)
  then show ?thesis by (simp add: unat_word_ariths)
qed

text \<open>When the resolver says yes to a request of a service, in terms of the table.\<close>

definition resolver_admits :: "kstate \<Rightarrow> tptr \<Rightarrow> u64 \<Rightarrow> bharat_cap_object_type \<Rightarrow> u64 \<Rightarrow> u64 \<Rightarrow> bool" where
  "resolver_admits s p handle oty target rights \<longleftrightarrow>
     (\<exists>e. cap_validate_ex s (Some p) (Some \<lparr>rq_cap_id = ucast handle, rq_expected_object_type = map_bharat_type_to_kernel oty,
        rq_required_rights = map_bharat_rights_to_kernel (map_bharat_type_to_kernel oty) rights,
        rq_requester_pid = ct_owner_pid (ks_tables s p), rq_expected_generation = ucast (bh_cap_generation (ucast handle))\<rparr>) = (K_OK, Some e) \<and>
      (target = 0 \<or> ce_object_ref e = target))"

lemma ucast_u32_u64 [simp]: "(ucast (ucast x :: u64) :: u32) = x"
  by (rule bit_word_eqI) (auto simp: bit_simps dest: bit_imp_le_length)

lemma resolver_admits_live:
  assumes "cap_table_wf (ks_tables s p)"
  shows "resolver_admits s p handle oty target rights \<longleftrightarrow> (\<exists>i. cap_handle_live s p (ucast handle) i \<and>
     (map_bharat_type_to_kernel oty = CAP_TYPE_NONE \<or> ce_type (entry_at s p i) = map_bharat_type_to_kernel oty) \<and>
     rights_of (map_bharat_rights_to_kernel (map_bharat_type_to_kernel oty) rights) \<subseteq> rights_of (ce_rights (entry_at s p i)) \<and>
     (target = 0 \<or> ce_object_ref (entry_at s p i) = target))"
  unfolding resolver_admits_def validate_ok_live [OF assms] by (auto simp: cap_handle_live_def)

lemma resolver_admits_iff:
  "(fst (kernel_cap_authority_resolver s (Some p) handle oty target rights
       (Some \<lparr>sc_kind = BHARAT_CAP_SCOPE_OBJECT, sc_scope_id = target\<rparr>) (Some r)) = BHARAT_CAP_OK \<longleftrightarrow>
    resolver_admits s p handle oty target rights) \<and>
   (\<exists>vr. snd (kernel_cap_authority_resolver s (Some p) handle oty target rights
       (Some \<lparr>sc_kind = BHARAT_CAP_SCOPE_OBJECT, sc_scope_id = target\<rparr>) (Some r)) = Some vr \<and>
     (resolver_admits s p handle oty target rights \<longrightarrow> vr_allowed vr))"
proof -
  let ?q = "\<lparr>rq_cap_id = ucast handle, rq_expected_object_type = map_bharat_type_to_kernel oty,
        rq_required_rights = map_bharat_rights_to_kernel (map_bharat_type_to_kernel oty) rights,
        rq_requester_pid = ct_owner_pid (ks_tables s p), rq_expected_generation = ucast (bh_cap_generation (ucast handle))\<rparr>"
  obtain st e where v: "cap_validate_ex s (Some p) (Some ?q) = (st, e)" by fastforce
  have "e \<noteq> None \<Longrightarrow> st = K_OK" using v cap_validate_ex_ok by (cases e) auto
  then show ?thesis
    unfolding kernel_cap_authority_resolver_def option.case Let_def resolver_admits_def v
    by (cases e) (auto simp: resolver_refuse_def resolver_error_def)
qed

section \<open>Properties\<close>

text \<open>
  C11: A service request is authorised exactly by a live capability of the caller. The authorisation
  of an opcode through the kernel's resolver succeeds if and only if the service has a descriptor for
  the opcode whose memory feature, if any, is there, and the caller's table holds a live capability
  in the slot and the generation of the presented handle, of the kernel type that the descriptor's
  object type stands for, with all kernel rights that the descriptor's rights stand for, and for the
  target object if one is named. Without a resolver, or for a caller without a table, nothing is
  authorised.
\<close>

theorem service_authorize_exact:
  assumes "cap_table_wf (ks_tables s p)"
  shows "(bharat_service_dispatch_authorize (bharat_cap_validate None (Some (kernel_cap_authority_resolver s (Some p))))
       opcode descs handle target = BHARAT_IPC_STATUS_OK \<longleftrightarrow>
     handle \<noteq> 0 \<and> (\<exists>d. find (\<lambda>d. ad_opcode d = opcode) descs = Some d \<and>
       (ad_required_feature_cap d = 0 \<or> local_mem_model_has_cap (ad_required_feature_cap d)) \<and>
       (\<exists>i. cap_handle_live s p (ucast handle) i \<and>
         (let e = entry_at s p i; ty = map_bharat_type_to_kernel (ad_object_type d)
          in (ty = CAP_TYPE_NONE \<or> ce_type e = ty) \<and>
             rights_of (map_bharat_rights_to_kernel ty (ad_required_rights d)) \<subseteq> rights_of (ce_rights e) \<and>
             (target = 0 \<or> ce_object_ref e = target))))) \<and>
    bharat_service_dispatch_authorize (bharat_cap_validate None None) opcode descs handle target \<noteq> BHARAT_IPC_STATUS_OK \<and>
    bharat_service_dispatch_authorize (bharat_cap_validate None (Some (kernel_cap_authority_resolver s None)))
       opcode descs handle target \<noteq> BHARAT_IPC_STATUS_OK"
proof (intro conjI)
  let ?v = "bharat_cap_validate None (Some (kernel_cap_authority_resolver s (Some p)))"
  have step: "bharat_service_dispatch_authorize ?v opcode descs handle target = BHARAT_IPC_STATUS_OK \<longleftrightarrow> handle \<noteq> 0 \<and>
      (\<exists>d. find (\<lambda>d. ad_opcode d = opcode) descs = Some d \<and>
        (ad_required_feature_cap d = 0 \<or> local_mem_model_has_cap (ad_required_feature_cap d)) \<and>
        resolver_admits s p handle (ad_object_type d) target (ad_required_rights d))"
  proof (cases "find (\<lambda>d. ad_opcode d = opcode) descs")
    case (Some d)
    obtain st vr where k: "kernel_cap_authority_resolver s (Some p) handle (ad_object_type d) target (ad_required_rights d)
        (Some \<lparr>sc_kind = BHARAT_CAP_SCOPE_OBJECT, sc_scope_id = target\<rparr>) (Some zero_validation_result) = (st, vr)" by fastforce
    then show ?thesis
      using Some resolver_admits_iff [of s p handle "ad_object_type d" target "ad_required_rights d" zero_validation_result]
      by (cases vr) (auto simp: bharat_service_dispatch_authorize_def bharat_cap_validate_def status_simps)
  qed (simp add: bharat_service_dispatch_authorize_def status_simps)
  show "bharat_service_dispatch_authorize ?v opcode descs handle target = BHARAT_IPC_STATUS_OK \<longleftrightarrow> handle \<noteq> 0 \<and>
      (\<exists>d. find (\<lambda>d. ad_opcode d = opcode) descs = Some d \<and>
        (ad_required_feature_cap d = 0 \<or> local_mem_model_has_cap (ad_required_feature_cap d)) \<and>
       (\<exists>i. cap_handle_live s p (ucast handle) i \<and>
         (let e = entry_at s p i; ty = map_bharat_type_to_kernel (ad_object_type d)
          in (ty = CAP_TYPE_NONE \<or> ce_type e = ty) \<and>
             rights_of (map_bharat_rights_to_kernel ty (ad_required_rights d)) \<subseteq> rights_of (ce_rights e) \<and>
             (target = 0 \<or> ce_object_ref e = target))))"
    unfolding step resolver_admits_live [OF assms] Let_def ..
qed (simp_all add: bharat_service_dispatch_authorize_def bharat_cap_validate_def resolver_refuse_def
       kernel_cap_authority_resolver_def status_simps split: option.split)

text \<open>
  The kernel resolver knows the four rights of the capability library only, and maps services to no
  kernel type. A right of a service's own, such as the right 7 to administer the network
  (src/core/services/netmgr/include/ipc_auth.h), becomes no requirement at all: any live capability of
  the caller passes.
\<close>

lemma resolver_admin_right_unchecked:
  assumes "cap_table_wf (ks_tables s p)" and "cap_handle_live s p h i"
  shows "fst (kernel_cap_authority_resolver s (Some p) (ucast h) BHARAT_CAP_OBJ_SERVICE 0 (push_bit 7 1) None out) = BHARAT_CAP_OK"
proof -
  have m: "map_bharat_rights_to_kernel CAP_TYPE_NONE (push_bit 7 1) = 0"
    by (simp add: map_bharat_rights_to_kernel_def when_right_def Let_def BHARAT_CAP_RIGHT_READ_def
        BHARAT_CAP_RIGHT_WRITE_def BHARAT_CAP_RIGHT_EXECUTE_def BHARAT_CAP_RIGHT_GRANT_def)
  let ?r = "\<lparr>rq_cap_id = h, rq_expected_object_type = CAP_TYPE_NONE, rq_required_rights = 0,
      rq_requester_pid = ct_owner_pid (ks_tables s p), rq_expected_generation = ucast (bh_cap_generation h)\<rparr>"
  have "cap_validate_ex s (Some p) (Some ?r) = (K_OK, Some (entry_at s p i))"
    unfolding validate_ok_live [OF assms(1)]
    by (intro conjI exI [of _ i] refl assms(2)) (use assms(2) in \<open>auto simp: cap_handle_live_def\<close>)
  then show ?thesis
    unfolding kernel_cap_authority_resolver_def option.case Let_def ucast_u32_u64 map_bharat_type_to_kernel.simps m by simp
qed

text \<open>
  C18: A pin counts. Validating and pinning a capability gives the same verdict and the same slot as
  validating it, and raises the pin count of that one entry; the matching unpin restores the state.
\<close>

theorem cap_pin_unpin:
  assumes "cap_table_wf (ks_tables s p)" and "cap_validate_and_pin (Some p) (Some r) (Some x) s = (K_OK, e, Some slot, s1)"
    and "\<And>i. i < CAP_ENTRIES \<Longrightarrow> ce_active_pins (entry_at s p i) < 0xFFFFFFFF"
  shows "unat slot < CAP_ENTRIES \<and> fst (cap_validate_ex s (Some p) (Some r)) = K_OK \<and>
    ce_active_pins (entry_at s1 p (unat slot)) = ce_active_pins (entry_at s p (unat slot)) + 1 \<and>
    ce_active_pins (entry_at s1 p (unat slot)) > 0 \<and> cap_unpin (Some p) slot s1 = s"
proof -
  from assms(2) obtain i where i: "cap_slot_of_id (ks_tables s p) (bh_cap_index (rq_cap_id r)) = Some i"
    "cap_validate_checks (ks_tables s p) r (entry_at s p i) = K_OK" "slot = of_nat i"
    "s1 = upd_entry p i (\<lambda>e. e\<lparr>ce_active_pins := ce_active_pins e + 1\<rparr>) s"
    by (auto simp: cap_validate_and_pin_def Let_def status_simps split: option.splits if_splits)
  have b: "i < 64" "ce_in_use (entry_at s p i)" using cap_slot_of_id_Some [OF assms(1) i(1)] by (auto simp: entry_at_def)
  have len: "i < length (ct_entries (ks_tables s p))" using b(1) cap_table_wfD(1) [OF assms(1)] by simp
  have u: "unat slot = i" using small_unat(4) b(1) i(3) by simp
  have e1: "entry_at s1 p i = (entry_at s p i)\<lparr>ce_active_pins := ce_active_pins (entry_at s p i) + 1\<rparr>"
    using len by (simp add: i(4) entry_at_upd_entry)
  have pos: "ce_active_pins (entry_at s p i) + 1 > 0"
    using unat_inc [OF assms(3) [OF b(1)]] by (simp add: word_less_nat_alt)
  have "cap_unpin (Some p) slot s1 = upd_entry p i (\<lambda>e. e\<lparr>ce_active_pins := ce_active_pins e - 1\<rparr>) s1"
    using b u e1 pos by (simp add: cap_unpin_def Let_def)
  also have "\<dots> = s" unfolding i(4) upd_entry_twice [OF len] by (rule upd_entry_same) simp
  finally have "cap_unpin (Some p) slot s1 = s" .
  then show ?thesis
    using b u e1 pos i by (simp add: cap_validate_ex_def)
qed

lemma sample_grant_live:
  assumes "i < CAP_ENTRIES"
    and "entry_at s p i = cap_grant_entry 0 i CAP_TYPE_ENDPOINT 5 (CAP_RIGHT_ENDPOINT_SEND OR CAP_RIGHT_DELEGATE) zero_entry"
  shows "cap_handle_live s p (cap_handle_of (of_nat i + 1) 1) i"
  using assms slot_id_bound [OF assms(1)]
  by (simp add: cap_handle_live_def handle_index handle_generation take_bit_16_small cap_grant_entry_def zero_entry_def)

theorem service_authorize_exact_witness:
  "\<exists>s h. cap_table_grant 0 (Some (Heap_Table 0)) CAP_TYPE_ENDPOINT 5 (CAP_RIGHT_ENDPOINT_SEND OR CAP_RIGHT_DELEGATE) (Some 0)
       sample_two = (0, s, Some h) \<and>
     bharat_service_dispatch_authorize (bharat_cap_validate None (Some (kernel_cap_authority_resolver s (Some (Heap_Table 0)))))
       1 [\<lparr>ad_opcode = 1, ad_object_type = BHARAT_CAP_OBJ_ENDPOINT, ad_required_rights = BHARAT_CAP_RIGHT_WRITE,
           ad_required_feature_cap = 0\<rparr>] (ucast h) 5 = BHARAT_IPC_STATUS_OK"
proof (rule sample_grant)
  fix i s assume A: "i < CAP_ENTRIES" "caps_wf s" "cap_registered s 0 0 (Heap_Table 0)"
    "entry_at s (Heap_Table 0) i = cap_grant_entry 0 i CAP_TYPE_ENDPOINT 5 (CAP_RIGHT_ENDPOINT_SEND OR CAP_RIGHT_DELEGATE) zero_entry"
    "cap_table_grant 0 (Some (Heap_Table 0)) CAP_TYPE_ENDPOINT 5 (CAP_RIGHT_ENDPOINT_SEND OR CAP_RIGHT_DELEGATE) (Some 0) sample_two
       = (0, s, Some (cap_handle_of (of_nat i + 1) 1))"
  let ?h = "cap_handle_of (of_nat i + 1) 1"
  note live = sample_grant_live [OF A(1,4)]
  have m: "map_bharat_rights_to_kernel CAP_TYPE_ENDPOINT BHARAT_CAP_RIGHT_WRITE = CAP_RIGHT_ENDPOINT_SEND"
    by (simp add: map_bharat_rights_to_kernel_def when_right_def Let_def BHARAT_CAP_RIGHT_READ_def
        BHARAT_CAP_RIGHT_WRITE_def BHARAT_CAP_RIGHT_EXECUTE_def BHARAT_CAP_RIGHT_GRANT_def)
  have nz: "(ucast ?h :: u64) \<noteq> 0"
    using handle_nonzero [OF A(1), of 1] by (metis ucast_u32_u64 ucast_0)
  have "bharat_service_dispatch_authorize (bharat_cap_validate None (Some (kernel_cap_authority_resolver s (Some (Heap_Table 0)))))
       1 [\<lparr>ad_opcode = 1, ad_object_type = BHARAT_CAP_OBJ_ENDPOINT, ad_required_rights = BHARAT_CAP_RIGHT_WRITE,
           ad_required_feature_cap = 0\<rparr>] (ucast ?h) 5 = BHARAT_IPC_STATUS_OK"
    using service_authorize_exact [OF caps_wfD(1) [OF A(2,3)], of 1 "[\<lparr>ad_opcode = 1, ad_object_type = BHARAT_CAP_OBJ_ENDPOINT,
        ad_required_rights = BHARAT_CAP_RIGHT_WRITE, ad_required_feature_cap = 0\<rparr>]" "ucast ?h" 5] nz live A(4) m send_rights
    by (auto simp: Let_def cap_grant_entry_def)
  then show ?thesis using A(5) by blast
qed

theorem cap_pin_unpin_witness:
  "\<exists>s h e slot s'. cap_table_grant 0 (Some (Heap_Table 0)) CAP_TYPE_ENDPOINT 5 (CAP_RIGHT_ENDPOINT_SEND OR CAP_RIGHT_DELEGATE) (Some 0)
       sample_two = (0, s, Some h) \<and>
     cap_validate_and_pin (Some (Heap_Table 0)) (Some (cap_lookup_request (ks_tables s (Heap_Table 0)) h CAP_TYPE_ENDPOINT 0)) (Some 0) s
       = (K_OK, e, Some slot, s') \<and> cap_unpin (Some (Heap_Table 0)) slot s' = s"
proof (rule sample_grant)
  fix i s assume A: "i < CAP_ENTRIES" "caps_wf s" "cap_registered s 0 0 (Heap_Table 0)"
    "entry_at s (Heap_Table 0) i = cap_grant_entry 0 i CAP_TYPE_ENDPOINT 5 (CAP_RIGHT_ENDPOINT_SEND OR CAP_RIGHT_DELEGATE) zero_entry"
    "cap_table_grant 0 (Some (Heap_Table 0)) CAP_TYPE_ENDPOINT 5 (CAP_RIGHT_ENDPOINT_SEND OR CAP_RIGHT_DELEGATE) (Some 0) sample_two
       = (0, s, Some (cap_handle_of (of_nat i + 1) 1))"
    and others: "\<And>j. j < CAP_ENTRIES \<Longrightarrow> j \<noteq> i \<Longrightarrow> entry_at s (Heap_Table 0) j = zero_entry"
  let ?h = "cap_handle_of (of_nat i + 1) 1"
  let ?r = "cap_lookup_request (ks_tables s (Heap_Table 0)) ?h CAP_TYPE_ENDPOINT 0"
  note live = sample_grant_live [OF A(1,4)]
  have v: "cap_validate_ex s (Some (Heap_Table 0)) (Some ?r) = (K_OK, Some (entry_at s (Heap_Table 0) i))"
    unfolding validate_ok_live [OF caps_wfD(1) [OF A(2,3)]]
    by (intro conjI exI [of _ i] refl) (use live A(4) in \<open>auto simp: cap_lookup_request_def cap_handle_live_def cap_grant_entry_def\<close>)
  then obtain e slot t where pin: "cap_validate_and_pin (Some (Heap_Table 0)) (Some ?r) (Some 0) s = (K_OK, e, Some slot, t)"
    unfolding cap_validate_ex_ok by (auto simp: cap_validate_and_pin_def Let_def)
  have "ce_active_pins (entry_at s (Heap_Table 0) j) < 0xFFFFFFFF" if "j < 64" for j
    using A(4) others [OF that] by (cases "j = i") (simp_all add: cap_grant_entry_def zero_entry_def)
  from cap_pin_unpin [OF caps_wfD(1) [OF A(2,3)] pin this] A(5) pin show ?thesis by blast
qed

end
