(* ===== verification/Cap_Tx.thy ===== *)
theory Cap_Tx
  imports Cap_Space_Inv
begin

text \<open>
  The handlers of cross-core capability transactions (src/core/kernel/src/cap/cap_dispatch.c, lines 3
  to 257): a core that receives a request works on its own tables on behalf of the transaction, which
  it reads from the origin's transaction table, and answers with an acknowledgement; the origin
  records the acknowledgements. \<open>cpu\<close> is the core that runs the handler.
\<close>

unbundle bit_operations_syntax

section \<open>Freeing an entry\<close>

definition cap_clear_entry :: "capability_entry \<Rightarrow> capability_entry" where
  "cap_clear_entry e = e\<lparr>ce_rights := 0, ce_flags := 0, ce_object_ref := 0, ce_active_pins := 0, ce_scope_id := 0,
     ce_parent := cap_locator_null, ce_first_child := cap_locator_null, ce_next_sibling := cap_locator_null,
     ce_generation := ce_generation e + 1, ce_state := CAP_STATE_FREE, ce_in_use := False\<rparr>"

text \<open>The status of the identifier allocator is ignored.\<close>

definition cap_free_id :: "nat \<Rightarrow> capability_table \<Rightarrow> capability_table" where
  "cap_free_id i t = t\<lparr>ct_id_allocator := the (snd (bh_id_allocator_free (Some (ct_id_allocator t)) i))\<rparr>"

definition cap_free_slot :: "tptr \<Rightarrow> nat \<Rightarrow> kstate \<Rightarrow> kstate" where
  "cap_free_slot p i s =
     (let e = entry_at s p i
      in cap_endpoint_ref_release (ce_type e) (ce_object_ref e) (ce_rights e)
           (upd_table p (cap_free_id i) (upd_entry p i cap_clear_entry s)))"

section \<open>Requests\<close>

definition cap_send_ack :: "urpc_msg_type \<Rightarrow> nat \<Rightarrow> nat \<Rightarrow> u8 \<Rightarrow> u8 \<Rightarrow> u32 \<Rightarrow> 8 word \<Rightarrow> kstate \<Rightarrow> kstate" where
  "cap_send_ack msg_type cpu source_core origin_core slot generation status s =
     snd (ks_urpc_send source_core
            (urpc_pack_msg msg_type (cap_tx_pack_ack origin_core slot generation (of_nat cpu) status)) s)"

definition cap_tx_child_entry :: "cap_tx_entry \<Rightarrow> nat \<Rightarrow> capability_entry \<Rightarrow> capability_entry" where
  "cap_tx_child_entry tx dst_slot e =
     e\<lparr>ce_id := of_nat dst_slot + 1, ce_state := CAP_STATE_LIVE, ce_type := tx_type tx, ce_rights := tx_requested_rights tx,
       ce_object_ref := tx_object_ref tx, ce_flags := tx_flags tx, ce_active_pins := 0, ce_scope_id := 0,
       ce_owner_core := tx_owner_core tx,
       ce_revocation_epoch := tx_revocation_epoch tx, ce_parent := tx_src tx, ce_first_child := cap_locator_null,
       ce_next_sibling := tx_src_first_child tx, ce_generation := ce_generation e + 1,
       ce_instance_id := (tx_instance_id tx)\<lparr>ci_slot_gen := ce_generation e + 1\<rparr>, ce_in_use := True\<rparr>"

definition cap_handle_tx_delegate :: "nat \<Rightarrow> nat \<Rightarrow> u8 \<Rightarrow> u8 \<Rightarrow> u32 \<Rightarrow> kstate \<Rightarrow> kstate" where
  "cap_handle_tx_delegate cpu source_core origin_core slot generation s =
     (let oc = unat origin_core; k = unat slot; tx = ks_tx s oc k;
          ack = cap_send_ack URPC_CAP_DELEGATE_ACK cpu source_core origin_core slot generation
      in case cap_locator_resolve_table s (tx_dst tx) of
           None \<Rightarrow> ack (- 1) s
         | Some dst \<Rightarrow>
           if unat (loc_owner_core (tx_dst tx)) \<noteq> cpu \<or> unat (ct_owner_core (ks_tables s dst)) \<noteq> cpu then ack (- 2) s
           else case cap_alloc_slot dst s of
                  (None, s1) \<Rightarrow> ack (- 2) s1
                | (Some j, s1) \<Rightarrow>
                  let s2 = upd_entry dst j (cap_tx_child_entry tx j) s1;
                      d = entry_at s2 dst j;
                      s3 = upd_tx oc k (\<lambda>tx. tx\<lparr>tx_remote_cap_id := ce_id d, tx_remote_dst_slot := of_nat j,
                                                tx_remote_dst_gen := ce_generation d\<rparr>) s2
                  in ack 0 (cap_endpoint_ref_acquire (tx_type tx) (tx_object_ref tx) (tx_requested_rights tx) s3))"

definition cap_handle_tx_rollback :: "nat \<Rightarrow> nat \<Rightarrow> u8 \<Rightarrow> u8 \<Rightarrow> u32 \<Rightarrow> kstate \<Rightarrow> kstate" where
  "cap_handle_tx_rollback cpu source_core origin_core slot generation s =
     (let tx = ks_tx s (unat origin_core) (unat slot);
          s1 = (if tx_remote_dst_slot tx = - 1 then s
                else case cap_locator_resolve_table s (tx_dst tx) of
                       None \<Rightarrow> s
                     | Some dst \<Rightarrow>
                       let i = unat (tx_remote_dst_slot tx)
                       in if i < CAP_ENTRIES \<and> ce_in_use (entry_at s dst i) \<and>
                             ce_generation (entry_at s dst i) = tx_remote_dst_gen tx
                          then cap_free_slot dst i s else s)
      in cap_send_ack URPC_CAP_REVOKE_ACK cpu source_core origin_core slot generation 0 s1)"

definition is_descendant :: "u8 \<Rightarrow> cap_tx_entry \<Rightarrow> capability_entry \<Rightarrow> bool" where
  "is_descendant origin_core tx e \<longleftrightarrow>
     unat (loc_owner_core (ce_parent e)) = unat origin_core \<and> loc_slot (ce_parent e) = loc_slot (tx_target tx) \<and>
     loc_generation (ce_parent e) = loc_generation (tx_target tx) \<and>
     ucast (tx_revocation_epoch tx) \<ge> loc_revocation_epoch (ce_parent e)"

text \<open>The two loops over all entries of all tables of a core.\<close>

definition cap_for_all_entries :: "nat \<Rightarrow> (tptr \<Rightarrow> nat \<Rightarrow> kstate \<Rightarrow> kstate) \<Rightarrow> kstate \<Rightarrow> kstate" where
  "cap_for_all_entries core f =
     fold (\<lambda>k s. case re_table (ks_registry s core k) of None \<Rightarrow> s | Some p \<Rightarrow> fold (f p) [0..<CAP_ENTRIES] s)
       [0..<CSPACES_PER_CORE]"

definition cap_mark_descendant :: "u8 \<Rightarrow> cap_tx_entry \<Rightarrow> tptr \<Rightarrow> nat \<Rightarrow> kstate \<Rightarrow> kstate" where
  "cap_mark_descendant origin_core tx p i s =
     (let e = entry_at s p i
      in if ce_in_use e \<and> ce_state e = CAP_STATE_LIVE \<and> is_descendant origin_core tx e
         then upd_entry p i (\<lambda>e. e\<lparr>ce_state := CAP_STATE_REVOKING\<rparr>) s else s)"

definition cap_free_descendant :: "u8 \<Rightarrow> cap_tx_entry \<Rightarrow> tptr \<Rightarrow> nat \<Rightarrow> kstate \<Rightarrow> kstate" where
  "cap_free_descendant origin_core tx p i s =
     (let e = entry_at s p i
      in if ce_in_use e \<and> (ce_state e = CAP_STATE_LIVE \<or> ce_state e = CAP_STATE_REVOKING) \<and> is_descendant origin_core tx e
         then cap_free_slot p i s else s)"

definition cap_handle_tx_revoke_prepare :: "nat \<Rightarrow> nat \<Rightarrow> u8 \<Rightarrow> u8 \<Rightarrow> u32 \<Rightarrow> kstate \<Rightarrow> kstate" where
  "cap_handle_tx_revoke_prepare cpu source_core origin_core slot generation s =
     cap_send_ack URPC_CAP_REVOKE_ACK cpu source_core origin_core slot generation 0
       (cap_for_all_entries cpu (cap_mark_descendant origin_core (ks_tx s (unat origin_core) (unat slot))) s)"

definition cap_handle_tx_revoke_commit :: "nat \<Rightarrow> nat \<Rightarrow> u8 \<Rightarrow> u8 \<Rightarrow> u32 \<Rightarrow> kstate \<Rightarrow> kstate" where
  "cap_handle_tx_revoke_commit cpu source_core origin_core slot generation s =
     cap_send_ack URPC_CAP_REVOKE_ACK cpu source_core origin_core slot generation 0
       (cap_for_all_entries cpu (cap_free_descendant origin_core (ks_tx s (unat origin_core) (unat slot))) s)"

definition cap_tx_answerable :: "cap_tx_entry \<Rightarrow> u32 \<Rightarrow> bool" where
  "cap_tx_answerable tx generation \<longleftrightarrow>
     tx_generation tx = generation \<and> (tx_state tx = BH_CAP_TX_PUBLISHED \<or> tx_state tx = BH_CAP_TX_ABORTED)"

definition cap_handle_tx_req :: "nat \<Rightarrow> u64 \<Rightarrow> nat \<Rightarrow> kstate \<Rightarrow> kstate" where
  "cap_handle_tx_req cpu payload source_core s =
     (case cap_tx_unpack_req payload of (origin_core, slot, generation, op) \<Rightarrow>
        if unat origin_core \<ge> MAX_CPUS \<or> unat slot \<ge> CAP_TX_PER_CORE then s
        else if \<not> cap_tx_answerable (ks_tx s (unat origin_core) (unat slot)) generation then s
        else if ucast op = BH_CAP_TX_OP_DELEGATE then cap_handle_tx_delegate cpu source_core origin_core slot generation s
        else if ucast op = BH_CAP_TX_OP_ROLLBACK then cap_handle_tx_rollback cpu source_core origin_core slot generation s
        else if ucast op = BH_CAP_TX_OP_REVOKE_PREPARE
        then cap_handle_tx_revoke_prepare cpu source_core origin_core slot generation s
        else if ucast op = BH_CAP_TX_OP_REVOKE \<or> ucast op = BH_CAP_TX_OP_REVOKE_COMMIT
        then cap_handle_tx_revoke_commit cpu source_core origin_core slot generation s
        else s)"

section \<open>Acknowledgements\<close>

definition cap_tx_record_ack :: "u8 \<Rightarrow> 8 word \<Rightarrow> cap_tx_entry \<Rightarrow> cap_tx_entry" where
  "cap_tx_record_ack responder_core status tx =
     tx\<lparr>tx_ack_mask := tx_ack_mask tx OR push_bit (unat responder_core) 1,
        tx_result := (if status \<noteq> 0 \<and> tx_result tx = 0 then sint status else tx_result tx)\<rparr>"

definition cap_handle_tx_ack :: "nat \<Rightarrow> u64 \<Rightarrow> kstate \<Rightarrow> kstate" where
  "cap_handle_tx_ack cpu payload s =
     (case cap_tx_unpack_ack payload of (origin_core, slot, generation, responder_core, status) \<Rightarrow>
        if unat origin_core \<ge> MAX_CPUS \<or> unat origin_core \<noteq> cpu \<or> unat slot \<ge> CAP_TX_PER_CORE \<or>
           unat responder_core \<ge> MAX_CPUS then s
        else let tx = ks_tx s (unat origin_core) (unat slot)
        in if \<not> cap_tx_answerable tx generation then s
           else if tx_target_mask tx AND push_bit (unat responder_core) 1 = 0 then s
           else if tx_ack_mask tx AND push_bit (unat responder_core) 1 \<noteq> 0 then s
           else upd_tx (unat origin_core) (unat slot) (cap_tx_record_ack responder_core status) s)"

definition cap_handle_delegate_req :: "nat \<Rightarrow> u64 \<Rightarrow> nat \<Rightarrow> kstate \<Rightarrow> kstate" where
  "cap_handle_delegate_req = cap_handle_tx_req"

definition cap_handle_delegate_ack :: "nat \<Rightarrow> u64 \<Rightarrow> kstate \<Rightarrow> kstate" where
  "cap_handle_delegate_ack = cap_handle_tx_ack"

definition cap_handle_revoke_req :: "nat \<Rightarrow> u64 \<Rightarrow> nat \<Rightarrow> kstate \<Rightarrow> kstate" where
  "cap_handle_revoke_req = cap_handle_tx_req"

definition cap_handle_revoke_ack :: "nat \<Rightarrow> u64 \<Rightarrow> kstate \<Rightarrow> kstate" where
  "cap_handle_revoke_ack = cap_handle_tx_ack"

section \<open>Polling\<close>

text \<open>
  The end of src/core/kernel/src/mm/tlb/tlb_shootdown.c, lines 612 to 632: a core takes at most ten
  messages from every channel and passes those of the capability code on.
\<close>

definition cap_dispatch_msg :: "nat \<Rightarrow> nat \<Rightarrow> u64 \<Rightarrow> kstate \<Rightarrow> kstate" where
  "cap_dispatch_msg cpu c raw_msg s =
     (case urpc_unpack_msg raw_msg of (type, payload) \<Rightarrow>
        if type = urpc_msg_code URPC_CAP_DELEGATE_REQ then cap_handle_delegate_req cpu payload c s
        else if type = urpc_msg_code URPC_CAP_DELEGATE_ACK then cap_handle_delegate_ack cpu payload s
        else if type = urpc_msg_code URPC_CAP_REVOKE then cap_handle_revoke_req cpu payload c s
        else if type = urpc_msg_code URPC_CAP_REVOKE_ACK then cap_handle_revoke_ack cpu payload s
        else s)"

fun cap_poll_channel :: "nat \<Rightarrow> nat \<Rightarrow> nat \<Rightarrow> kstate \<Rightarrow> kstate" where
  "cap_poll_channel cpu c 0 s = s"
| "cap_poll_channel cpu c (Suc limit) s =
     (case urpc_bootstrap_recv (ks_max_cpus s) (us_channels (ks_urpc s)) c (Some 0) of
        (st, ch, out) \<Rightarrow>
          if st = K_OK
          then cap_poll_channel cpu c limit
                 (cap_dispatch_msg cpu c (the out) (s\<lparr>ks_urpc := (ks_urpc s)\<lparr>us_channels := ch\<rparr>\<rparr>))
          else s)"

definition cap_poll :: "nat \<Rightarrow> kstate \<Rightarrow> kstate" where
  "cap_poll cpu = fold (\<lambda>c s. if c = cpu then s else cap_poll_channel cpu c 10 s) [0..<MAX_CPUS]"

section \<open>Operations that take authority away or leave it\<close>

text \<open>
  \<open>cap_shrinks s s'\<close>: the registry, the transactions and the identities of the tables are as
  before, tables stay well-formed, and an entry in use was in use before, in the same generation,
  for the same object, with the same type and rights.
\<close>

definition cap_shrinks :: "kstate \<Rightarrow> kstate \<Rightarrow> bool" where
  "cap_shrinks s s' \<longleftrightarrow> ks_registry s' = ks_registry s \<and> ks_bootstrap_used s' = ks_bootstrap_used s \<and>
     (\<forall>p. (cap_table_wf (ks_tables s p) \<longrightarrow> cap_table_wf (ks_tables s' p)) \<and>
          ct_cspace_id (ks_tables s' p) = ct_cspace_id (ks_tables s p) \<and>
          ct_owner_core (ks_tables s' p) = ct_owner_core (ks_tables s p) \<and>
          ct_registry_slot (ks_tables s' p) = ct_registry_slot (ks_tables s p) \<and>
          ct_owner_pid (ks_tables s' p) = ct_owner_pid (ks_tables s p)) \<and>
     (\<forall>p. length (ct_entries (ks_tables s' p)) = length (ct_entries (ks_tables s p))) \<and>
     (\<forall>p i. i < length (ct_entries (ks_tables s p)) \<longrightarrow> ce_in_use (entry_at s' p i) \<longrightarrow> same_authority (entry_at s' p i) (entry_at s p i) \<and>
        ce_object_ref (entry_at s' p i) = ce_object_ref (entry_at s p i) \<and>
        ce_generation (entry_at s' p i) = ce_generation (entry_at s p i))"

lemma cap_shrinks_refl [simp, intro]: "cap_shrinks s s"
  by (simp add: cap_shrinks_def same_authority_def)

lemma cap_shrinks_trans [trans]: "cap_shrinks s t \<Longrightarrow> cap_shrinks t u \<Longrightarrow> cap_shrinks s u"
  unfolding cap_shrinks_def same_authority_def by (intro conjI allI impI) metis+

lemma cap_shrinks_caps_wf: "caps_wf s \<Longrightarrow> cap_shrinks s s' \<Longrightarrow> caps_wf s'"
  by (rule caps_wf_tables [of s]) (auto simp: cap_shrinks_def dest: caps_wfD(1))

lemma upd_entry_shrinks:
  assumes "\<And>e. same_authority (f e) e \<and> ce_object_ref (f e) = ce_object_ref e \<and> ce_generation (f e) = ce_generation e"
  shows "cap_shrinks s (upd_entry p i f s)"
proof -
  have "same_authority (entry_at (upd_entry p i f s) q j) (entry_at s q j) \<and>
        ce_object_ref (entry_at (upd_entry p i f s) q j) = ce_object_ref (entry_at s q j) \<and>
        ce_generation (entry_at (upd_entry p i f s) q j) = ce_generation (entry_at s q j)"
    if "j < length (ct_entries (ks_tables s q))" for q j
    using that assms [of "entry_at s p i"]
    by (cases "j = i") (auto simp: entry_at_def upd_entry_tables same_authority_def)
  then show ?thesis
    using cap_table_wf_links [of "ks_tables s p" "f (entry_at s p i)" i] assms [of "entry_at s p i"]
    by (auto simp: cap_shrinks_def upd_entry_tables entry_at_def)
qed

lemma cap_free_id_fields [simp]:
  "ct_entries (cap_free_id i t) = ct_entries t" "ct_cspace_id (cap_free_id i t) = ct_cspace_id t"
  "ct_owner_core (cap_free_id i t) = ct_owner_core t" "ct_registry_slot (cap_free_id i t) = ct_registry_slot t"
  "ct_owner_pid (cap_free_id i t) = ct_owner_pid t"
  by (simp_all add: cap_free_id_def)

lemma cap_free_id_wf:
  assumes "cap_table_wf t" and "\<not> ce_in_use (ct_entries t ! i)"
  shows "cap_table_wf (cap_free_id i t)"
proof (cases "i \<in> ida_used (ct_id_allocator t)")
  case True
  from ida_free_success [OF cap_table_wfD(2) [OF assms(1)] True] obtain a where
    a: "bh_id_allocator_free (Some (ct_id_allocator t)) i = (K_OK, Some a)" "ida_wf a"
      "ida_capacity a = ida_capacity (ct_id_allocator t)" "ida_used a = ida_used (ct_id_allocator t) - {i}" by auto
  then show ?thesis using assms by (auto simp: cap_table_wf_def cap_free_id_def)
next
  case False
  then show ?thesis using ida_free_error [OF False] assms(1) by (simp add: cap_free_id_def)
qed

lemma cap_free_slot_entry:
  "entry_at (cap_free_slot p i s) q j = entry_at (upd_entry p i cap_clear_entry s) q j"
  by (simp add: cap_free_slot_def Let_def entry_at_def)

lemma cap_free_slot_frame [simp]:
  "ks_registry (cap_free_slot p i s) = ks_registry s" "ks_bootstrap_used (cap_free_slot p i s) = ks_bootstrap_used s"
  "ks_tx (cap_free_slot p i s) = ks_tx s" "q \<noteq> p \<Longrightarrow> ks_tables (cap_free_slot p i s) q = ks_tables s q"
  by (simp_all add: cap_free_slot_def Let_def upd_entry_tables)

lemma cap_free_slot_shrinks:
  assumes "i < CAP_ENTRIES"
  shows "cap_shrinks s (cap_free_slot p i s)"
proof -
  have c: "\<not> ce_in_use (cap_clear_entry e)" for e by (simp add: cap_clear_entry_def)
  have "cap_table_wf (ks_tables (cap_free_slot p i s) p)" if wf: "cap_table_wf (ks_tables s p)"
  proof -
    let ?t = "(ks_tables s p)\<lparr>ct_entries := (ct_entries (ks_tables s p))[i := cap_clear_entry (entry_at s p i)]\<rparr>"
    have l: "i < length (ct_entries (ks_tables s p))" using assms cap_table_wfD(1) [OF wf] by simp
    have "cap_table_wf ?t" using wf l c [of "entry_at s p i"] by (auto simp: cap_table_wf_def nth_list_update)
    moreover have "\<not> ce_in_use (ct_entries ?t ! i)" using l c by simp
    ultimately show ?thesis by (simp add: cap_free_slot_def Let_def upd_entry_tables cap_free_id_wf)
  qed
  moreover have "ce_in_use (entry_at (cap_free_slot p i s) q j) \<longrightarrow> entry_at (cap_free_slot p i s) q j = entry_at s q j"
    if "j < length (ct_entries (ks_tables s q))" for q j
    using that c [of "entry_at s p i"]
    unfolding cap_free_slot_entry by (cases "j = i") (auto simp: entry_at_def upd_entry_tables)
  ultimately show ?thesis
    unfolding cap_shrinks_def same_authority_def
    by (auto simp: cap_free_slot_def Let_def upd_entry_tables)
qed

lemma fold_shrinks:
  assumes "\<And>x t. x \<in> set xs \<Longrightarrow> cap_shrinks t (f x t)"
  shows "cap_shrinks s (fold f xs s)"
  using assms by (induction xs arbitrary: s) (auto intro: cap_shrinks_trans)

lemma cap_for_all_entries_shrinks:
  assumes "\<And>p i t. i < CAP_ENTRIES \<Longrightarrow> cap_shrinks t (f p i t)"
  shows "cap_shrinks s (cap_for_all_entries core f s)"
proof -
  have "cap_shrinks t (fold (f p) [0..<64] t)" for p t by (rule fold_shrinks) (simp add: assms)
  then show ?thesis
    unfolding cap_for_all_entries_def by (intro fold_shrinks) (simp split: option.split)
qed

lemma cap_mark_descendant_shrinks: "cap_shrinks s (cap_mark_descendant orig tx p i s)"
  by (auto simp: cap_mark_descendant_def Let_def same_authority_def intro!: upd_entry_shrinks)

lemma cap_free_descendant_shrinks: "i < CAP_ENTRIES \<Longrightarrow> cap_shrinks s (cap_free_descendant orig tx p i s)"
  by (auto simp: cap_free_descendant_def Let_def intro: cap_free_slot_shrinks)

lemma cap_send_ack_frame [simp]:
  "ks_registry (cap_send_ack m c sc oc k g st s) = ks_registry s" "ks_tables (cap_send_ack m c sc oc k g st s) = ks_tables s"
  "ks_bootstrap_used (cap_send_ack m c sc oc k g st s) = ks_bootstrap_used s" "ks_tx (cap_send_ack m c sc oc k g st s) = ks_tx s"
  "ks_endpoints (cap_send_ack m c sc oc k g st s) = ks_endpoints s"
  by (simp_all add: cap_send_ack_def)

lemma entry_at_send_ack [simp]: "entry_at (cap_send_ack m c sc oc k g st s) p i = entry_at s p i"
  by (simp add: entry_at_def)

lemma cap_shrinks_cong:
  "ks_tables t = ks_tables s' \<Longrightarrow> ks_registry t = ks_registry s' \<Longrightarrow> ks_bootstrap_used t = ks_bootstrap_used s' \<Longrightarrow>
   cap_shrinks s s' \<Longrightarrow> cap_shrinks s t"
  by (simp add: cap_shrinks_def entry_at_def)

section \<open>Messages on the wire\<close>

lemma take_bit_pack:
  "take_bit 56 (cap_tx_pack_req orig slot g op) = cap_tx_pack_req orig slot g op"
  "take_bit 56 (cap_tx_pack_ack orig slot g resp st) = cap_tx_pack_ack orig slot g resp st"
  by (rule bit_word_eqI; use pack_req_payload pack_ack_payload in \<open>force simp: bit_simps\<close>)+

text \<open>A request and an acknowledgement arrive at their handlers as they were packed.\<close>

lemma dispatch_delegate_req:
  "cap_dispatch_msg cpu c (urpc_pack_msg URPC_CAP_DELEGATE_REQ (cap_tx_pack_req orig slot g op)) s =
   cap_handle_tx_req cpu (cap_tx_pack_req orig slot g op) c s"
  by (simp add: cap_dispatch_msg_def urpc_unpack_pack take_bit_pack cap_handle_delegate_req_def)

lemma dispatch_delegate_ack:
  "cap_dispatch_msg cpu c (urpc_pack_msg URPC_CAP_DELEGATE_ACK (cap_tx_pack_ack orig slot g resp st)) s =
   cap_handle_tx_ack cpu (cap_tx_pack_ack orig slot g resp st) s"
  by (simp add: cap_dispatch_msg_def urpc_unpack_pack take_bit_pack cap_handle_delegate_ack_def)

lemma small_u8: "c < 32 \<Longrightarrow> unat (of_nat c :: u8) = c" "k < 16 \<Longrightarrow> unat (of_nat k :: u8) = k"
  by (simp_all add: unsigned_of_nat take_bit_nat_eq_self)

lemma small_u8_less: "c < 32 \<Longrightarrow> (of_nat c :: u8) < 32" "k < 16 \<Longrightarrow> (of_nat k :: u8) < 16" "k < 16 \<Longrightarrow> (of_nat k :: u8) < 64"
  using small_u8 by (simp_all add: word_less_nat_alt)

text \<open>Sending through a bound channel with room.\<close>

definition urpc_last_sent :: "kstate \<Rightarrow> nat \<Rightarrow> u64" where
  "urpc_last_sent s core = last (uring_list (uc_tx_ring (us_channels (ks_urpc s) core)))"

definition urpc_open :: "kstate \<Rightarrow> nat \<Rightarrow> bool" where
  "urpc_open s core \<longleftrightarrow> core < ks_max_cpus s \<and> uc_is_bound (us_channels (ks_urpc s) core) \<and>
     uring_wf (uc_tx_ring (us_channels (ks_urpc s) core)) \<and> uring_count (uc_tx_ring (us_channels (ks_urpc s) core)) < 255"

lemma urpc_open_send:
  assumes "urpc_open s core"
  shows "fst (ks_urpc_send core m s) = K_OK \<and> urpc_last_sent (snd (ks_urpc_send core m s)) core = m \<and>
    (\<forall>c. c \<noteq> core \<longrightarrow> us_channels (ks_urpc (snd (ks_urpc_send core m s))) c = us_channels (ks_urpc s) c) \<and>
    us_states (ks_urpc (snd (ks_urpc_send core m s))) = us_states (ks_urpc s)"
proof -
  let ?r = "uc_tx_ring (us_channels (ks_urpc s) core)"
  obtain r where r: "ring_put ?r m = Some r"
    using assms ring_put_None [of ?r m] unfolding urpc_open_def by (cases "ring_put ?r m") auto
  then have "uring_list r = uring_list ?r @ [m]" using ring_put_Some [of ?r m r] assms by (simp add: urpc_open_def)
  then show ?thesis
    using r assms by (simp add: ks_urpc_send_def urpc_bootstrap_send_def urpc_open_def urpc_last_sent_def)
qed

lemma urpc_open_cong:
  "ks_urpc t = ks_urpc s \<Longrightarrow> ks_max_cpus t = ks_max_cpus s \<Longrightarrow> urpc_open t core = urpc_open s core"
  by (simp add: urpc_open_def)

lemma entry_at_frame [simp]:
  "entry_at (upd_tx c k f s) p i = entry_at s p i" "entry_at (snd (ks_urpc_send c m s)) p i = entry_at s p i"
  by (simp_all add: entry_at_def)

section \<open>The origin's side of a remote delegation\<close>

text \<open>What the origin has published, as far as the other side reads it.\<close>

definition tx_describes :: "cap_tx_entry \<Rightarrow> bh_cap_locator \<Rightarrow> bh_cap_locator \<Rightarrow> capability_entry \<Rightarrow> u64 \<Rightarrow> nat \<Rightarrow> bool" where
  "tx_describes tx src_loc dst_loc e rights target_core \<longleftrightarrow>
     tx_src tx = src_loc \<and> tx_dst tx = dst_loc \<and> tx_type tx = ce_type e \<and> tx_requested_rights tx = rights \<and>
     tx_object_ref tx = ce_object_ref e \<and> tx_revocation_epoch tx = ce_revocation_epoch e \<and>
     tx_src_first_child tx = ce_first_child e \<and> tx_target_mask tx = push_bit target_core 1 \<and> tx_result tx = 0"

lemma cap_tx_alloc_ok:
  assumes "cpu < MAX_CPUS" and "\<exists>k < CAP_TX_PER_CORE. tx_state (ks_tx s cpu k) \<in> {BH_CAP_TX_FREE, BH_CAP_TX_COMMITTED, BH_CAP_TX_ABORTED}"
  obtains k where "k < CAP_TX_PER_CORE" "cap_tx_alloc cpu op s = (Some k, upd_tx cpu k (cap_tx_reset cpu op) s)"
    "tx_state (ks_tx s cpu k) \<in> {BH_CAP_TX_FREE, BH_CAP_TX_COMMITTED, BH_CAP_TX_ABORTED}"
proof -
  let ?P = "\<lambda>i. let st = tx_state (ks_tx s cpu i) in st = BH_CAP_TX_FREE \<or> st = BH_CAP_TX_COMMITTED \<or> st = BH_CAP_TX_ABORTED"
  have "find ?P [0..<16] \<noteq> None" unfolding find_upt_None_iff using assms(2) by (auto simp: Let_def)
  then obtain k where k: "find ?P [0..<16] = Some k" by blast
  then have "k < 16" "?P k" by (auto simp: find_upt_Some_iff)
  then show ?thesis using that [of k] k assms(1) by (auto simp: cap_tx_alloc_def Let_def)
qed

lemma cap_delegate_begin_ok:
  assumes "cap_delegate_source (ks_tables s src) h = Some i" and "cpu < MAX_CPUS"
    and "ce_rights (entry_at s src i) AND CAP_RIGHT_DELEGATE \<noteq> 0" "ce_rights (entry_at s src i) AND rights = rights"
      "cap_rights_valid (ce_type (entry_at s src i)) rights" "rights \<noteq> CAP_RIGHT_NONE"
    and "unat (ct_owner_core (ks_tables s dst)) = tc" "us_states (ks_urpc s) tc = URPC_CHANNEL_BOUND" "urpc_open s tc"
    and "\<exists>k < CAP_TX_PER_CORE. tx_state (ks_tx s cpu k) \<in> {BH_CAP_TX_FREE, BH_CAP_TX_COMMITTED, BH_CAP_TX_ABORTED}"
  obtains k s1 where "k < CAP_TX_PER_CORE" "cap_table_delegate_begin cpu src dst h rights s = (Inr (i, k), s1)"
    "ks_tables s1 = ks_tables s" "ks_registry s1 = ks_registry s" "ks_bootstrap_used s1 = ks_bootstrap_used s"
    "ks_max_cpus s1 = ks_max_cpus s" "\<And>c. c \<noteq> tc \<Longrightarrow> us_channels (ks_urpc s1) c = us_channels (ks_urpc s) c"
    "tx_state (ks_tx s1 cpu k) = BH_CAP_TX_PUBLISHED" "tx_ack_mask (ks_tx s1 cpu k) = 0"
    "tx_describes (ks_tx s1 cpu k)
       (cap_locator_make (Some (ks_tables s src)) i (ce_generation (entry_at s src i)) (ucast (ce_revocation_epoch (entry_at s src i))))
       (cap_locator_make (Some (ks_tables s dst)) 0 0 0) (entry_at s src i) rights tc"
    "urpc_last_sent s1 tc = urpc_pack_msg URPC_CAP_DELEGATE_REQ
       (cap_tx_pack_req (of_nat cpu) (of_nat k) (tx_generation (ks_tx s1 cpu k)) (ucast BH_CAP_TX_OP_DELEGATE))"
    "\<And>c j. (c, j) \<noteq> (cpu, k) \<Longrightarrow> ks_tx s1 c j = ks_tx s c j" "tx_op (ks_tx s1 cpu k) = BH_CAP_TX_OP_DELEGATE"
proof (rule cap_tx_alloc_ok [OF assms(2,10), of BH_CAP_TX_OP_DELEGATE])
  fix k assume k: "k < 16" "cap_tx_alloc cpu BH_CAP_TX_OP_DELEGATE s = (Some k, upd_tx cpu k (cap_tx_reset cpu BH_CAP_TX_OP_DELEGATE) s)"
  let ?e = "entry_at s src i"
  define s2 where "s2 = upd_tx cpu k (\<lambda>tx. tx\<lparr>
        tx_src := cap_locator_make (Some (ks_tables s src)) i (ce_generation ?e) (ucast (ce_revocation_epoch ?e)),
        tx_dst := cap_locator_make (Some (ks_tables s dst)) 0 0 0,
        tx_type := ce_type ?e, tx_requested_rights := rights,
        tx_object_ref := ce_object_ref ?e, tx_flags := ce_flags ?e, tx_owner_core := ce_owner_core ?e,
        tx_instance_id := (ce_instance_id ?e)\<lparr>ci_rights_digest := rights\<rparr>,
        tx_revocation_epoch := ce_revocation_epoch ?e, tx_src_first_child := ce_first_child ?e,
        tx_target_mask := push_bit tc 1, tx_ack_mask := 0, tx_result := 0,
        tx_remote_cap_id := 0, tx_remote_dst_slot := - 1, tx_remote_dst_gen := 0,
        tx_state := BH_CAP_TX_PUBLISHED\<rparr>) (upd_tx cpu k (cap_tx_reset cpu BH_CAP_TX_OP_DELEGATE) s)"
  let ?m = "urpc_pack_msg URPC_CAP_DELEGATE_REQ
       (cap_tx_pack_req (of_nat cpu) (of_nat k) (tx_generation (ks_tx s2 cpu k)) (ucast BH_CAP_TX_OP_DELEGATE))"
  have f: "ks_tables s2 = ks_tables s" "ks_registry s2 = ks_registry s" "ks_bootstrap_used s2 = ks_bootstrap_used s"
    "ks_max_cpus s2 = ks_max_cpus s" "ks_urpc s2 = ks_urpc s" by (simp_all add: s2_def)
  have other: "ks_tx s2 c j = ks_tx s c j" if "(c, j) \<noteq> (cpu, k)" for c j
    using that by (auto simp: s2_def)
  have "urpc_open s2 tc" using assms(9) urpc_open_cong [of s2 s] f by simp
  note snd = urpc_open_send [OF this, of ?m]
  have "cap_table_delegate_begin cpu src dst h rights s =
      (case ks_urpc_send tc ?m s2 of (st, s3) \<Rightarrow>
         if st \<noteq> K_OK then (Inl (-6), cap_tx_release cpu k (cap_tx_set_state cpu k BH_CAP_TX_ABORTED s3)) else (Inr (i, k), s3))"
    using assms(1,3-9) k(2)
    by (simp add: cap_table_delegate_begin_def Let_def urpc_channel_get_state_def urpc_open_def s2_def)
  then have eq: "cap_table_delegate_begin cpu src dst h rights s = (Inr (i, k), snd (ks_urpc_send tc ?m s2))"
    using snd by (simp add: split_beta)
  show ?thesis
    by (rule that [OF k(1) eq], use snd f other in \<open>simp_all add: tx_describes_def\<close>)
       (simp_all add: s2_def cap_tx_reset_def)
qed

section \<open>The target's side\<close>

lemma cap_tx_delegate_ok:
  assumes wf: "caps_wf s" "cap_registered s tc k' dst" and b: "cpu < MAX_CPUS" "k < CAP_TX_PER_CORE"
    and st: "tx_state (ks_tx s cpu k) = BH_CAP_TX_PUBLISHED" and d: "tx_dst (ks_tx s cpu k) = cap_locator_make (Some (ks_tables s dst)) 0 0 0"
    and legal: "tx_type (ks_tx s cpu k) \<noteq> CAP_TYPE_NONE" "tx_requested_rights (ks_tx s cpu k) \<noteq> 0"
      "cap_rights_valid (tx_type (ks_tx s cpu k)) (tx_requested_rights (ks_tx s cpu k))"
    and room: "ida_used (ct_id_allocator (ks_tables s dst)) \<noteq> {..<CAP_ENTRIES}" and op: "urpc_open s cpu"
  obtains j s1 s2 where
    "cap_handle_tx_req tc (cap_tx_pack_req (of_nat cpu) (of_nat k) (tx_generation (ks_tx s cpu k)) (ucast BH_CAP_TX_OP_DELEGATE)) cpu s = s2"
    "cap_installs dst j (cap_tx_child_entry (ks_tx s cpu k) j (entry_at s dst j)) s s1"
    "ks_tables s2 = ks_tables s1" "ks_registry s2 = ks_registry s" "ks_bootstrap_used s2 = ks_bootstrap_used s"
    "ks_tx s2 cpu k = (ks_tx s cpu k)\<lparr>tx_remote_cap_id := of_nat j + 1, tx_remote_dst_slot := of_nat j,
        tx_remote_dst_gen := ce_generation (entry_at s dst j) + 1\<rparr>"
    "\<And>c m. (c, m) \<noteq> (cpu, k) \<Longrightarrow> ks_tx s2 c m = ks_tx s c m"
    "urpc_last_sent s2 cpu = urpc_pack_msg URPC_CAP_DELEGATE_ACK
       (cap_tx_pack_ack (of_nat cpu) (of_nat k) (tx_generation (ks_tx s cpu k)) (of_nat tc) 0)"
proof -
  let ?tx = "ks_tx s cpu k" and ?oc = "of_nat cpu :: u8" and ?sl = "of_nat k :: u8"
  have tc: "tc < 32" using wf(2) by (simp add: cap_registered_def)
  note tw = caps_wfD(1) [OF wf]
  have u: "unat ?oc = cpu" "unat ?sl = k" using small_u8 b by auto
  have res: "cap_locator_resolve_table s (tx_dst ?tx) = Some dst"
    unfolding d by (rule resolve_registered [OF wf]) simp
  have core: "unat (loc_owner_core (tx_dst ?tx)) = tc" "unat (ct_owner_core (ks_tables s dst)) = tc"
    using caps_wfD(2) [OF wf] small_unat(1) [OF tc] by (simp_all add: d cap_locator_make_def)
  obtain j a where al: "cap_alloc_slot dst s = (Some j, upd_table dst (\<lambda>t. t\<lparr>ct_id_allocator := a\<rparr>) s)"
    using cap_alloc_slot_cases [OF tw] room by metis
  define s0 where "s0 = upd_table dst (\<lambda>t. t\<lparr>ct_id_allocator := a\<rparr>) s"
  let ?s1 = "upd_entry dst j (cap_tx_child_entry ?tx j) s0"
  let ?d = "cap_tx_child_entry ?tx j (entry_at s dst j)"
  have inst: "cap_installs dst j ?d s ?s1"
    by (rule cap_alloc_write_installs [OF tw al [folded s0_def]])
       (use legal in \<open>simp_all add: cap_tx_child_entry_def s0_def entry_at_def\<close>)
  have e1: "entry_at ?s1 dst j = ?d" using inst by (simp add: cap_installs_def)
  let ?s3 = "upd_tx cpu k (\<lambda>tx. tx\<lparr>tx_remote_cap_id := ce_id ?d, tx_remote_dst_slot := of_nat j,
              tx_remote_dst_gen := ce_generation ?d\<rparr>) ?s1"
  let ?s4 = "cap_endpoint_ref_acquire (tx_type ?tx) (tx_object_ref ?tx) (tx_requested_rights ?tx) ?s3"
  let ?s2 = "cap_send_ack URPC_CAP_DELEGATE_ACK tc cpu ?oc ?sl (tx_generation ?tx) 0 ?s4"
  have eq: "cap_handle_tx_req tc (cap_tx_pack_req ?oc ?sl (tx_generation ?tx) (ucast BH_CAP_TX_OP_DELEGATE)) cpu s = ?s2"
    using b st res core al e1
    by (simp add: cap_handle_tx_req_def pack_req_unpack small_u8_less u cap_tx_answerable_def cap_handle_tx_delegate_def
        Let_def status_simps s0_def)
  have op4: "urpc_open ?s4 cpu" using op urpc_open_cong [of ?s4 s] by (simp add: s0_def)
  have sent: "urpc_last_sent ?s2 cpu = urpc_pack_msg URPC_CAP_DELEGATE_ACK (cap_tx_pack_ack ?oc ?sl (tx_generation ?tx) (of_nat tc) 0)"
    unfolding cap_send_ack_def using urpc_open_send [OF op4] by simp
  show ?thesis
    by (rule that [OF eq inst _ _ _ _ _ sent]) (auto simp: s0_def cap_tx_child_entry_def)
qed

section \<open>Acknowledgements\<close>

lemma cap_tx_ack_pack:
  assumes "cpu < MAX_CPUS" "k < CAP_TX_PER_CORE" "tc < MAX_CPUS"
  shows "cap_handle_tx_ack cpu (cap_tx_pack_ack (of_nat cpu) (of_nat k) g (of_nat tc) st) s =
    (let tx = ks_tx s cpu k
     in if cap_tx_answerable tx g \<and> bit (tx_target_mask tx) tc \<and> \<not> bit (tx_ack_mask tx) tc
        then upd_tx cpu k (cap_tx_record_ack (of_nat tc) st) s else s)"
  using assms by (auto simp: cap_handle_tx_ack_def pack_ack_unpack small_u8_less small_u8 Let_def)

lemma cap_tx_acked_iff: "cap_tx_acked s c k \<longleftrightarrow> (\<forall>n. bit (tx_target_mask (ks_tx s c k)) n \<longrightarrow> bit (tx_ack_mask (ks_tx s c k)) n)"
  using bit_imp_le_length [where 'a = 32] by (auto simp: cap_tx_acked_def bit_eq_iff bit_and_iff)

section \<open>Properties\<close>

text \<open>A transport that delivers: the target handles the last request sent to it, and the origin the answer.\<close>

definition cap_remote_turn :: "nat \<Rightarrow> nat \<Rightarrow> kstate \<Rightarrow> kstate" where
  "cap_remote_turn cpu tc s =
     (let s1 = cap_dispatch_msg tc cpu (urpc_last_sent s tc) s
      in cap_dispatch_msg cpu tc (urpc_last_sent s1 cpu) s1)"

lemma caps_wf_cong:
  "ks_tables t = ks_tables s \<Longrightarrow> ks_registry t = ks_registry s \<Longrightarrow> ks_bootstrap_used t = ks_bootstrap_used s \<Longrightarrow> caps_wf t = caps_wf s"
  by (simp add: caps_wf_def cspace_wf_def)

lemma cap_remote_turn_ok:
  assumes wf: "caps_wf s" "cap_registered s tc m dst" and b: "cpu < MAX_CPUS" "k < CAP_TX_PER_CORE"
    and pub: "tx_state (ks_tx s cpu k) = BH_CAP_TX_PUBLISHED" "tx_ack_mask (ks_tx s cpu k) = 0"
    and desc: "tx_describes (ks_tx s cpu k) src_loc (cap_locator_make (Some (ks_tables s dst)) 0 0 0) e rights tc"
    and legal: "ce_type e \<noteq> CAP_TYPE_NONE" "rights \<noteq> CAP_RIGHT_NONE" "cap_rights_valid (ce_type e) rights"
    and room: "ida_used (ct_id_allocator (ks_tables s dst)) \<noteq> {..<CAP_ENTRIES}" and op: "urpc_open s cpu"
    and sent: "urpc_last_sent s tc = urpc_pack_msg URPC_CAP_DELEGATE_REQ
       (cap_tx_pack_req (of_nat cpu) (of_nat k) (tx_generation (ks_tx s cpu k)) (ucast BH_CAP_TX_OP_DELEGATE))"
  obtains j t where "\<not> cap_tx_acked s cpu k" "cap_tx_acked (cap_remote_turn cpu tc s) cpu k"
    "cap_installs dst j (cap_tx_child_entry (ks_tx s cpu k) j (entry_at s dst j)) s t"
    "ks_tables (cap_remote_turn cpu tc s) = ks_tables t" "ks_registry (cap_remote_turn cpu tc s) = ks_registry s"
    "ks_bootstrap_used (cap_remote_turn cpu tc s) = ks_bootstrap_used s"
    "ks_tx (cap_remote_turn cpu tc s) cpu k = (ks_tx s cpu k)\<lparr>tx_remote_cap_id := of_nat j + 1, tx_remote_dst_slot := of_nat j,
        tx_remote_dst_gen := ce_generation (entry_at s dst j) + 1, tx_ack_mask := push_bit tc 1\<rparr>"
    "\<And>c l. (c, l) \<noteq> (cpu, k) \<Longrightarrow> ks_tx (cap_remote_turn cpu tc s) c l = ks_tx s c l"
proof -
  note D = desc [unfolded tx_describes_def]
  have tc: "tc < 32" using wf(2) by (simp add: cap_registered_def)
  obtain j t s2 where
    req: "cap_handle_tx_req tc (cap_tx_pack_req (of_nat cpu) (of_nat k) (tx_generation (ks_tx s cpu k)) (ucast BH_CAP_TX_OP_DELEGATE)) cpu s = s2"
    and inst: "cap_installs dst j (cap_tx_child_entry (ks_tx s cpu k) j (entry_at s dst j)) s t"
    and s2: "ks_tables s2 = ks_tables t" "ks_registry s2 = ks_registry s" "ks_bootstrap_used s2 = ks_bootstrap_used s"
      "ks_tx s2 cpu k = (ks_tx s cpu k)\<lparr>tx_remote_cap_id := of_nat j + 1, tx_remote_dst_slot := of_nat j,
        tx_remote_dst_gen := ce_generation (entry_at s dst j) + 1\<rparr>"
    and oth: "\<And>c m. (c, m) \<noteq> (cpu, k) \<Longrightarrow> ks_tx s2 c m = ks_tx s c m"
    and sent2: "urpc_last_sent s2 cpu = urpc_pack_msg URPC_CAP_DELEGATE_ACK
       (cap_tx_pack_ack (of_nat cpu) (of_nat k) (tx_generation (ks_tx s cpu k)) (of_nat tc) 0)"
    by (rule cap_tx_delegate_ok [OF wf b pub(1)]) (use D legal room op in \<open>auto simp: rights_simps\<close>)
  have turn: "cap_remote_turn cpu tc s = upd_tx cpu k (cap_tx_record_ack (of_nat tc) 0) s2"
    using D pub s2(4) tc
    by (simp add: cap_remote_turn_def sent dispatch_delegate_req req sent2 dispatch_delegate_ack
        cap_tx_ack_pack [OF b tc] cap_tx_answerable_def bit_exp_iff)
  have "\<not> cap_tx_acked s cpu k" using D pub(2) tc by (auto simp: cap_tx_acked_iff bit_exp_iff)
  moreover have "cap_tx_acked (cap_remote_turn cpu tc s) cpu k"
    using D s2(4) tc by (auto simp: cap_tx_acked_iff turn cap_tx_record_ack_def bit_exp_iff small_u8)
  ultimately show ?thesis
    by (rule that [OF _ _ inst]) (use s2 oth pub(2) tc in \<open>auto simp: turn cap_tx_record_ack_def small_u8\<close>)
qed

lemma cap_delegate_finish_ok:
  assumes "cap_tx_acked s cpu k" and "tx_result (ks_tx s cpu k) = 0" and "cpu < MAX_CPUS" "k < CAP_TX_PER_CORE"
    and "ce_in_use (entry_at s src i)" "ce_id (entry_at s src i) = bh_cap_index h"
      "ce_generation (entry_at s src i) = loc_generation (tx_src (ks_tx s cpu k))" "ce_state (entry_at s src i) = CAP_STATE_LIVE"
  shows "cap_table_delegate_finish cpu src dst h i k (Some out) s =
    (0, upd_tx cpu k (\<lambda>tx. tx\<lparr>tx_state := BH_CAP_TX_FREE\<rparr>) (upd_entry src i (\<lambda>e. e\<lparr>ce_first_child :=
          cap_locator_make (Some (ks_tables s dst)) (unat (tx_remote_dst_slot (ks_tx s cpu k))) (tx_remote_dst_gen (ks_tx s cpu k))
            (ucast (tx_revocation_epoch (ks_tx s cpu k)))\<rparr>) s),
     Some (cap_handle_of (tx_remote_cap_id (ks_tx s cpu k)) (tx_remote_dst_gen (ks_tx s cpu k))))"
  using assms by (simp add: cap_table_delegate_finish_def Let_def cap_tx_release_def cap_tx_set_state_def)
     (simp add: upd_tx_def fun_upd_comp)


text \<open>A sample with a table on each of two cores.\<close>

definition sample_cross :: kstate where
  "sample_cross = snd (cap_table_create 1 (Some 1) sample_caps)"

lemma sample_cross_facts:
  "caps_wf sample_cross" "cap_registered sample_cross 0 0 (Heap_Table 0)" "cap_registered sample_cross 1 0 (Heap_Table 1)"
  "ks_tables sample_cross (Heap_Table 0) = fresh_table 0 0 1" "ks_tables sample_cross (Heap_Table 1) = fresh_table 1 0 1"
  "ks_urpc sample_cross = ks_urpc sample_state" "ks_tx sample_cross = ks_tx sample_state" "ks_max_cpus sample_cross = 64"
proof -
  have eq: "cap_table_create 1 (Some 1) sample_caps = (Some (Heap_Table 1), sample_cross)"
    "re_table (ks_registry sample_cross 0 0) = Some (Heap_Table 0)" "re_table (ks_registry sample_cross 1 0) = Some (Heap_Table 1)"
    "ks_tables sample_cross (Heap_Table 0) = fresh_table 0 0 1" "ks_tables sample_cross (Heap_Table 1) = fresh_table 1 0 1"
    "ks_urpc sample_cross = ks_urpc sample_state" "ks_tx sample_cross = ks_tx sample_state" "ks_max_cpus sample_cross = 64"
    by (simp_all add: sample_cross_def sample_caps_def cap_table_create_def sample_state_def upt_conv_Cons Let_def)
  have "block_fresh sample_caps (Some 1)"
    by (auto simp: block_fresh_def cap_registered_def sample_caps_def cap_table_create_def sample_state_def upt_conv_Cons Let_def)
  then show "caps_wf sample_cross" using cap_table_create_wf [OF sample_caps_wf _ eq(1)] by simp
  show "cap_registered sample_cross 0 0 (Heap_Table 0)" "cap_registered sample_cross 1 0 (Heap_Table 1)"
    "ks_tables sample_cross (Heap_Table 0) = fresh_table 0 0 1" "ks_tables sample_cross (Heap_Table 1) = fresh_table 1 0 1"
    "ks_urpc sample_cross = ks_urpc sample_state" "ks_tx sample_cross = ks_tx sample_state" "ks_max_cpus sample_cross = 64"
    using eq by (simp_all add: cap_registered_def)
qed

lemma cap_table_grant_frame:
  "ks_urpc (fst (snd (cap_table_grant cpu t ty ob r out s))) = ks_urpc s"
  "ks_tx (fst (snd (cap_table_grant cpu t ty ob r out s))) = ks_tx s"
  "ks_max_cpus (fst (snd (cap_table_grant cpu t ty ob r out s))) = ks_max_cpus s"
  by (auto simp: cap_table_grant_def cap_alloc_slot_def Let_def split: option.split prod.split)


text \<open>
  After a timeout the origin sends a rollback request, but frees the transaction at once: the
  request finds a free slot at the target and is dropped, whatever was installed there.
\<close>

lemma cap_delegate_timeout_no_rollback:
  assumes "\<not> cap_tx_acked s cpu k" and "cpu < MAX_CPUS" "k < CAP_TX_PER_CORE"
    and "cap_table_delegate_finish cpu src dst h i k out s = (st, s', out')"
  shows "st = K_ERR_TIMEOUT \<and> (\<forall>tc c. cap_handle_tx_req tc (cap_tx_pack_req (of_nat cpu) (of_nat k)
    (tx_generation (ks_tx s cpu k)) (ucast BH_CAP_TX_OP_ROLLBACK)) c s' = s')"
proof -
  have "st = K_ERR_TIMEOUT" and "tx_state (ks_tx s' cpu k) = BH_CAP_TX_FREE"
    using assms by (auto simp: cap_table_delegate_finish_def Let_def cap_tx_release_def cap_tx_set_state_def)
  then show ?thesis
    using assms(2,3) by (simp add: cap_handle_tx_req_def pack_req_unpack small_u8_less small_u8 cap_tx_answerable_def)
qed

text \<open>Which transaction and which core an acknowledgement word is about.\<close>

definition ack_for :: "nat \<Rightarrow> nat \<Rightarrow> u32 \<Rightarrow> nat \<Rightarrow> u64 \<Rightarrow> bool" where
  "ack_for cpu k g n payload \<longleftrightarrow>
     (case cap_tx_unpack_ack payload of (orig, slot, generation, resp, _) \<Rightarrow>
        unat orig = cpu \<and> unat slot = k \<and> generation = g \<and> unat resp = n \<and> n < MAX_CPUS)"

lemma ack_tx_frame:
  "tx_target_mask (ks_tx (cap_handle_tx_ack cpu p s) c j) = tx_target_mask (ks_tx s c j)"
  "tx_generation (ks_tx (cap_handle_tx_ack cpu p s) c j) = tx_generation (ks_tx s c j)"
  "tx_state (ks_tx (cap_handle_tx_ack cpu p s) c j) = tx_state (ks_tx s c j)"
  by (auto simp: cap_handle_tx_ack_def cap_tx_record_ack_def Let_def split: prod.split)

lemma ack_one:
  assumes "cpu < MAX_CPUS" "k < CAP_TX_PER_CORE" "tx_state (ks_tx s cpu k) = BH_CAP_TX_PUBLISHED"
  shows "bit (tx_ack_mask (ks_tx (cap_handle_tx_ack cpu p s) cpu k)) n \<longleftrightarrow>
    bit (tx_ack_mask (ks_tx s cpu k)) n \<or> bit (tx_target_mask (ks_tx s cpu k)) n \<and> ack_for cpu k (tx_generation (ks_tx s cpu k)) n p"
proof -
  obtain orig slot g resp st where u: "cap_tx_unpack_ack p = (orig, slot, g, resp, st)" by (cases "cap_tx_unpack_ack p")
  show ?thesis
    using assms unfolding cap_handle_tx_ack_def ack_for_def u prod.case Let_def
    by (auto simp: cap_tx_answerable_def cap_tx_record_ack_def)
qed

text \<open>
  C17: The acknowledgements of a transaction are counted exactly. Whatever acknowledgement words a
  core receives, in any order and with any repetitions, a core is marked as having acknowledged the
  published transaction exactly if it was marked before, or is among its targets and one of the
  words is its acknowledgement of this transaction in this generation; so the wait ends exactly when
  every target has answered. The target set, the generation and the state are untouched.
\<close>

theorem cap_acks_exact:
  assumes "cpu < MAX_CPUS" and "k < CAP_TX_PER_CORE" and "tx_state (ks_tx s cpu k) = BH_CAP_TX_PUBLISHED"
  shows "let s' = fold (cap_handle_tx_ack cpu) ps s; tx = ks_tx s cpu k; tx' = ks_tx s' cpu k
     in (\<forall>n. bit (tx_ack_mask tx') n \<longleftrightarrow> bit (tx_ack_mask tx) n \<or>
          bit (tx_target_mask tx) n \<and> (\<exists>p \<in> set ps. ack_for cpu k (tx_generation tx) n p)) \<and>
        (cap_tx_acked s' cpu k \<longleftrightarrow> (\<forall>n. bit (tx_target_mask tx) n \<longrightarrow> bit (tx_ack_mask tx) n \<or>
          (\<exists>p \<in> set ps. ack_for cpu k (tx_generation tx) n p))) \<and>
        tx_target_mask tx' = tx_target_mask tx \<and> tx_generation tx' = tx_generation tx \<and> tx_state tx' = tx_state tx"
proof -
  have "(bit (tx_ack_mask (ks_tx (fold (cap_handle_tx_ack cpu) ps s) cpu k)) n \<longleftrightarrow> bit (tx_ack_mask (ks_tx s cpu k)) n \<or>
          bit (tx_target_mask (ks_tx s cpu k)) n \<and> (\<exists>p \<in> set ps. ack_for cpu k (tx_generation (ks_tx s cpu k)) n p)) \<and>
      tx_target_mask (ks_tx (fold (cap_handle_tx_ack cpu) ps s) cpu k) = tx_target_mask (ks_tx s cpu k) \<and>
      tx_generation (ks_tx (fold (cap_handle_tx_ack cpu) ps s) cpu k) = tx_generation (ks_tx s cpu k) \<and>
      tx_state (ks_tx (fold (cap_handle_tx_ack cpu) ps s) cpu k) = tx_state (ks_tx s cpu k)" for n
    using assms(3)
  proof (induction ps arbitrary: s)
    case (Cons p ps)
    have "tx_state (ks_tx (cap_handle_tx_ack cpu p s) cpu k) = BH_CAP_TX_PUBLISHED" using Cons.prems by (simp add: ack_tx_frame)
    from Cons.IH [OF this] show ?case using ack_one [OF assms(1,2) Cons.prems] by (auto simp: ack_tx_frame)
  qed simp
  then show ?thesis unfolding Let_def cap_tx_acked_iff by auto
qed

theorem cap_acks_exact_witness:
  "cap_tx_acked (fold (cap_handle_tx_ack 0) [cap_tx_pack_ack 0 0 7 1 0, cap_tx_pack_ack 0 0 7 2 0, cap_tx_pack_ack 0 0 7 2 0]
     (upd_tx 0 0 (\<lambda>tx. tx\<lparr>tx_state := BH_CAP_TX_PUBLISHED, tx_generation := 7, tx_target_mask := 4\<rparr>) sample_state)) 0 0"
proof -
  let ?s = "upd_tx 0 0 (\<lambda>tx. tx\<lparr>tx_state := BH_CAP_TX_PUBLISHED, tx_generation := 7, tx_target_mask := 4\<rparr>) sample_state"
  have "bit (4 :: u32) n \<longleftrightarrow> n = 2" for n
    using bit_exp_iff [where 'a = "32 word", of 2 n] by auto
  then show ?thesis
    using cap_acks_exact [of 0 0 ?s "[cap_tx_pack_ack 0 0 7 1 0, cap_tx_pack_ack 0 0 7 2 0, cap_tx_pack_ack 0 0 7 2 0]"]
    unfolding Let_def by (auto simp: ack_for_def pack_ack_unpack)
qed

end
