(* ===== verification/Cap_Revoke.thy ===== *)
theory Cap_Revoke
  imports Cap_Tx
begin

text \<open>
  Revocation (src/core/kernel/src/cap/cap_revoke.c): the order in which tables are locked, and the
  phases of \<^verbatim>\<open>cap_table_revoke\<close>. The walks over the tree of derived capabilities follow locators that
  other operations have written; on a cyclic structure they do not end. They are partial functions,
  with \<open>None\<close> for a walk that does not return.
\<close>

unbundle bit_operations_syntax

section \<open>Lock order\<close>

definition lock_key :: "capability_table \<Rightarrow> nat \<times> nat \<times> nat" where
  "lock_key t = (unat (ct_owner_core t), unat (ct_cspace_id t), unat (ct_registry_slot t))"

definition lock_after :: "capability_table \<Rightarrow> capability_table \<Rightarrow> bool" where
  "lock_after t key \<longleftrightarrow>
     ct_owner_core t > ct_owner_core key \<or>
     ct_owner_core t = ct_owner_core key \<and> ct_cspace_id t > ct_cspace_id key \<or>
     ct_owner_core t = ct_owner_core key \<and> ct_cspace_id t = ct_cspace_id key \<and> ct_registry_slot t > ct_registry_slot key"

text \<open>
  One round of the insertion sort: the tables before \<open>key\<close>, in reverse, lose those after \<open>key\<close> to the
  part behind it.
\<close>

fun lock_insert :: "(tptr \<Rightarrow> capability_table) \<Rightarrow> tptr \<Rightarrow> tptr list \<Rightarrow> tptr list" where
  "lock_insert tab key [] = [key]"
| "lock_insert tab key (x # before) =
     (if lock_after (tab x) (tab key) then x # lock_insert tab key before else key # x # before)"

fun lock_sort :: "(tptr \<Rightarrow> capability_table) \<Rightarrow> tptr list \<Rightarrow> tptr list \<Rightarrow> tptr list" where
  "lock_sort tab before [] = rev before"
| "lock_sort tab before (key # rest) = lock_sort tab (lock_insert tab key before) rest"

fun lock_unique :: "tptr option \<Rightarrow> tptr list \<Rightarrow> tptr list" where
  "lock_unique held [] = []"
| "lock_unique held (x # xs) = (if Some x \<noteq> held then x # lock_unique (Some x) xs else lock_unique held xs)"

text \<open>The sorted array, and the locks in the order in which they are taken and released.\<close>

definition cap_lock_tables_sorted :: "(tptr \<Rightarrow> capability_table) \<Rightarrow> tptr list \<Rightarrow> tptr list \<times> tptr list" where
  "cap_lock_tables_sorted tab tables = (let sorted = lock_sort tab [] tables in (sorted, lock_unique None sorted))"

definition cap_unlock_tables_sorted :: "tptr list \<Rightarrow> tptr list" where
  "cap_unlock_tables_sorted tables = lock_unique None (rev tables)"

section \<open>The root and its place among its siblings\<close>

definition revoke_root :: "capability_table \<Rightarrow> u32 \<Rightarrow> nat option" where
  "revoke_root t cap_id =
     (case cap_slot_of_id t (cap_id AND 0xFFFF) of
        None \<Rightarrow> None
      | Some i \<Rightarrow>
        if \<not> bh_cap_generation_matches (ce_generation (ct_entries t ! i)) (drop_bit 16 cap_id) then None
        else if ce_state (ct_entries t ! i) = CAP_STATE_FREE then None
        else Some i)"

text \<open>The scan that collects the tables of the siblings, at most sixteen.\<close>

partial_function (option) revoke_collect ::
    "kstate \<Rightarrow> tptr list \<Rightarrow> bh_cap_locator \<Rightarrow> tptr list option" where
  "revoke_collect s tables l =
     (if cap_locator_is_null l \<or> length tables \<ge> 16 then Some tables
      else case cap_locator_resolve_table s l of
        None \<Rightarrow> Some tables
      | Some st \<Rightarrow>
        let tables' = (if st \<in> set tables then tables else tables @ [st])
        in if unat (loc_slot l) < CAP_ENTRIES
           then revoke_collect s tables' (ce_next_sibling (entry_at s st (unat (loc_slot l))))
           else Some tables')"

text \<open>The search for the root in its parent's list, with the sibling before it.\<close>

partial_function (option) revoke_find_prev ::
    "kstate \<Rightarrow> tptr \<Rightarrow> nat \<Rightarrow> u32 \<Rightarrow> bh_cap_locator \<Rightarrow> bh_cap_locator \<Rightarrow> bh_cap_locator option option" where
  "revoke_find_prev s table root_slot root_gen sibling prev =
     (if cap_locator_is_null sibling then Some None
      else case cap_locator_resolve_table s sibling of
        None \<Rightarrow> Some None
      | Some st \<Rightarrow>
        if unat (loc_slot sibling) \<ge> CAP_ENTRIES then Some None
        else if st = table \<and> unat (loc_slot sibling) = root_slot \<and> loc_generation sibling = root_gen then Some (Some prev)
        else revoke_find_prev s table root_slot root_gen (ce_next_sibling (entry_at s st (unat (loc_slot sibling)))) sibling)"

definition revoke_relink :: "tptr \<Rightarrow> nat \<Rightarrow> tptr \<Rightarrow> nat \<Rightarrow> bh_cap_locator \<Rightarrow> kstate \<Rightarrow> kstate" where
  "revoke_relink table root_slot parent_table parent_slot prev s =
     (let next = ce_next_sibling (entry_at s table root_slot)
      in if \<not> cap_locator_is_null prev
         then case cap_locator_resolve_table s prev of
                None \<Rightarrow> s
              | Some pt \<Rightarrow>
                if unat (loc_slot prev) < CAP_ENTRIES
                then upd_entry pt (unat (loc_slot prev)) (\<lambda>e. e\<lparr>ce_next_sibling := next\<rparr>) s else s
         else upd_entry parent_table parent_slot (\<lambda>e. e\<lparr>ce_first_child := next\<rparr>) s)"

text \<open>\<open>False\<close> is the early return with -2 for a parent slot out of range.\<close>

definition revoke_unlink :: "tptr \<Rightarrow> nat \<Rightarrow> u32 \<Rightarrow> bh_cap_locator \<Rightarrow> kstate \<Rightarrow> (bool \<times> kstate) option" where
  "revoke_unlink table root_slot root_gen parent_locator s =
     (case cap_locator_resolve_table s parent_locator of
        None \<Rightarrow> Some (True, s)
      | Some pt \<Rightarrow>
        let ps = unat (loc_slot parent_locator); pg = loc_generation parent_locator;
            parent_ok = (ps < CAP_ENTRIES \<and> ce_in_use (entry_at s pt ps) \<and> ce_generation (entry_at s pt ps) = pg)
        in Option.bind
             (if parent_ok then revoke_collect s [table, pt] (ce_first_child (entry_at s pt ps)) else Some [table, pt])
             (\<lambda>_. if \<not> (ce_in_use (entry_at s table root_slot) \<and> ce_generation (entry_at s table root_slot) = root_gen)
                  then Some (True, s)
                  else if ps \<ge> CAP_ENTRIES then Some (False, s)
                  else if \<not> parent_ok then Some (True, s)
                  else map_option
                         (\<lambda>r. (True, case r of None \<Rightarrow> s | Some prev \<Rightarrow> revoke_relink table root_slot pt ps prev s))
                         (revoke_find_prev s table root_slot root_gen (ce_first_child (entry_at s pt ps)) cap_locator_null)))"

section \<open>The marking walk\<close>

definition locator_is_root :: "capability_table \<Rightarrow> nat \<Rightarrow> bh_cap_locator \<Rightarrow> bool" where
  "locator_is_root t root_slot l \<longleftrightarrow>
     loc_owner_core l = ct_owner_core t \<and> loc_cspace_id l = ct_cspace_id t \<and> unat (loc_slot l) = root_slot"

partial_function (option) revoke_climb ::
    "kstate \<Rightarrow> tptr \<Rightarrow> nat \<Rightarrow> bh_cap_locator \<Rightarrow> bh_cap_locator option" where
  "revoke_climb s table root_slot l =
     (if cap_locator_is_null l then Some l
      else if locator_is_root (ks_tables s table) root_slot l then Some cap_locator_null
      else case cap_locator_resolve_table s l of
        None \<Rightarrow> Some cap_locator_null
      | Some p \<Rightarrow>
        let e = entry_at s p (unat (loc_slot l))
        in if unat (loc_slot l) < CAP_ENTRIES \<and> ce_in_use e \<and> ce_generation e = loc_generation l
           then if \<not> cap_locator_is_null (ce_next_sibling e) then Some (ce_next_sibling e)
                else revoke_climb s table root_slot (ce_parent e)
           else Some cap_locator_null)"

text \<open>\<open>False\<close> is the early return with -3 for a stale locator.\<close>

partial_function (option) revoke_mark ::
    "tptr \<Rightarrow> nat \<Rightarrow> bh_cap_locator \<Rightarrow> kstate \<Rightarrow> (bool \<times> kstate) option" where
  "revoke_mark table root_slot l s =
     (if cap_locator_is_null l then Some (True, s)
      else case cap_locator_resolve_table s l of
        None \<Rightarrow> Some (True, s)
      | Some p \<Rightarrow>
        let i = unat (loc_slot l); e = entry_at s p i
        in if i \<ge> CAP_ENTRIES then Some (True, s)
           else if \<not> ce_in_use e \<or> ce_generation e \<noteq> loc_generation l then Some (False, s)
           else let s1 = upd_entry p i (\<lambda>e. e\<lparr>ce_state := CAP_STATE_REVOKING\<rparr>) s
           in if \<not> cap_locator_is_null (ce_first_child e) then revoke_mark table root_slot (ce_first_child e) s1
              else if \<not> cap_locator_is_null (ce_next_sibling e) \<and> (p \<noteq> table \<or> i \<noteq> root_slot)
              then revoke_mark table root_slot (ce_next_sibling e) s1
              else Option.bind (revoke_climb s1 table root_slot (ce_parent e)) (\<lambda>l'. revoke_mark table root_slot l' s1))"

section \<open>The broadcast\<close>

definition revoke_bump_epoch :: "tptr \<Rightarrow> nat \<Rightarrow> u32 \<Rightarrow> kstate \<Rightarrow> u64 \<times> kstate" where
  "revoke_bump_epoch table root_slot root_gen s =
     (let e = entry_at s table root_slot
      in if ce_in_use e \<and> ce_generation e = root_gen
         then (ce_revocation_epoch e + 1, upd_entry table root_slot (\<lambda>e. e\<lparr>ce_revocation_epoch := ce_revocation_epoch e + 1\<rparr>) s)
         else (0, s))"

definition revoke_target_mask :: "nat \<Rightarrow> kstate \<Rightarrow> u32" where
  "revoke_target_mask cpu s =
     fold (\<lambda>c m. if c \<noteq> cpu \<and> urpc_channel_get_state (ks_max_cpus s) (ks_urpc s) c = URPC_CHANNEL_BOUND
                 then m OR push_bit c 1 else m) [0..<MAX_CPUS] 0"

definition revoke_publish :: "nat \<Rightarrow> nat \<Rightarrow> tptr \<Rightarrow> nat \<Rightarrow> u32 \<Rightarrow> u64 \<Rightarrow> kstate \<Rightarrow> kstate" where
  "revoke_publish cpu k table root_slot root_gen epoch s =
     (let s1 = upd_tx cpu k (\<lambda>tx. tx\<lparr>tx_target := cap_locator_make (Some (ks_tables s table)) root_slot root_gen (ucast epoch),
                 tx_revocation_epoch := epoch, tx_target_mask := revoke_target_mask cpu s, tx_ack_mask := 0, tx_result := 0,
                 tx_state := BH_CAP_TX_PUBLISHED\<rparr>) s
      in fold (\<lambda>c t. if tx_target_mask (ks_tx t cpu k) AND push_bit c 1 \<noteq> 0
                     then snd (ks_urpc_send c (urpc_pack_msg URPC_CAP_REVOKE
                            (cap_tx_pack_req (of_nat cpu) (of_nat k) (tx_generation (ks_tx t cpu k)) (ucast BH_CAP_TX_OP_REVOKE_PREPARE))) t)
                     else t) [0..<MAX_CPUS] s1)"

definition revoke_quarantine :: "tptr \<Rightarrow> nat \<Rightarrow> u32 \<Rightarrow> kstate \<Rightarrow> kstate" where
  "revoke_quarantine table root_slot root_gen s =
     (if ce_in_use (entry_at s table root_slot) \<and> ce_generation (entry_at s table root_slot) = root_gen
      then upd_entry table root_slot (\<lambda>e. e\<lparr>ce_state := CAP_STATE_QUARANTINED\<rparr>) s else s)"

text \<open>\<open>wait\<close> is what the other cores do until the wait ends; \<open>False\<close> is the return with a timeout.\<close>

definition revoke_broadcast ::
    "(kstate \<Rightarrow> kstate) \<Rightarrow> nat \<Rightarrow> nat \<Rightarrow> tptr \<Rightarrow> nat \<Rightarrow> u32 \<Rightarrow> u64 \<Rightarrow> kstate \<Rightarrow> bool \<times> kstate" where
  "revoke_broadcast wait cpu k table root_slot root_gen epoch s =
     (let s1 = revoke_publish cpu k table root_slot root_gen epoch s;
          s2 = (if cap_tx_acked s1 cpu k then s1 else wait s1)
      in if \<not> cap_tx_acked s2 cpu k
         then (False, revoke_quarantine table root_slot root_gen
                        (cap_tx_release cpu k (cap_tx_set_state cpu k BH_CAP_TX_ABORTED s2)))
         else (True, cap_tx_release cpu k (cap_tx_set_state cpu k BH_CAP_TX_COMMITTED s2)))"

section \<open>The freeing walk\<close>

datatype traversal_dir = DIR_DOWN | DIR_UP

text \<open>
  \<open>pin_wait\<close> is what happens until the pins of an entry drain or the deadline passes; an entry that
  is still pinned then is quarantined.
\<close>

partial_function (option) revoke_free ::
    "(kstate \<Rightarrow> kstate) \<Rightarrow> tptr \<Rightarrow> nat \<Rightarrow> bh_cap_locator \<Rightarrow> traversal_dir \<Rightarrow> kstate \<Rightarrow> (int \<times> kstate) option" where
  "revoke_free pin_wait table root_slot l dir s =
     (if cap_locator_is_null l then Some (0, s)
      else case cap_locator_resolve_table s l of
        None \<Rightarrow> Some (0, s)
      | Some p \<Rightarrow>
        let i = unat (loc_slot l); e = entry_at s p i
        in if i \<ge> CAP_ENTRIES then Some (0, s)
           else if \<not> ce_in_use e \<or> ce_generation e \<noteq> loc_generation l then Some (0, s)
           else if dir = DIR_DOWN \<and> \<not> cap_locator_is_null (ce_first_child e)
           then revoke_free pin_wait table root_slot (ce_first_child e) DIR_DOWN s
           else let s1 = (if ce_active_pins e \<noteq> 0 then pin_wait s else s); e1 = entry_at s1 p i
           in if ce_active_pins e \<noteq> 0 \<and> (\<not> ce_in_use e1 \<or> ce_generation e1 \<noteq> loc_generation l) then Some (0, s1)
              else if ce_active_pins e \<noteq> 0 \<and> ce_active_pins e1 \<noteq> 0
              then Some (K_ERR_TIMEOUT, upd_entry p i (\<lambda>e. e\<lparr>ce_state := CAP_STATE_QUARANTINED\<rparr>) s1)
              else let s2 = cap_free_slot p i s1
              in if locator_is_root (ks_tables s table) root_slot l then Some (0, s2)
                 else if \<not> cap_locator_is_null (ce_next_sibling e)
                 then revoke_free pin_wait table root_slot (ce_next_sibling e) DIR_DOWN s2
                 else revoke_free pin_wait table root_slot (ce_parent e) DIR_UP s2)"

section \<open>Revocation\<close>

text \<open>The phases after the root is found and marked; \<open>tx\<close> is the slot of the transaction, if there is one.\<close>

definition revoke_release :: "nat \<Rightarrow> nat option \<Rightarrow> kstate \<Rightarrow> kstate" where
  "revoke_release cpu tx s = (case tx of None \<Rightarrow> s | Some k \<Rightarrow> cap_tx_release cpu k s)"

definition revoke_last_pass ::
    "(kstate \<Rightarrow> kstate) \<Rightarrow> nat \<Rightarrow> nat option \<Rightarrow> tptr \<Rightarrow> nat \<Rightarrow> u32 \<Rightarrow> kstate \<Rightarrow> (int \<times> kstate) option" where
  "revoke_last_pass pin_wait cpu tx table root_slot root_gen s =
     Option.bind (revoke_free pin_wait table root_slot (cap_locator_make (Some (ks_tables s table)) root_slot root_gen 0) DIR_DOWN s)
       (\<lambda>(st, s1). Some (if st = 0 \<and> (case tx of None \<Rightarrow> False | Some k \<Rightarrow> tx_state (ks_tx s1 cpu k) = BH_CAP_TX_ABORTED)
                         then K_ERR_TIMEOUT else st, s1))"

definition revoke_phases ::
    "(kstate \<Rightarrow> kstate) \<Rightarrow> (kstate \<Rightarrow> kstate) \<Rightarrow> nat \<Rightarrow> nat option \<Rightarrow> tptr \<Rightarrow> nat \<Rightarrow> kstate \<Rightarrow> (int \<times> kstate) option" where
  "revoke_phases wait pin_wait cpu tx table root_slot s =
     (let root_gen = ce_generation (entry_at s table root_slot)
      in Option.bind (revoke_unlink table root_slot root_gen (ce_parent (entry_at s table root_slot)) s)
       (\<lambda>(ok, s1). if \<not> ok then Some (-2, revoke_release cpu tx s1)
        else Option.bind (revoke_mark table root_slot (cap_locator_make (Some (ks_tables s1 table)) root_slot root_gen 0) s1)
       (\<lambda>(fresh, s2). if \<not> fresh
          then Some (-3, revoke_release cpu tx (case tx of None \<Rightarrow> s2 | Some k \<Rightarrow> cap_tx_set_state cpu k BH_CAP_TX_ABORTED s2))
        else case revoke_bump_epoch table root_slot root_gen s2 of (epoch, s3) \<Rightarrow>
          (case tx of
             None \<Rightarrow> revoke_last_pass pin_wait cpu tx table root_slot root_gen s3
           | Some k \<Rightarrow>
             (case revoke_broadcast wait cpu k table root_slot root_gen epoch s3 of
                (False, s4) \<Rightarrow> Some (K_ERR_TIMEOUT, s4)
              | (True, s4) \<Rightarrow> revoke_last_pass pin_wait cpu tx table root_slot root_gen s4)))))"

definition cap_table_revoke ::
    "(kstate \<Rightarrow> kstate) \<Rightarrow> (kstate \<Rightarrow> kstate) \<Rightarrow> nat \<Rightarrow> tptr option \<Rightarrow> u32 \<Rightarrow> kstate \<Rightarrow> (int \<times> kstate) option" where
  "cap_table_revoke wait pin_wait cpu table cap_id s =
     (case table of None \<Rightarrow> Some (-1, s)
      | Some p \<Rightarrow>
        if cap_id = 0 then Some (-1, s)
        else let use_tx = cpu < MAX_CPUS \<and> ks_pmm_initialized s;
                 (tx, s1) = (if use_tx then cap_tx_alloc cpu BH_CAP_TX_OP_REVOKE s else (None, s))
        in if use_tx \<and> tx = None then Some (-6, s1)
           else case revoke_root (ks_tables s1 p) cap_id of
                  None \<Rightarrow> Some (-2, revoke_release cpu tx s1)
                | Some i \<Rightarrow>
                  revoke_phases wait pin_wait cpu tx p i (upd_entry p i (\<lambda>e. e\<lparr>ce_state := CAP_STATE_REVOKING\<rparr>) s1))"

end
