(* ===== verification/Cap_Revoke_Inv.thy ===== *)
theory Cap_Revoke_Inv
  imports Cap_Revoke "HOL-Library.Product_Lexorder" "HOL-Library.Multiset"
begin

text \<open>
  What revocation does (src/core/kernel/src/cap/cap_revoke.c). Locks are taken in one global order.
  Every phase only takes authority away. On a well-formed derivation tree the marking walk marks
  exactly the subtree of the revoked capability and the freeing walk frees exactly that subtree; the
  capability leaves its parent's list of children.
\<close>

unbundle bit_operations_syntax

section \<open>Locks are taken in one order\<close>

lemma lock_after_key: "lock_after t u \<longleftrightarrow> lock_key u < lock_key t"
  by (auto simp: lock_after_def lock_key_def less_prod_def' word_less_nat_alt word_unat_eq_iff)

lemma mset_lock_insert: "mset (lock_insert tab key xs) = add_mset key (mset xs)"
  by (induction xs) auto

lemma lock_insert_sorted:
  "sorted_wrt (\<lambda>x y. lock_key (tab y) \<le> lock_key (tab x)) xs \<Longrightarrow>
   sorted_wrt (\<lambda>x y. lock_key (tab y) \<le> lock_key (tab x)) (lock_insert tab key xs)"
proof (induction xs)
  case (Cons x xs)
  have "set (lock_insert tab key xs) = insert key (set xs)"
    using mset_lock_insert [of tab key xs] by (metis set_mset_add_mset_insert set_mset_mset)
  then show ?case using Cons by (auto simp: lock_after_key intro: less_imp_le order_trans)
qed simp

lemma lock_sort_spec:
  assumes "sorted_wrt (\<lambda>x y. lock_key (tab y) \<le> lock_key (tab x)) before"
  shows "mset (lock_sort tab before xs) = mset before + mset xs \<and>
         sorted (map (\<lambda>x. lock_key (tab x)) (lock_sort tab before xs))"
  using assms
proof (induction xs arbitrary: before)
  case Nil
  then show ?case by (simp add: rev_map [symmetric] sorted_wrt_rev sorted_wrt_map)
next
  case (Cons key xs)
  from Cons.IH [OF lock_insert_sorted [OF Cons.prems, of key]] show ?case by (simp add: mset_lock_insert)
qed

text \<open>Equal neighbours are dropped, so from a sorted array nothing is locked twice.\<close>

lemma lock_unique_set: "set (lock_unique held xs) \<subseteq> set xs" "set xs \<subseteq> set (lock_unique held xs) \<union> set_option held"
  by (induction xs arbitrary: held) (fastforce split: if_splits)+

lemma lock_unique_sorted:
  assumes "sorted_wrt le xs"
    and "\<And>x y. x \<in> set xs \<union> set_option held \<Longrightarrow> y \<in> set xs \<union> set_option held \<Longrightarrow> x \<noteq> y \<Longrightarrow> le x y \<Longrightarrow> \<not> le y x"
    and "\<And>h x. held = Some h \<Longrightarrow> x \<in> set xs \<Longrightarrow> le h x"
  shows "sorted_wrt (\<lambda>x y. le x y \<and> x \<noteq> y) (lock_unique held xs) \<and> (\<forall>x \<in> set (lock_unique held xs). held \<noteq> Some x)"
  using assms
proof (induction xs arbitrary: held)
  case (Cons x xs)
  show ?case
  proof (cases "Some x = held")
    case True
    then have eq: "lock_unique held (x # xs) = lock_unique held xs" by simp
    show ?thesis unfolding eq
    proof (rule Cons.IH)
      show "\<not> le b a" if "a \<in> set xs \<union> set_option held" "b \<in> set xs \<union> set_option held" "a \<noteq> b" "le a b" for a b
        using Cons.prems(2) [of a b] that by simp
      show "le h y" if "held = Some h" "y \<in> set xs" for h y using Cons.prems(3) [of h y] that by simp
    qed (use Cons.prems(1) in simp)
  next
    case False
    have rest: "sorted_wrt (\<lambda>x y. le x y \<and> x \<noteq> y) (lock_unique (Some x) xs) \<and> (\<forall>y \<in> set (lock_unique (Some x) xs). Some x \<noteq> Some y)"
    proof (rule Cons.IH)
      show "\<not> le b a" if "a \<in> set xs \<union> set_option (Some x)" "b \<in> set xs \<union> set_option (Some x)" "a \<noteq> b" "le a b" for a b
        using Cons.prems(2) [of a b] that by auto
    qed (use Cons.prems(1) in auto)
    have sub: "set (lock_unique (Some x) xs) \<subseteq> set xs" by (rule lock_unique_set)
    have "y \<noteq> h" if hd: "held = Some h" and y: "y \<in> set (lock_unique (Some x) xs)" for y h
    proof
      assume "y = h"
      then have "le x h" "le h x" using y sub Cons.prems(1,3) hd by auto
      moreover have "x \<noteq> h" using False hd by simp
      ultimately show False using Cons.prems(2) [of x h] hd by simp
    qed
    then show ?thesis using False rest sub Cons.prems(1) by auto
  qed
qed simp

lemma lock_unique_rev:
  fixes key :: "tptr \<Rightarrow> 'k::linorder"
  assumes "sorted (map key xs)" and "inj_on key (set xs)"
  shows "sorted_wrt (\<lambda>x y. key x < key y) (lock_unique None xs) \<and> lock_unique None (rev xs) = rev (lock_unique None xs)"
proof -
  have set: "set (lock_unique None ys) = set ys" for ys using lock_unique_set [where held = None and xs = ys] by auto
  have up: "sorted_wrt (\<lambda>x y. key x \<le> key y \<and> x \<noteq> y) (lock_unique None xs)"
    by (rule conjunct1 [OF lock_unique_sorted]) (use assms in \<open>auto simp: sorted_wrt_map dest: inj_onD\<close>)
  have down: "sorted_wrt (\<lambda>x y. key y \<le> key x \<and> x \<noteq> y) (lock_unique None (rev xs))"
    by (rule conjunct1 [OF lock_unique_sorted]) (use assms in \<open>auto simp: sorted_wrt_map sorted_wrt_rev dest: inj_onD\<close>)
  have 1: "sorted_wrt (\<lambda>x y. key x < key y) (lock_unique None xs)"
    by (rule sorted_wrt_mono_rel [OF _ up]) (use assms(2) set in \<open>auto simp: inj_on_def order.strict_iff_order\<close>)
  have 2: "sorted_wrt (\<lambda>x y. key x < key y) (rev (lock_unique None (rev xs)))"
    unfolding sorted_wrt_rev
    by (rule sorted_wrt_mono_rel [OF _ down]) (use assms(2) set in \<open>auto simp: inj_on_def order.strict_iff_order\<close>)
  have "map key (rev (lock_unique None (rev xs))) = map key (lock_unique None xs)"
    using 1 2 by (intro strict_sorted_equal) (auto simp: sorted_wrt_map set)
  then have "rev (lock_unique None (rev xs)) = lock_unique None xs"
    by (rule map_inj_on) (use assms(2) in \<open>simp add: set\<close>)
  then show ?thesis using 1 by (metis rev_rev_ident)
qed

lemma registered_lock_key_inj:
  assumes "caps_wf s" and "\<And>p. p \<in> P \<Longrightarrow> \<exists>c k. cap_registered s c k p"
  shows "inj_on (\<lambda>p. lock_key (ks_tables s p)) P"
  by (rule inj_onI) (use assms registered_id_unique in \<open>auto simp: lock_key_def word_unat_eq_iff\<close>, metis word_unat_eq_iff)

section \<open>Properties\<close>



section \<open>Revocation only takes away\<close>

lemma upd_link_shrinks [intro]:
  "cap_shrinks s (upd_entry p i (\<lambda>e. e\<lparr>ce_first_child := l\<rparr>) s)" "cap_shrinks s (upd_entry p i (\<lambda>e. e\<lparr>ce_next_sibling := l\<rparr>) s)"
  "cap_shrinks s (upd_entry p i (\<lambda>e. e\<lparr>ce_state := st\<rparr>) s)"
  "cap_shrinks s (upd_entry p i (\<lambda>e. e\<lparr>ce_revocation_epoch := ce_revocation_epoch e + 1\<rparr>) s)"
  by (rule upd_entry_shrinks; simp add: same_authority_def)+

lemma revoke_relink_shrinks: "cap_shrinks s (revoke_relink table i pt ps prev s)"
  by (auto simp: revoke_relink_def Let_def split: option.split)

lemma revoke_unlink_shrinks: "revoke_unlink table i g pl s = Some (ok, s') \<Longrightarrow> cap_shrinks s s'"
  using revoke_relink_shrinks
  by (auto simp: revoke_unlink_def Let_def bind_eq_Some_conv split: option.splits if_splits)

lemma revoke_mark_shrinks:
  assumes "revoke_mark table root l s = Some r"
  shows "cap_shrinks s (snd r)"
proof (rule revoke_mark.raw_induct [where P = "\<lambda>_ _ _ s r. cap_shrinks s (snd r)", OF _ assms], goal_cases)
  case (1 f table root l s r)
  have step: "cap_shrinks s (snd r)" if "f table root l' (upd_entry p i (\<lambda>e. e\<lparr>ce_state := CAP_STATE_REVOKING\<rparr>) s) = Some r" for l' p i
    using cap_shrinks_trans [OF upd_link_shrinks(3) 1(1) [OF that]] .
  show ?case using 1(2) step by (auto simp: Let_def bind_eq_Some_conv split: if_splits option.splits)
qed

lemma revoke_free_shrinks:
  assumes "revoke_free pin_wait table root l dir s = Some r" and pw: "\<And>t. cap_shrinks t (pin_wait t)"
  shows "cap_shrinks s (snd r)"
proof (rule revoke_free.raw_induct [where P = "\<lambda>w _ _ _ _ s r. (\<forall>t. cap_shrinks t (w t)) \<longrightarrow> cap_shrinks s (snd r)", OF _ assms(1), rule_format],
    goal_cases)
  case (1 f w table root l dir s r)
  have w: "cap_shrinks s (w s)" using 1(3) by simp
  have down: "cap_shrinks s (snd r)" if "f w table root l' DIR_DOWN s = Some r" for l'
    using 1(1) [OF that] 1(3) by blast
  have ends: "cap_shrinks s (cap_free_slot p i s)" "cap_shrinks s (cap_free_slot p i (w s))" if "i < 64" for p i
    using cap_free_slot_shrinks [OF that] cap_shrinks_trans [OF w cap_free_slot_shrinks [OF that]] by auto
  have on: "cap_shrinks s (snd r)" if "f w table root l' d (cap_free_slot p i t) = Some r" "i < 64" "t = s \<or> t = w s" for l' d p i t
    using 1(1) [OF that(1)] 1(3) ends [OF that(2)] that(3) cap_shrinks_trans by blast
  have quar: "cap_shrinks s (upd_entry p i (\<lambda>e. e\<lparr>ce_state := CAP_STATE_QUARANTINED\<rparr>) (w s))" for p i
    using cap_shrinks_trans [OF w upd_link_shrinks(3)] .
  show ?case
  proof (cases "cap_locator_is_null l \<or> cap_locator_resolve_table s l = None")
    case True
    then show ?thesis using 1(2) by (auto split: if_splits)
  next
    case False
    then obtain p where p: "cap_locator_resolve_table s l = Some p" by auto
    let ?i = "unat (loc_slot l)"
    let ?e = "entry_at s p ?i"
    show ?thesis
      using 1(2) False unfolding p option.case Let_def
      by (auto split: if_splits intro: down on ends quar w simp: not_le)
  qed
qed (use pw in blast)

lemma cap_shrinks_same:
  "ks_tables t = ks_tables s \<Longrightarrow> ks_registry t = ks_registry s \<Longrightarrow> ks_bootstrap_used t = ks_bootstrap_used s \<Longrightarrow> cap_shrinks s t"
  by (rule cap_shrinks_cong [of _ s]) auto

lemma cap_tx_ops_shrink [intro]:
  "cap_shrinks s (snd (cap_tx_alloc c op s))" "cap_shrinks s (cap_tx_set_state c k st s)" "cap_shrinks s (cap_tx_release c k s)"
  "cap_shrinks s (revoke_release c tx s)"
  by (auto intro!: cap_shrinks_same simp: cap_tx_alloc_def cap_tx_set_state_def cap_tx_release_def revoke_release_def split: option.split)

lemma revoke_publish_frame:
  "ks_tables (revoke_publish cpu k table i g ep s) = ks_tables s \<and> ks_registry (revoke_publish cpu k table i g ep s) = ks_registry s \<and>
   ks_bootstrap_used (revoke_publish cpu k table i g ep s) = ks_bootstrap_used s"
proof -
  have "ks_tables (fold (\<lambda>c t. if P c t then snd (ks_urpc_send c (m c t) t) else t) xs s) = ks_tables s \<and>
        ks_registry (fold (\<lambda>c t. if P c t then snd (ks_urpc_send c (m c t) t) else t) xs s) = ks_registry s \<and>
        ks_bootstrap_used (fold (\<lambda>c t. if P c t then snd (ks_urpc_send c (m c t) t) else t) xs s) = ks_bootstrap_used s"
    for P m xs and s :: kstate by (induction xs arbitrary: s) auto
  then show ?thesis by (simp add: revoke_publish_def Let_def)
qed

lemma revoke_broadcast_shrinks:
  assumes "revoke_broadcast wait cpu k table i g ep s = (ok, s')" and "\<And>t. cap_shrinks t (wait t)"
  shows "cap_shrinks s s'"
proof -
  let ?s1 = "revoke_publish cpu k table i g ep s"
  let ?s2 = "if cap_tx_acked ?s1 cpu k then ?s1 else wait ?s1"
  have "cap_shrinks s ?s1" by (rule cap_shrinks_same) (use revoke_publish_frame in auto)
  then have 2: "cap_shrinks s ?s2" using assms(2) cap_shrinks_trans by auto
  have 3: "cap_shrinks s (cap_tx_release cpu k (cap_tx_set_state cpu k st ?s2))" for st
    using cap_shrinks_trans [OF cap_shrinks_trans [OF 2 cap_tx_ops_shrink(2)] cap_tx_ops_shrink(3)] .
  have "cap_shrinks t (revoke_quarantine table i g t)" for t by (auto simp: revoke_quarantine_def)
  then show ?thesis
    using assms(1) 3 by (auto simp: revoke_broadcast_def Let_def split: if_splits intro: cap_shrinks_trans)
qed

lemma revoke_phases_shrinks:
  assumes "revoke_phases wait pin_wait cpu tx table i s = Some (st, s')"
    and "\<And>t. cap_shrinks t (wait t)" and "\<And>t. cap_shrinks t (pin_wait t)"
  shows "cap_shrinks s s'"
proof -
  let ?g = "ce_generation (entry_at s table i)"
  obtain ok s1 where 1: "revoke_unlink table i ?g (ce_parent (entry_at s table i)) s = Some (ok, s1)"
    using assms(1) by (auto simp: revoke_phases_def Let_def bind_eq_Some_conv)
  note s1 = revoke_unlink_shrinks [OF 1]
  have last: "cap_shrinks t t'" if "revoke_last_pass pin_wait cpu tx table i ?g t = Some (st', t')" for t t' st'
    using that revoke_free_shrinks [OF _ assms(3)] by (auto simp: revoke_last_pass_def bind_eq_Some_conv)
  show ?thesis
  proof (cases ok)
    case False
    then show ?thesis
      using assms(1) 1 cap_shrinks_trans [OF s1 cap_tx_ops_shrink(4)] by (simp add: revoke_phases_def Let_def) metis
  next
    case True
    obtain fresh s2 where 2: "revoke_mark table i (cap_locator_make (Some (ks_tables s1 table)) i ?g 0) s1 = Some (fresh, s2)"
      using assms(1) 1 True by (auto simp: revoke_phases_def Let_def bind_eq_Some_conv)
    have s2: "cap_shrinks s s2" using cap_shrinks_trans [OF s1] revoke_mark_shrinks [OF 2] by simp
    obtain ep s3 where 3: "revoke_bump_epoch table i ?g s2 = (ep, s3)" by fastforce
    have "cap_shrinks s2 s3" using 3 by (auto simp: revoke_bump_epoch_def Let_def split: if_splits)
    then have s3: "cap_shrinks s s3" using s2 cap_shrinks_trans by blast
    have st: "cap_shrinks s (revoke_release cpu tx (case tx of None \<Rightarrow> s2 | Some k \<Rightarrow> cap_tx_set_state cpu k BH_CAP_TX_ABORTED s2))"
      by (cases tx) (auto intro!: cap_shrinks_trans [OF s2] intro: cap_shrinks_trans [OF cap_tx_ops_shrink(2) cap_tx_ops_shrink(4)])
    show ?thesis
    proof (cases fresh)
      case False
      then show ?thesis using assms(1) 1 2 True st by (simp add: revoke_phases_def Let_def)
    next
      case fresh: True
      show ?thesis
      proof (cases tx)
        case None
        then have "revoke_last_pass pin_wait cpu tx table i ?g s3 = Some (st, s')"
          using assms(1) 1 2 3 True fresh by (simp add: revoke_phases_def Let_def)
        then show ?thesis using last s3 cap_shrinks_trans by blast
      next
        case (Some k)
        obtain b s4 where 4: "revoke_broadcast wait cpu k table i ?g ep s3 = (b, s4)" by fastforce
        have s4: "cap_shrinks s s4" using revoke_broadcast_shrinks [OF 4 assms(2)] s3 cap_shrinks_trans by blast
        have "(if b then revoke_last_pass pin_wait cpu tx table i ?g s4 else Some (K_ERR_TIMEOUT, s4)) = Some (st, s')"
          using assms(1) 1 2 3 4 True fresh Some by (simp add: revoke_phases_def Let_def split: if_splits bool.splits)
        then show ?thesis using last s4 cap_shrinks_trans by (cases b) auto
      qed
    qed
  qed
qed


section \<open>Derivation trees in the tables\<close>

type_synonym cap_node = "tptr \<times> nat"

datatype cap_tree = Cap_Node cap_node "cap_tree list"

fun forest_nodes :: "cap_tree list \<Rightarrow> cap_node list" where
  "forest_nodes [] = []"
| "forest_nodes (Cap_Node n kids # ts) = forest_nodes kids @ n # forest_nodes ts"

abbreviation node_at :: "kstate \<Rightarrow> cap_node \<Rightarrow> capability_entry" where
  "node_at s n \<equiv> entry_at s (fst n) (snd n)"

text \<open>The live entry a locator leads to.\<close>

definition loc_names :: "kstate \<Rightarrow> bh_cap_locator \<Rightarrow> cap_node \<Rightarrow> bool" where
  "loc_names s l n \<longleftrightarrow> \<not> cap_locator_is_null l \<and> cap_locator_resolve_table s l = Some (fst n) \<and> unat (loc_slot l) = snd n \<and>
     snd n < CAP_ENTRIES \<and> ce_in_use (node_at s n) \<and> ce_generation (node_at s n) = loc_generation l"

text \<open>The entries that hang off a first-child or next-sibling link, all with the parent \<open>par\<close>, as a forest.\<close>

fun caps_forest :: "kstate \<Rightarrow> cap_node \<Rightarrow> bh_cap_locator \<Rightarrow> cap_tree list \<Rightarrow> bool" where
  "caps_forest s par l [] \<longleftrightarrow> cap_locator_is_null l"
| "caps_forest s par l (Cap_Node n kids # ts) \<longleftrightarrow>
     loc_names s l n \<and> loc_names s (ce_parent (node_at s n)) par \<and>
     caps_forest s n (ce_first_child (node_at s n)) kids \<and> caps_forest s par (ce_next_sibling (node_at s n)) ts"

definition same_links :: "capability_entry \<Rightarrow> capability_entry \<Rightarrow> bool" where
  "same_links d e \<longleftrightarrow> same_authority d e \<and> ce_object_ref d = ce_object_ref e \<and> ce_generation d = ce_generation e \<and>
     ce_parent d = ce_parent e \<and> ce_first_child d = ce_first_child e \<and> ce_next_sibling d = ce_next_sibling e \<and>
     ce_active_pins d = ce_active_pins e"

text \<open>A step that only takes authority away, and outside \<open>N\<close> leaves authority, links and pins alone.\<close>

definition linked_outside :: "cap_node set \<Rightarrow> kstate \<Rightarrow> kstate \<Rightarrow> bool" where
  "linked_outside N s s' \<longleftrightarrow> cap_shrinks s s' \<and>
     (\<forall>p i. i < length (ct_entries (ks_tables s p)) \<longrightarrow> (p, i) \<notin> N \<longrightarrow> same_links (entry_at s' p i) (entry_at s p i))"

lemma same_links_refl [simp, intro]: "same_links e e"
  by (simp add: same_links_def same_authority_def)

lemma same_links_trans: "same_links c d \<Longrightarrow> same_links d e \<Longrightarrow> same_links c e"
  by (simp add: same_links_def same_authority_def)

lemma linked_outside_refl [simp, intro]: "linked_outside N s s"
  by (simp add: linked_outside_def)

lemma cap_shrinks_length: "cap_shrinks s t \<Longrightarrow> length (ct_entries (ks_tables t p)) = length (ct_entries (ks_tables s p))"
  by (simp add: cap_shrinks_def)

lemma linked_outside_trans:
  assumes "linked_outside M s t" and "linked_outside N t u"
  shows "linked_outside (M \<union> N) s u"
  unfolding linked_outside_def
proof (intro conjI allI impI)
  have sh: "cap_shrinks s t" "cap_shrinks t u" using assms by (simp_all add: linked_outside_def)
  then show "cap_shrinks s u" by (rule cap_shrinks_trans)
  fix p i assume b: "i < length (ct_entries (ks_tables s p))" "(p, i) \<notin> M \<union> N"
  then have "same_links (entry_at t p i) (entry_at s p i)" "same_links (entry_at u p i) (entry_at t p i)"
    using assms cap_shrinks_length [OF sh(1), of p] by (auto simp: linked_outside_def)
  then show "same_links (entry_at u p i) (entry_at s p i)" using same_links_trans by blast
qed

lemma linked_outside_mono: "linked_outside M s t \<Longrightarrow> M \<subseteq> N \<Longrightarrow> linked_outside N s t"
  by (auto simp: linked_outside_def)

lemma linked_outside_upd:
  assumes "cap_shrinks s (upd_entry p i f s)"
    and "(p, i) \<in> N \<or> same_links (f (entry_at s p i)) (entry_at s p i)"
  shows "linked_outside N s (upd_entry p i f s)"
  unfolding linked_outside_def
proof (intro conjI allI impI)
  fix q j assume b: "j < length (ct_entries (ks_tables s q))" "(q, j) \<notin> N"
  then show "same_links (entry_at (upd_entry p i f s) q j) (entry_at s q j)"
    using assms(2) by (cases "q = p \<and> j = i") (auto simp: entry_at_def upd_entry_tables)
qed (rule assms(1))

lemma linked_outside_free:
  assumes "i < CAP_ENTRIES"
  shows "linked_outside {(p, i)} s (cap_free_slot p i s)"
proof -
  have "same_links (entry_at (cap_free_slot p i s) q j) (entry_at s q j)" if "(q, j) \<noteq> (p, i)" for q j
    using that unfolding cap_free_slot_entry by (auto simp: entry_at_def upd_entry_tables)
  then show ?thesis using cap_free_slot_shrinks [OF assms] by (simp add: linked_outside_def)
qed

lemma linked_outside_same:
  "ks_tables t = ks_tables s \<Longrightarrow> ks_registry t = ks_registry s \<Longrightarrow> ks_bootstrap_used t = ks_bootstrap_used s \<Longrightarrow> linked_outside N s t"
  using cap_shrinks_same by (simp add: linked_outside_def entry_at_def)

lemma resolve_shrinks: "cap_shrinks s t \<Longrightarrow> cap_locator_resolve_table t l = cap_locator_resolve_table s l"
  by (auto simp: cap_shrinks_def cap_locator_resolve_table_def Let_def split: option.split)

section \<open>What a locator names\<close>

lemma loc_names_length:
  assumes "caps_wf s" and "loc_names s l n"
  shows "snd n < length (ct_entries (ks_tables s (fst n)))"
  using assms resolve_Some caps_wfD(1) cap_table_wfD(1) by (metis loc_names_def)

lemma loc_names_linked:
  assumes "caps_wf s" and "linked_outside N s t" and "loc_names s l n" and "n \<notin> N"
  shows "loc_names t l n" "same_links (node_at t n) (node_at s n)"
proof -
  show 1: "same_links (node_at t n) (node_at s n)"
    using assms loc_names_length [OF assms(1,3)] by (auto simp: linked_outside_def)
  then show "loc_names t l n"
    using assms(2,3) resolve_shrinks by (auto simp: loc_names_def linked_outside_def same_links_def same_authority_def)
qed

lemma caps_forest_node:
  "caps_forest s par l ts \<Longrightarrow> n \<in> set (forest_nodes ts) \<Longrightarrow> \<exists>k. loc_names s k n"
  by (induction ts arbitrary: par l rule: forest_nodes.induct) auto

lemma loc_names_same:
  assumes "\<And>l. cap_locator_resolve_table t l = cap_locator_resolve_table s l" and "same_links (node_at t n) (node_at s n)"
  shows "loc_names t l n = loc_names s l n"
  using assms by (simp add: loc_names_def same_links_def same_authority_def)

lemma caps_forest_cong:
  assumes res: "\<And>l. cap_locator_resolve_table t l = cap_locator_resolve_table s l" and "caps_forest s par l ts"
    and "\<And>n. n \<in> set (forest_nodes ts) \<Longrightarrow> same_links (node_at t n) (node_at s n)"
    and "\<And>k. loc_names s k par \<Longrightarrow> loc_names t k par"
  shows "caps_forest t par l ts"
  using assms(2-4)
proof (induction ts arbitrary: par l rule: forest_nodes.induct)
  case (2 n kids ts)
  have e: "same_links (node_at t n) (node_at s n)" using 2(4) by simp
  note l = loc_names_same [OF res e]
  have "caps_forest t n (ce_first_child (node_at s n)) kids" by (rule 2(1)) (use 2(3,4) l in auto)
  moreover have "caps_forest t par (ce_next_sibling (node_at s n)) ts" by (rule 2(2)) (use 2(3-5) in auto)
  ultimately show ?case using 2(3,5) l e by (simp add: same_links_def)
qed simp

lemma caps_forest_linked_par:
  assumes "caps_wf s" and "linked_outside N s t" and "caps_forest s par l ts" and "N \<inter> set (forest_nodes ts) = {}"
    and "\<And>k. loc_names s k par \<Longrightarrow> loc_names t k par"
  shows "caps_forest t par l ts"
proof (rule caps_forest_cong [OF _ assms(3) _ assms(5)])
  show "cap_locator_resolve_table t k = cap_locator_resolve_table s k" for k
    using assms(2) resolve_shrinks by (simp add: linked_outside_def)
  show "same_links (node_at t n) (node_at s n)" if "n \<in> set (forest_nodes ts)" for n
    using caps_forest_node [OF assms(3) that] loc_names_linked(2) [OF assms(1,2)] assms(4) that by blast
qed

lemma caps_forest_linked:
  assumes "caps_wf s" and "linked_outside N s t" and "caps_forest s par l ts" and "N \<inter> set (par # forest_nodes ts) = {}"
  shows "caps_forest t par l ts"
  by (rule caps_forest_linked_par [OF assms(1-3)]) (use assms(4) loc_names_linked(1) [OF assms(1,2)] in auto)

lemma caps_forest_null: "caps_forest s par l ts \<Longrightarrow> cap_locator_is_null l \<longleftrightarrow> ts = []"
  by (cases "(s, par, l, ts)" rule: caps_forest.cases) (auto simp: loc_names_def)

lemma locator_is_root_iff:
  assumes "caps_wf s" and "cap_registered s c k table" and "loc_names s l n"
  shows "locator_is_root (ks_tables s table) root_slot l \<longleftrightarrow> n = (table, root_slot)"
proof -
  have r: "cap_locator_resolve_table s l = Some (fst n)" "unat (loc_slot l) = snd n" using assms(3) by (auto simp: loc_names_def)
  obtain c' k' where n: "cap_registered s c' k' (fst n)" and l: "ct_cspace_id (ks_tables s (fst n)) = loc_cspace_id l"
    "ct_owner_core (ks_tables s (fst n)) = loc_owner_core l"
    using resolve_Some [OF r(1)] by blast
  have "fst n = table" if "loc_cspace_id l = ct_cspace_id (ks_tables s table)"
    by (rule registered_id_unique [OF assms(1) n assms(2)]) (simp add: l that)
  then have "loc_owner_core l = ct_owner_core (ks_tables s table) \<and> loc_cspace_id l = ct_cspace_id (ks_tables s table) \<longleftrightarrow> fst n = table"
    using l by metis
  then show ?thesis using r(2) by (auto simp: locator_is_root_def prod_eq_iff)
qed

text \<open>The walks see a locator only through the entry it names.\<close>

lemma locator_is_root_names:
  "loc_names s l n \<Longrightarrow> loc_names s k n \<Longrightarrow> locator_is_root t r l = locator_is_root t r k"
  unfolding loc_names_def locator_is_root_def by (metis resolve_Some)

lemma revoke_climb_names:
  "loc_names s l n \<Longrightarrow> loc_names s k n \<Longrightarrow> revoke_climb s table root_slot l = revoke_climb s table root_slot k"
  by (subst (1 2) revoke_climb.simps) (simp add: loc_names_def locator_is_root_names [of s l n k] Let_def)

lemma revoke_free_names:
  "loc_names s l n \<Longrightarrow> loc_names s k n \<Longrightarrow>
   revoke_free pin_wait table root_slot l dir s = revoke_free pin_wait table root_slot k dir s"
  by (subst (1 2) revoke_free.simps) (simp add: loc_names_def locator_is_root_names [of s l n k] Let_def)

section \<open>The freeing walk frees a forest\<close>

definition caps_freed :: "cap_node set \<Rightarrow> kstate \<Rightarrow> kstate \<Rightarrow> bool" where
  "caps_freed N s s' \<longleftrightarrow> linked_outside N s s' \<and> ks_tx s' = ks_tx s \<and>
     (\<forall>n \<in> N. snd n < length (ct_entries (ks_tables s (fst n))) \<and> \<not> ce_in_use (node_at s' n) \<and>
        ce_generation (node_at s' n) = ce_generation (node_at s n) + 1)"

lemma linked_outside_node:
  "linked_outside N s t \<Longrightarrow> snd n < length (ct_entries (ks_tables s (fst n))) \<Longrightarrow> n \<notin> N \<Longrightarrow> same_links (node_at t n) (node_at s n)"
  by (cases n) (simp add: linked_outside_def)

lemma caps_forest_same:
  assumes "caps_wf s" and "linked_outside N s t" and "caps_forest s par l ts" and "n \<in> set (forest_nodes ts)" and "n \<notin> N"
  shows "same_links (node_at t n) (node_at s n)"
  using caps_forest_node [OF assms(3,4)] loc_names_linked(2) [OF assms(1,2) _ assms(5)] by blast

lemma caps_freed_empty [simp]: "caps_freed {} s s"
  by (simp add: caps_freed_def)

lemma caps_freed_trans:
  assumes "caps_freed M s t" and "caps_freed N t u" and "M \<inter> N = {}"
  shows "caps_freed (M \<union> N) s u"
proof -
  have sh: "linked_outside M s t" "linked_outside N t u" using assms by (auto simp: caps_freed_def)
  have len: "length (ct_entries (ks_tables t p)) = length (ct_entries (ks_tables s p))" for p
    using sh(1) cap_shrinks_length by (simp add: linked_outside_def)
  have "\<not> ce_in_use (node_at u n) \<and> ce_generation (node_at u n) = ce_generation (node_at s n) + 1 \<and>
        snd n < length (ct_entries (ks_tables s (fst n)))" if "n \<in> M" for n
  proof -
    have n: "snd n < length (ct_entries (ks_tables s (fst n)))" "\<not> ce_in_use (node_at t n)"
      "ce_generation (node_at t n) = ce_generation (node_at s n) + 1"
      using that assms(1) by (auto simp: caps_freed_def)
    then have "same_links (node_at u n) (node_at t n)" using linked_outside_node [OF sh(2), of n] that assms(3) len by auto
    then show ?thesis using n by (simp add: same_links_def same_authority_def)
  qed
  moreover have "\<not> ce_in_use (node_at u n) \<and> ce_generation (node_at u n) = ce_generation (node_at s n) + 1 \<and>
        snd n < length (ct_entries (ks_tables s (fst n)))" if "n \<in> N" for n
  proof -
    have n: "snd n < length (ct_entries (ks_tables s (fst n)))" "\<not> ce_in_use (node_at u n)"
      "ce_generation (node_at u n) = ce_generation (node_at t n) + 1"
      using that assms(2) len by (auto simp: caps_freed_def)
    then have "same_links (node_at t n) (node_at s n)" using linked_outside_node [OF sh(1), of n] that assms(3) by auto
    then show ?thesis using n by (simp add: same_links_def)
  qed
  moreover have "ks_tx u = ks_tx s" using assms by (simp add: caps_freed_def)
  ultimately show ?thesis using linked_outside_trans [OF sh] by (auto simp: caps_freed_def)
qed

lemma caps_freed_slot:
  assumes "caps_wf s" and "loc_names s l n"
  shows "caps_freed {n} s (cap_free_slot (fst n) (snd n) s)"
  using linked_outside_free [of "snd n" "fst n" s] loc_names_length [OF assms] assms(2)
  by (simp add: caps_freed_def cap_free_slot_entry entry_at_upd_entry cap_clear_entry_def loc_names_def)

text \<open>One visit of the walk to an entry without pins that it does not descend from.\<close>

lemma revoke_free_visit:
  assumes "caps_wf s" and "cap_registered s c k table" and "loc_names s l n" and "ce_active_pins (node_at s n) = 0"
    and "dir = DIR_UP \<or> cap_locator_is_null (ce_first_child (node_at s n))"
  shows "revoke_free pin_wait table root_slot l dir s =
    (let s2 = cap_free_slot (fst n) (snd n) s
     in if n = (table, root_slot) then Some (0, s2)
        else if \<not> cap_locator_is_null (ce_next_sibling (node_at s n))
        then revoke_free pin_wait table root_slot (ce_next_sibling (node_at s n)) DIR_DOWN s2
        else revoke_free pin_wait table root_slot (ce_parent (node_at s n)) DIR_UP s2)"
proof -
  have n: "\<not> cap_locator_is_null l" "cap_locator_resolve_table s l = Some (fst n)" "unat (loc_slot l) = snd n" "snd n < 64"
    "ce_in_use (node_at s n)" "ce_generation (node_at s n) = loc_generation l"
    using assms(3) by (auto simp: loc_names_def)
  show ?thesis
    by (subst revoke_free.simps)
       (use assms(4,5) n in \<open>auto simp: Let_def locator_is_root_iff [OF assms(1-3)]\<close>)
qed

lemma revoke_free_descend:
  assumes "loc_names s l n" and "\<not> cap_locator_is_null (ce_first_child (node_at s n))"
  shows "revoke_free pin_wait table root_slot l DIR_DOWN s =
    revoke_free pin_wait table root_slot (ce_first_child (node_at s n)) DIR_DOWN s"
  by (subst revoke_free.simps) (use assms in \<open>simp add: loc_names_def Let_def\<close>)

lemma caps_freed_wf: "caps_wf s \<Longrightarrow> caps_freed N s t \<Longrightarrow> caps_wf t"
  using cap_shrinks_caps_wf by (auto simp: caps_freed_def linked_outside_def)

lemma caps_freed_registered: "caps_freed N s t \<Longrightarrow> cap_registered t c k p = cap_registered s c k p"
  by (simp add: caps_freed_def linked_outside_def cap_shrinks_def cap_registered_def)

lemma caps_freed_linked: "caps_freed N s t \<Longrightarrow> linked_outside N s t"
  by (simp add: caps_freed_def)

text \<open>
  An entry is freed after its descendants; the rest of the walk goes on from there, unless the entry
  is the root.
\<close>

lemma revoke_free_tree:
  assumes wf: "caps_wf s" "cap_registered s c k table" and l: "loc_names s l n"
    and kids: "caps_forest s n (ce_first_child (node_at s n)) kids" "n \<notin> set (forest_nodes kids)"
    and pin: "ce_active_pins (node_at s n) = 0"
    and below: "kids \<noteq> [] \<Longrightarrow> \<exists>t. revoke_free pin_wait table root_slot (ce_first_child (node_at s n)) DIR_DOWN s =
       revoke_free pin_wait table root_slot l DIR_UP t \<and> caps_freed (set (forest_nodes kids)) s t"
  shows "\<exists>u. revoke_free pin_wait table root_slot l DIR_DOWN s =
      (if n = (table, root_slot) then Some (0, u)
       else if \<not> cap_locator_is_null (ce_next_sibling (node_at s n))
       then revoke_free pin_wait table root_slot (ce_next_sibling (node_at s n)) DIR_DOWN u
       else revoke_free pin_wait table root_slot (ce_parent (node_at s n)) DIR_UP u) \<and>
    caps_freed (insert n (set (forest_nodes kids))) s u"
proof -
  have "\<exists>t dir. revoke_free pin_wait table root_slot l DIR_DOWN s = revoke_free pin_wait table root_slot l dir t \<and>
      (dir = DIR_UP \<or> kids = []) \<and> caps_freed (set (forest_nodes kids)) s t"
  proof (cases "kids = []")
    case True
    then show ?thesis by auto
  next
    case False
    then show ?thesis using below revoke_free_descend [OF l] caps_forest_null [OF kids(1)] by auto
  qed
  then obtain t dir where t: "revoke_free pin_wait table root_slot l DIR_DOWN s = revoke_free pin_wait table root_slot l dir t"
    "dir = DIR_UP \<or> kids = []" "caps_freed (set (forest_nodes kids)) s t" by blast
  note t' = caps_freed_wf [OF wf(1) t(3)]
  have reg: "cap_registered t c k table" using wf(2) caps_freed_registered [OF t(3)] by simp
  have n: "loc_names t l n" "same_links (node_at t n) (node_at s n)"
    using loc_names_linked [OF wf(1) caps_freed_linked [OF t(3)] l kids(2)] by auto
  have "caps_freed (set (forest_nodes kids) \<union> {n}) s (cap_free_slot (fst n) (snd n) t)"
    by (rule caps_freed_trans [OF t(3) caps_freed_slot [OF t' n(1)]]) (use kids(2) in auto)
  moreover have "dir = DIR_UP \<or> cap_locator_is_null (ce_first_child (node_at t n))"
    using t(2) caps_forest_null [OF kids(1)] n(2) by (auto simp: same_links_def)
  ultimately show ?thesis
    using revoke_free_visit [OF t' reg n(1), of dir pin_wait root_slot] n(2) pin t(1)
    by (auto simp: same_links_def Let_def)
qed

text \<open>
  Coming down to a non-empty list of siblings, the walk frees all of them with all their
  descendants and then comes up to their parent.
\<close>

lemma revoke_free_forest:
  assumes "caps_wf s" and "cap_registered s c k table" and "caps_forest s par l ts" and "ts \<noteq> []" and "loc_names s up par"
    and "distinct (par # forest_nodes ts)" and "(table, root_slot) \<notin> set (forest_nodes ts)"
    and "\<And>n. n \<in> set (forest_nodes ts) \<Longrightarrow> ce_active_pins (node_at s n) = 0"
  shows "\<exists>s'. revoke_free pin_wait table root_slot l DIR_DOWN s = revoke_free pin_wait table root_slot up DIR_UP s' \<and>
    caps_freed (set (forest_nodes ts)) s s'"
  using assms
proof (induction ts arbitrary: s par l up rule: forest_nodes.induct)
  case (2 n kids ts)
  let ?e = "node_at s n"
  have l: "loc_names s l n" and up: "loc_names s (ce_parent ?e) par" and kids: "caps_forest s n (ce_first_child ?e) kids"
    and ts: "caps_forest s par (ce_next_sibling ?e) ts"
    using 2(5) by auto
  have dis: "distinct (n # forest_nodes kids)" "distinct (par # forest_nodes ts)" "par \<noteq> n" "par \<notin> set (forest_nodes kids)"
    "n \<notin> set (forest_nodes ts)" "set (forest_nodes kids) \<inter> set (forest_nodes ts) = {}"
    using 2(8) by auto
  have below: "\<exists>t. revoke_free pin_wait table root_slot (ce_first_child ?e) DIR_DOWN s = revoke_free pin_wait table root_slot l DIR_UP t \<and>
      caps_freed (set (forest_nodes kids)) s t" if "kids \<noteq> []"
    by (rule 2(1) [OF 2(3,4) kids that l dis(1)]) (use 2(9,10) in auto)
  obtain u where u: "revoke_free pin_wait table root_slot l DIR_DOWN s =
      (if ts \<noteq> [] then revoke_free pin_wait table root_slot (ce_next_sibling ?e) DIR_DOWN u
       else revoke_free pin_wait table root_slot (ce_parent ?e) DIR_UP u)"
    "caps_freed (insert n (set (forest_nodes kids))) s u"
    using revoke_free_tree [OF 2(3,4) l kids _ _ below] dis(1) 2(9,10) caps_forest_null [OF ts] by auto
  note u' = caps_freed_wf [OF 2(3) u(2)] caps_freed_linked [OF u(2)]
  have par: "loc_names u (ce_parent ?e) par" "loc_names u up par"
    using loc_names_linked(1) [OF 2(3) u'(2)] up 2(7) dis by auto
  show ?case
  proof (cases "ts = []")
    case True
    then show ?thesis using u revoke_free_names [OF par] by auto
  next
    case False
    have "\<exists>s'. revoke_free pin_wait table root_slot (ce_next_sibling ?e) DIR_DOWN u = revoke_free pin_wait table root_slot up DIR_UP s' \<and>
        caps_freed (set (forest_nodes ts)) u s'"
    proof (rule 2(2) [OF u'(1) _ _ False par(2) dis(2)])
      show "cap_registered u c k table" using 2(4) caps_freed_registered [OF u(2)] by simp
      show "caps_forest u par (ce_next_sibling ?e) ts"
        by (rule caps_forest_linked [OF 2(3) u'(2) ts]) (use dis in auto)
      show "(table, root_slot) \<notin> set (forest_nodes ts)" using 2(9) by simp
      fix m assume m: "m \<in> set (forest_nodes ts)"
      show "ce_active_pins (node_at u m) = 0"
        using caps_forest_same [OF 2(3) u'(2) ts m] m dis 2(10) [of m] by (auto simp: same_links_def)
    qed
    then obtain s' where s': "revoke_free pin_wait table root_slot (ce_next_sibling ?e) DIR_DOWN u = revoke_free pin_wait table root_slot up DIR_UP s'"
      "caps_freed (set (forest_nodes ts)) u s'" by blast
    have "caps_freed (insert n (set (forest_nodes kids)) \<union> set (forest_nodes ts)) s s'"
      by (rule caps_freed_trans [OF u(2) s'(2)]) (use dis in auto)
    then show ?thesis using u(1) s'(1) False by (auto simp: Un_commute Un_left_commute)
  qed
qed simp

lemma revoke_free_subtree:
  assumes "caps_wf s" and "cap_registered s c k table" and "loc_names s l (table, i)"
    and "caps_forest s (table, i) (ce_first_child (entry_at s table i)) kids" and "distinct ((table, i) # forest_nodes kids)"
    and "\<And>n. n \<in> set (forest_nodes [Cap_Node (table, i) kids]) \<Longrightarrow> ce_active_pins (node_at s n) = 0"
  shows "\<exists>s'. revoke_free pin_wait table i l DIR_DOWN s = Some (0, s') \<and>
    caps_freed (set (forest_nodes [Cap_Node (table, i) kids])) s s'"
proof -
  have below: "\<exists>t. revoke_free pin_wait table i (ce_first_child (entry_at s table i)) DIR_DOWN s =
      revoke_free pin_wait table i l DIR_UP t \<and> caps_freed (set (forest_nodes kids)) s t" if "kids \<noteq> []"
    by (rule revoke_free_forest [OF assms(1,2,4) that assms(3,5)]) (use assms(5,6) in auto)
  show ?thesis
    using revoke_free_tree [OF assms(1-3), of kids pin_wait i] assms(4-6) below by auto
qed

section \<open>The marking walk marks a forest\<close>

definition caps_marked :: "cap_node set \<Rightarrow> kstate \<Rightarrow> kstate \<Rightarrow> bool" where
  "caps_marked N s s' \<longleftrightarrow> linked_outside {} s s' \<and>
     (\<forall>p i. i < length (ct_entries (ks_tables s p)) \<longrightarrow>
        ce_state (entry_at s' p i) = (if (p, i) \<in> N then CAP_STATE_REVOKING else ce_state (entry_at s p i)))"

lemma caps_marked_trans:
  assumes "caps_marked M s t" and "caps_marked N t u"
  shows "caps_marked (M \<union> N) s u"
proof -
  have l: "linked_outside {} s t" "linked_outside {} t u" using assms by (simp_all add: caps_marked_def)
  then have "length (ct_entries (ks_tables t p)) = length (ct_entries (ks_tables s p))" for p
    using cap_shrinks_length by (simp add: linked_outside_def)
  then show ?thesis using assms linked_outside_trans [OF l] by (simp add: caps_marked_def)
qed

lemma caps_marked_node:
  "caps_marked {n} s (upd_entry (fst n) (snd n) (\<lambda>e. e\<lparr>ce_state := CAP_STATE_REVOKING\<rparr>) s)"
proof -
  have "linked_outside {} s (upd_entry (fst n) (snd n) (\<lambda>e. e\<lparr>ce_state := CAP_STATE_REVOKING\<rparr>) s)"
    by (rule linked_outside_upd) (auto simp: same_links_def same_authority_def)
  then show ?thesis by (cases n) (simp add: caps_marked_def entry_at_def upd_entry_tables nth_list_update)
qed

lemma caps_marked_wf: "caps_wf s \<Longrightarrow> caps_marked N s t \<Longrightarrow> caps_wf t"
  using cap_shrinks_caps_wf by (auto simp: caps_marked_def linked_outside_def)

lemma caps_marked_registered: "caps_marked N s t \<Longrightarrow> cap_registered t c k p = cap_registered s c k p"
  by (simp add: caps_marked_def linked_outside_def cap_shrinks_def cap_registered_def)

lemma caps_marked_linked: "caps_marked N s t \<Longrightarrow> linked_outside {} s t"
  by (simp add: caps_marked_def)

lemma revoke_climb_visit:
  assumes "caps_wf s" and "cap_registered s c k table" and "loc_names s l n"
  shows "revoke_climb s table root_slot l =
    (if n = (table, root_slot) then Some cap_locator_null
     else if \<not> cap_locator_is_null (ce_next_sibling (node_at s n)) then Some (ce_next_sibling (node_at s n))
     else revoke_climb s table root_slot (ce_parent (node_at s n)))"
  by (subst revoke_climb.simps)
     (use assms(3) in \<open>auto simp: loc_names_def Let_def locator_is_root_iff [OF assms]\<close>)

lemma revoke_mark_visit:
  assumes "loc_names s l n"
  shows "revoke_mark table root_slot l s =
    (let u = upd_entry (fst n) (snd n) (\<lambda>e. e\<lparr>ce_state := CAP_STATE_REVOKING\<rparr>) s; e = node_at s n
     in if \<not> cap_locator_is_null (ce_first_child e) then revoke_mark table root_slot (ce_first_child e) u
        else if \<not> cap_locator_is_null (ce_next_sibling e) \<and> n \<noteq> (table, root_slot)
        then revoke_mark table root_slot (ce_next_sibling e) u
        else Option.bind (revoke_climb u table root_slot (ce_parent e)) (\<lambda>l'. revoke_mark table root_slot l' u))"
  by (subst revoke_mark.simps) (use assms in \<open>auto simp: loc_names_def Let_def prod_eq_iff\<close>)

lemma revoke_mark_null [simp]: "revoke_mark table root_slot cap_locator_null s = Some (True, s)"
  by (subst revoke_mark.simps) simp

text \<open>
  An entry is marked, then its descendants; the walk leaves them at the next sibling or up at the
  parent, and at the root of the revocation it ends.
\<close>

lemma revoke_mark_tree:
  assumes wf: "caps_wf s" "cap_registered s c k table" and l: "loc_names s l n"
    and kids: "caps_forest s n (ce_first_child (node_at s n)) kids"
    and s1: "s1 = upd_entry (fst n) (snd n) (\<lambda>e. e\<lparr>ce_state := CAP_STATE_REVOKING\<rparr>) s"
    and below: "kids \<noteq> [] \<Longrightarrow> \<exists>t. revoke_mark table root_slot (ce_first_child (node_at s n)) s1 =
       Option.bind (revoke_climb t table root_slot l) (\<lambda>l'. revoke_mark table root_slot l' t) \<and> caps_marked (set (forest_nodes kids)) s1 t"
    and root: "n = (table, root_slot) \<Longrightarrow> kids \<noteq> [] \<or> cap_locator_is_null (ce_parent (node_at s n))"
  shows "\<exists>u. revoke_mark table root_slot l s =
      (if n = (table, root_slot) then Some (True, u)
       else if \<not> cap_locator_is_null (ce_next_sibling (node_at s n)) then revoke_mark table root_slot (ce_next_sibling (node_at s n)) u
       else Option.bind (revoke_climb u table root_slot (ce_parent (node_at s n))) (\<lambda>l'. revoke_mark table root_slot l' u)) \<and>
    caps_marked (insert n (set (forest_nodes kids))) s u"
proof (cases "kids = []")
  case True
  then have first: "cap_locator_is_null (ce_first_child (node_at s n))" using caps_forest_null [OF kids] by simp
  have climb: "revoke_climb s1 table root_slot l' = Some l'" if "cap_locator_is_null l'" for l'
    by (subst revoke_climb.simps) (simp add: that)
  have mark: "revoke_mark table root_slot l' s1 = Some (True, s1)" if "cap_locator_is_null l'" for l'
    by (subst revoke_mark.simps) (simp add: that)
  show ?thesis
    by (rule exI [of _ s1]) (use True first climb mark root caps_marked_node [of n s] in \<open>auto simp: revoke_mark_visit [OF l] Let_def s1\<close>)
next
  case False
  then obtain t where t: "revoke_mark table root_slot (ce_first_child (node_at s n)) s1 =
       Option.bind (revoke_climb t table root_slot l) (\<lambda>l'. revoke_mark table root_slot l' t)" "caps_marked (set (forest_nodes kids)) s1 t"
    using below by blast
  have m: "caps_marked (insert n (set (forest_nodes kids))) s t"
    using caps_marked_trans [OF caps_marked_node t(2) [unfolded s1]] by simp
  have reg: "cap_registered t c k table" using wf(2) caps_marked_registered [OF m] by simp
  have n: "loc_names t l n" "same_links (node_at t n) (node_at s n)"
    using loc_names_linked [OF wf(1) caps_marked_linked [OF m] l] by auto
  have "\<not> cap_locator_is_null (ce_first_child (node_at s n))" using False caps_forest_null [OF kids] by simp
  then show ?thesis
    using t(1) revoke_climb_visit [OF caps_marked_wf [OF wf(1) m] reg n(1), of root_slot] n(2) m
    by (intro exI [of _ t]) (simp add: revoke_mark_visit [OF l] Let_def s1 same_links_def)
qed

lemma revoke_mark_forest:
  assumes "caps_wf s" and "cap_registered s c k table" and "caps_forest s par l ts" and "ts \<noteq> []" and "loc_names s up par"
    and "(table, root_slot) \<notin> set (forest_nodes ts)"
  shows "\<exists>s'. revoke_mark table root_slot l s = Option.bind (revoke_climb s' table root_slot up) (\<lambda>l'. revoke_mark table root_slot l' s') \<and>
    caps_marked (set (forest_nodes ts)) s s'"
  using assms
proof (induction ts arbitrary: s par l up rule: forest_nodes.induct)
  case (2 n kids ts)
  let ?e = "node_at s n"
  have l: "loc_names s l n" and up: "loc_names s (ce_parent ?e) par" and kids: "caps_forest s n (ce_first_child ?e) kids"
    and ts: "caps_forest s par (ce_next_sibling ?e) ts"
    using 2(5) by auto
  define s1 where "s1 = upd_entry (fst n) (snd n) (\<lambda>e. e\<lparr>ce_state := CAP_STATE_REVOKING\<rparr>) s"
  have m1: "caps_marked {n} s s1" unfolding s1_def by (rule caps_marked_node)
  note w1 = caps_marked_wf [OF 2(3) m1] and k1 = caps_marked_linked [OF m1]
  have below: "\<exists>t. revoke_mark table root_slot (ce_first_child ?e) s1 =
       Option.bind (revoke_climb t table root_slot l) (\<lambda>l'. revoke_mark table root_slot l' t) \<and> caps_marked (set (forest_nodes kids)) s1 t"
    if "kids \<noteq> []"
  proof (rule 2(1) [OF w1 _ _ that])
    show "caps_forest s1 n (ce_first_child ?e) kids" by (rule caps_forest_linked [OF 2(3) k1 kids]) simp
    show "loc_names s1 l n" using loc_names_linked(1) [OF 2(3) k1 l] by simp
  qed (use 2(4,8) caps_marked_registered [OF m1] in auto)
  obtain u where u: "revoke_mark table root_slot l s =
      (if ts \<noteq> [] then revoke_mark table root_slot (ce_next_sibling ?e) u
       else Option.bind (revoke_climb u table root_slot (ce_parent ?e)) (\<lambda>l'. revoke_mark table root_slot l' u))"
    "caps_marked (insert n (set (forest_nodes kids))) s u"
    using revoke_mark_tree [OF 2(3,4) l kids s1_def below] 2(8) caps_forest_null [OF ts] by auto
  note wu = caps_marked_wf [OF 2(3) u(2)] and ku = caps_marked_linked [OF u(2)]
  have par: "loc_names u (ce_parent ?e) par" "loc_names u up par"
    using loc_names_linked(1) [OF 2(3) ku] up 2(7) by auto
  show ?case
  proof (cases "ts = []")
    case True
    then show ?thesis using u revoke_climb_names [OF par] by auto
  next
    case False
    have step: "\<exists>s'. revoke_mark table root_slot (ce_next_sibling ?e) u =
        Option.bind (revoke_climb s' table root_slot up) (\<lambda>l'. revoke_mark table root_slot l' s') \<and> caps_marked (set (forest_nodes ts)) u s'"
    proof (rule 2(2) [OF wu _ _ False par(2)])
      show "caps_forest u par (ce_next_sibling ?e) ts" by (rule caps_forest_linked [OF 2(3) ku ts]) simp
    qed (use 2(4,8) caps_marked_registered [OF u(2)] in auto)
    have nodes: "set (forest_nodes (Cap_Node n kids # ts)) = insert n (set (forest_nodes kids)) \<union> set (forest_nodes ts)" by auto
    show ?thesis unfolding nodes using step u(1) False caps_marked_trans [OF u(2)] by (metis (no_types, lifting))
  qed
qed simp

lemma revoke_mark_subtree:
  assumes "caps_wf s" and "cap_registered s c k table" and "loc_names s l (table, i)"
    and "caps_forest s (table, i) (ce_first_child (entry_at s table i)) kids" and "(table, i) \<notin> set (forest_nodes kids)"
    and "kids \<noteq> [] \<or> cap_locator_is_null (ce_parent (entry_at s table i))"
  shows "\<exists>s'. revoke_mark table i l s = Some (True, s') \<and> caps_marked (set (forest_nodes [Cap_Node (table, i) kids])) s s'"
proof -
  define s1 where "s1 = upd_entry table i (\<lambda>e. e\<lparr>ce_state := CAP_STATE_REVOKING\<rparr>) s"
  have m1: "caps_marked {(table, i)} s s1" unfolding s1_def using caps_marked_node [of "(table, i)"] by simp
  note w1 = caps_marked_wf [OF assms(1) m1] and k1 = caps_marked_linked [OF m1]
  have below: "\<exists>t. revoke_mark table i (ce_first_child (entry_at s table i)) s1 =
      Option.bind (revoke_climb t table i l) (\<lambda>l'. revoke_mark table i l' t) \<and> caps_marked (set (forest_nodes kids)) s1 t"
    if "kids \<noteq> []"
  proof (rule revoke_mark_forest [OF w1 _ _ that])
    show "caps_forest s1 (table, i) (ce_first_child (entry_at s table i)) kids"
      by (rule caps_forest_linked [OF assms(1) k1 assms(4)]) simp
    show "loc_names s1 l (table, i)" using loc_names_linked(1) [OF assms(1) k1 assms(3)] by simp
  qed (use assms(2,5) caps_marked_registered [OF m1] in auto)
  show ?thesis using revoke_mark_tree [OF assms(1-3), of kids s1 i] assms(4,6) s1_def below by auto
qed

section \<open>Taking the root out of its parent's list\<close>

text \<open>Authority, object and generation of every entry outside \<open>N\<close> are the same.\<close>

definition caps_kept :: "cap_node set \<Rightarrow> kstate \<Rightarrow> kstate \<Rightarrow> bool" where
  "caps_kept N s s' \<longleftrightarrow> (\<forall>p i. i < length (ct_entries (ks_tables s p)) \<longrightarrow> (p, i) \<notin> N \<longrightarrow>
     same_authority (entry_at s' p i) (entry_at s p i) \<and> ce_object_ref (entry_at s' p i) = ce_object_ref (entry_at s p i) \<and>
     ce_generation (entry_at s' p i) = ce_generation (entry_at s p i))"

lemma same_authority_refl [simp]: "same_authority e e"
  by (simp add: same_authority_def)

lemma caps_kept_trans:
  assumes "caps_kept M s t" and "caps_kept N t u" and "cap_shrinks s t"
  shows "caps_kept (M \<union> N) s u"
  using assms cap_shrinks_length [OF assms(3)] by (simp add: caps_kept_def same_authority_def)

lemma linked_outside_kept: "linked_outside N s t \<Longrightarrow> caps_kept N s t"
  by (simp add: linked_outside_def caps_kept_def same_links_def)

lemma loc_names_kept:
  assumes "caps_wf s" and "cap_shrinks s t" and "caps_kept {} s t" and "loc_names s l n"
  shows "loc_names t l n"
  using assms loc_names_length [OF assms(1,4)] resolve_shrinks [OF assms(2)]
  by (auto simp: loc_names_def caps_kept_def same_authority_def)

lemma relink_upd:
  assumes "\<And>e. same_authority (f e) e \<and> ce_object_ref (f e) = ce_object_ref e \<and> ce_generation (f e) = ce_generation e"
  shows "linked_outside {(p, i)} s (upd_entry p i f s)" "caps_kept {} s (upd_entry p i f s)"
proof -
  show "linked_outside {(p, i)} s (upd_entry p i f s)"
    by (rule linked_outside_upd [OF upd_entry_shrinks]) (use assms in auto)
  show "caps_kept {} s (upd_entry p i f s)"
    unfolding caps_kept_def
  proof (intro allI impI)
    fix q j assume "j < length (ct_entries (ks_tables s q))"
    then show "same_authority (entry_at (upd_entry p i f s) q j) (entry_at s q j) \<and>
        ce_object_ref (entry_at (upd_entry p i f s) q j) = ce_object_ref (entry_at s q j) \<and>
        ce_generation (entry_at (upd_entry p i f s) q j) = ce_generation (entry_at s q j)"
      using assms [of "entry_at s p i"] same_authority_refl by (cases "q = p") (simp_all add: entry_at_upd_entry, simp add: entry_at_def upd_entry_tables)
  qed
qed

primrec tree_root :: "cap_tree \<Rightarrow> cap_node" where
  "tree_root (Cap_Node n kids) = n"

lemma tree_root_in: "T \<in> set ts \<Longrightarrow> tree_root T \<in> set (forest_nodes ts)"
  by (induction ts rule: forest_nodes.induct) auto

lemma forest_nodes_append [simp]: "forest_nodes (ts @ us) = forest_nodes ts @ forest_nodes us"
  by (induction ts rule: forest_nodes.induct) auto

lemma revoke_collect_forest: "caps_forest s par l ts \<Longrightarrow> \<exists>r. revoke_collect s tables l = Some r"
proof (induction ts arbitrary: l tables)
  case Nil
  then show ?case by (subst revoke_collect.simps) simp
next
  case (Cons T ts)
  obtain n kids where T: "T = Cap_Node n kids" by (cases T)
  then show ?case using Cons by (subst revoke_collect.simps) (auto simp: loc_names_def Let_def)
qed

text \<open>The search stops at the root, with the sibling before it if there is one.\<close>

lemma revoke_find_prev_forest:
  assumes "caps_forest s par l (before @ Cap_Node (table, i) kids # after)"
    and "distinct (forest_nodes (before @ Cap_Node (table, i) kids # after))"
    and "g = ce_generation (entry_at s table i)"
  shows "\<exists>k. revoke_find_prev s table i g l prev = Some (Some k) \<and>
    (if before = [] then k = prev else loc_names s k (tree_root (last before)))"
  using assms
proof (induction before arbitrary: l prev)
  case Nil
  then show ?case by (subst revoke_find_prev.simps) (auto simp: loc_names_def)
next
  case (Cons T before)
  obtain n ks where T: "T = Cap_Node n ks" by (cases T)
  have l: "loc_names s l n" and rest: "caps_forest s par (ce_next_sibling (node_at s n)) (before @ Cap_Node (table, i) kids # after)"
    using Cons(2) T by auto
  have "n \<noteq> (table, i)" using Cons(3) T by auto
  then have "revoke_find_prev s table i g l prev = revoke_find_prev s table i g (ce_next_sibling (node_at s n)) l"
    using l by (subst revoke_find_prev.simps) (auto simp: loc_names_def prod_eq_iff)
  moreover have "\<exists>k. revoke_find_prev s table i g (ce_next_sibling (node_at s n)) l = Some (Some k) \<and>
      (if before = [] then k = l else loc_names s k (tree_root (last before)))"
    by (rule Cons(1) [OF rest]) (use Cons(3,4) T in auto)
  ultimately show ?case using l T by auto
qed

text \<open>A list of siblings without one of them, after its predecessor is linked to its successor.\<close>

lemma caps_forest_unlink:
  assumes wf: "caps_wf s" and "caps_forest s par l (before @ Cap_Node m ks # Cap_Node r kids # after)"
    and "distinct (par # forest_nodes (before @ Cap_Node m ks # Cap_Node r kids # after))"
    and t: "t = upd_entry (fst m) (snd m) (\<lambda>e. e\<lparr>ce_next_sibling := ce_next_sibling (node_at s r)\<rparr>) s"
  shows "caps_forest t par l (before @ Cap_Node m ks # after)"
  using assms(2,3)
proof (induction before arbitrary: l)
  have lk: "linked_outside {m} s t" "caps_kept {} s t"
    using relink_upd(1) [of _ "fst m" "snd m" s] relink_upd(2) [of _ s "fst m" "snd m"] unfolding t by (simp_all add: same_authority_def)
  have keep: "loc_names t k n" if "loc_names s k n" for k n
    by (rule loc_names_kept [OF wf _ lk(2) that]) (use lk(1) in \<open>simp add: linked_outside_def\<close>)
  have sub: "caps_forest t p k us" if "caps_forest s p k us" "m \<notin> set (forest_nodes us)" for p k us
    by (rule caps_forest_linked_par [OF wf lk(1) that(1)]) (use that keep in auto)
  {
    case Nil
    then have m: "loc_names s l m" by simp
    have e: "node_at t m = (node_at s m)\<lparr>ce_next_sibling := ce_next_sibling (node_at s r)\<rparr>"
      using loc_names_length [OF wf m] unfolding t by (simp add: entry_at_upd_entry)
    have "caps_forest t m (ce_first_child (node_at s m)) ks" "caps_forest t par (ce_next_sibling (node_at s r)) after"
      by (rule sub; use Nil in auto)+
    then show ?case using Nil keep e by simp
  next
    case (Cons T before)
    obtain n kk where T: "T = Cap_Node n kk" by (cases T)
    have n: "loc_names s l n" "n \<noteq> m" using Cons T by auto
    have e: "same_links (node_at t n) (node_at s n)" using loc_names_linked(2) [OF wf lk(1) n(1)] n(2) by simp
    have "caps_forest t n (ce_first_child (node_at s n)) kk" by (rule sub) (use Cons T in auto)
    moreover have "caps_forest t par (ce_next_sibling (node_at s n)) (before @ Cap_Node m ks # after)"
      by (rule Cons(1)) (use Cons T in auto)
    ultimately show ?case using Cons T keep e by (simp add: same_links_def)
  }
qed

text \<open>An entry with its descendants, in its place among the children of its parent.\<close>

definition among_siblings :: "kstate \<Rightarrow> cap_node \<Rightarrow> cap_tree list \<Rightarrow> cap_node \<Rightarrow> cap_tree list \<Rightarrow> cap_tree list \<Rightarrow> bool" where
  "among_siblings s n kids par before after \<longleftrightarrow> loc_names s (ce_parent (node_at s n)) par \<and>
     caps_forest s par (ce_first_child (node_at s par)) (before @ Cap_Node n kids # after) \<and>
     distinct (par # forest_nodes (before @ Cap_Node n kids # after))"

lemma caps_forest_member:
  assumes "caps_forest s par l (before @ Cap_Node n kids # after)"
  shows "\<exists>k. loc_names s k n \<and> caps_forest s par (ce_next_sibling (node_at s n)) after"
  using assms
proof (induction before arbitrary: l)
  case (Cons T before)
  then show ?case by (cases T) auto
qed auto

lemma among_siblings_linked:
  assumes wf: "caps_wf s" and lk: "linked_outside {} s t" and "among_siblings s n kids par before after"
  shows "among_siblings t n kids par before after"
proof -
  have a: "loc_names s (ce_parent (node_at s n)) par" "caps_forest s par (ce_first_child (node_at s par)) (before @ Cap_Node n kids # after)"
    using assms(3) by (auto simp: among_siblings_def)
  obtain k where "loc_names s k n" using caps_forest_member [OF a(2)] by blast
  then have "ce_parent (node_at t n) = ce_parent (node_at s n)" "ce_first_child (node_at t par) = ce_first_child (node_at s par)"
    using loc_names_linked(2) [OF wf lk _ empty_iff [THEN iffD1, THEN notI]] loc_names_linked(2) [OF wf lk a(1)]
    by (auto simp: same_links_def)
  then show ?thesis
    using assms(3) loc_names_linked(1) [OF wf lk a(1)] caps_forest_linked [OF wf lk a(2)] by (simp add: among_siblings_def)
qed

lemma revoke_relink_forest:
  assumes wf: "caps_wf s" and a: "among_siblings s (table, i) kids (pt, ps) before after"
    and prev: "if before = [] then prev = cap_locator_null else loc_names s prev (tree_root (last before))"
    and s1: "s1 = revoke_relink table i pt ps prev s"
  shows "caps_kept {} s s1" "\<exists>x. x \<notin> set (forest_nodes [Cap_Node (table, i) kids]) \<and> linked_outside {x} s s1"
    "caps_forest s1 (pt, ps) (ce_first_child (entry_at s1 pt ps)) (before @ after)"
proof -
  let ?next = "ce_next_sibling (entry_at s table i)"
  have f: "loc_names s (ce_parent (entry_at s table i)) (pt, ps)"
    "caps_forest s (pt, ps) (ce_first_child (entry_at s pt ps)) (before @ Cap_Node (table, i) kids # after)"
    and d: "distinct ((pt, ps) # forest_nodes (before @ Cap_Node (table, i) kids # after))"
    using a by (auto simp: among_siblings_def)
  have after: "caps_forest s (pt, ps) ?next after" using caps_forest_member [OF f(2)] by auto
  have upd: "linked_outside {(p, j)} s (upd_entry p j g s)" "caps_kept {} s (upd_entry p j g s)"
    "loc_names s k n \<Longrightarrow> loc_names (upd_entry p j g s) k n"
    if "g = (\<lambda>e. e\<lparr>ce_first_child := ?next\<rparr>) \<or> g = (\<lambda>e. e\<lparr>ce_next_sibling := ?next\<rparr>)" for p j g k n
  proof -
    show "linked_outside {(p, j)} s (upd_entry p j g s)" "caps_kept {} s (upd_entry p j g s)"
      by (rule relink_upd; use that in \<open>auto simp: same_authority_def\<close>)+
    then show "loc_names s k n \<Longrightarrow> loc_names (upd_entry p j g s) k n"
      using loc_names_kept [OF wf] by (simp add: linked_outside_def)
  qed
  have "caps_kept {} s s1 \<and> (\<exists>x. x \<notin> set (forest_nodes [Cap_Node (table, i) kids]) \<and> linked_outside {x} s s1) \<and>
    caps_forest s1 (pt, ps) (ce_first_child (entry_at s1 pt ps)) (before @ after)"
  proof (cases before rule: rev_cases)
    case Nil
    let ?g = "\<lambda>e. e\<lparr>ce_first_child := ?next\<rparr>"
    have eq: "s1 = upd_entry pt ps ?g s" using prev s1 Nil by (simp add: revoke_relink_def Let_def)
    have "entry_at s1 pt ps = ?g (entry_at s pt ps)"
      using loc_names_length [OF wf f(1)] by (simp add: eq entry_at_upd_entry)
    moreover have "caps_forest s1 (pt, ps) ?next after"
      unfolding eq by (rule caps_forest_linked_par [OF wf upd(1) after]) (use upd(3) d in auto)
    ultimately show ?thesis using upd(1,2) [of ?g pt ps] d Nil unfolding eq by auto
  next
    case (snoc bs T)
    obtain m ks where T: "T = Cap_Node m ks" by (cases T)
    let ?g = "\<lambda>e. e\<lparr>ce_next_sibling := ?next\<rparr>"
    have m: "loc_names s prev m" using prev snoc T by simp
    have eq: "s1 = upd_entry (fst m) (snd m) ?g s" using m s1 by (simp add: revoke_relink_def Let_def loc_names_def)
    have par: "m \<noteq> (pt, ps)" using d snoc T by auto
    have "same_links (entry_at s1 pt ps) (entry_at s pt ps)"
      using loc_names_linked(2) [OF wf upd(1) f(1), of ?g "fst m" "snd m"] par unfolding eq by auto
    moreover have "caps_forest s1 (pt, ps) (ce_first_child (entry_at s pt ps)) (bs @ Cap_Node m ks # after)"
      by (rule caps_forest_unlink [OF wf]) (use f(2) d snoc T in \<open>auto simp: eq\<close>)
    moreover have "m \<notin> set (forest_nodes [Cap_Node (table, i) kids]) \<and> linked_outside {m} s s1 \<and> caps_kept {} s s1"
      using d snoc T upd(1,2) [of ?g "fst m" "snd m"] unfolding eq by auto
    ultimately show ?thesis using snoc T unfolding same_links_def by (intro conjI exI [of _ m]) auto
  qed
  then show "caps_kept {} s s1" "\<exists>x. x \<notin> set (forest_nodes [Cap_Node (table, i) kids]) \<and> linked_outside {x} s s1"
    "caps_forest s1 (pt, ps) (ce_first_child (entry_at s1 pt ps)) (before @ after)" by blast+
qed

lemma revoke_unlink_forest:
  assumes "caps_wf s" and "among_siblings s (table, i) kids par before after"
  obtains s1 x where "revoke_unlink table i (ce_generation (entry_at s table i)) (ce_parent (entry_at s table i)) s = Some (True, s1)"
    "caps_kept {} s s1" "x \<notin> set (forest_nodes [Cap_Node (table, i) kids])" "linked_outside {x} s s1"
    "caps_forest s1 par (ce_first_child (node_at s1 par)) (before @ after)"
proof -
  obtain pt ps where par: "par = (pt, ps)" by fastforce
  let ?l = "ce_parent (entry_at s table i)" and ?g = "ce_generation (entry_at s table i)"
  have f: "loc_names s ?l (pt, ps)"
    "caps_forest s (pt, ps) (ce_first_child (entry_at s pt ps)) (before @ Cap_Node (table, i) kids # after)"
    and d: "distinct (forest_nodes (before @ Cap_Node (table, i) kids # after))"
    using assms(2) par by (auto simp: among_siblings_def)
  obtain r where r: "revoke_collect s [table, pt] (ce_first_child (entry_at s pt ps)) = Some r"
    using revoke_collect_forest [OF f(2)] by blast
  obtain prev where prev: "revoke_find_prev s table i ?g (ce_first_child (entry_at s pt ps)) cap_locator_null = Some (Some prev)"
    "if before = [] then prev = cap_locator_null else loc_names s prev (tree_root (last before))"
    using revoke_find_prev_forest [OF f(2) d] by blast
  have "ce_in_use (entry_at s table i)" using caps_forest_member [OF f(2)] by (auto simp: loc_names_def)
  then have "revoke_unlink table i ?g ?l s = Some (True, revoke_relink table i pt ps prev s)"
    using f(1) r prev(1) by (simp add: revoke_unlink_def Let_def loc_names_def)
  with revoke_relink_forest [OF assms(1) assms(2) [unfolded par] prev(2) refl] that show thesis
    unfolding par by auto
qed

section \<open>The phases on a derivation tree\<close>

definition revocable :: "kstate \<Rightarrow> cap_node \<Rightarrow> cap_tree list \<Rightarrow> bool" where
  "revocable s n kids \<longleftrightarrow> snd n < CAP_ENTRIES \<and> ce_in_use (node_at s n) \<and> caps_forest s n (ce_first_child (node_at s n)) kids \<and>
     distinct (n # forest_nodes kids) \<and> (\<forall>m \<in> set (forest_nodes [Cap_Node n kids]). ce_active_pins (node_at s m) = 0)"

lemma loc_names_make:
  assumes "caps_wf s" and "cap_registered s c k table" and "i < CAP_ENTRIES" and "ce_in_use (entry_at s table i)"
  shows "loc_names s (cap_locator_make (Some (ks_tables s table)) i (ce_generation (entry_at s table i)) r) (table, i)"
proof -
  note res = resolve_registered [OF assms(1-3), of "ce_generation (entry_at s table i)" r]
  then have "\<not> cap_locator_is_null (cap_locator_make (Some (ks_tables s table)) i (ce_generation (entry_at s table i)) r)"
    by (auto simp: cap_locator_resolve_table_def)
  then show ?thesis using res assms(3,4) small_unat [of i] by (simp add: loc_names_def cap_locator_make_def)
qed

lemma revocable_linked:
  assumes wf: "caps_wf s" "cap_registered s c k (fst n)" and lk: "linked_outside N s t" and r: "revocable s n kids"
    and N: "N \<inter> set (forest_nodes [Cap_Node n kids]) = {}"
  shows "revocable t n kids" "same_links (node_at t n) (node_at s n)"
proof -
  have l: "loc_names s (cap_locator_make (Some (ks_tables s (fst n))) (snd n) (ce_generation (node_at s n)) 0) n"
    using loc_names_make [OF wf, of "snd n" 0] r by (simp add: revocable_def)
  have f: "caps_forest s n (ce_first_child (node_at s n)) kids" using r by (simp add: revocable_def)
  show e: "same_links (node_at t n) (node_at s n)" using loc_names_linked(2) [OF wf(1) lk l] N by auto
  have "same_links (node_at t m) (node_at s m)" if "m \<in> set (forest_nodes [Cap_Node n kids])" for m
    using that e caps_forest_same [OF wf(1) lk f, of m] N by (auto simp del: split_paired_All)
  then have "ce_active_pins (node_at t m) = 0" if "m \<in> set (forest_nodes [Cap_Node n kids])" for m
    using that r unfolding same_links_def revocable_def by metis
  moreover have "caps_forest t n (ce_first_child (node_at s n)) kids"
    by (rule caps_forest_linked [OF wf(1) lk f]) (use N in auto)
  ultimately show "revocable t n kids" using r e by (simp add: revocable_def same_links_def same_authority_def)
qed

lemma revoke_last_pass_ok:
  assumes "caps_wf s" and "cap_registered s c k table" and "revocable s (table, i) kids"
    and "g = ce_generation (entry_at s table i)"
  shows "\<exists>s'. revoke_last_pass pin_wait cpu tx table i g s =
      Some (if case tx of None \<Rightarrow> False | Some k \<Rightarrow> tx_state (ks_tx s cpu k) = BH_CAP_TX_ABORTED then K_ERR_TIMEOUT else 0, s') \<and>
    caps_freed (set (forest_nodes [Cap_Node (table, i) kids])) s s'"
proof -
  have r: "i < CAP_ENTRIES" "ce_in_use (entry_at s table i)" "caps_forest s (table, i) (ce_first_child (entry_at s table i)) kids"
    "distinct ((table, i) # forest_nodes kids)"
    "\<And>n. n \<in> set (forest_nodes [Cap_Node (table, i) kids]) \<Longrightarrow> ce_active_pins (node_at s n) = 0"
    using assms(3) by (auto simp: revocable_def)
  obtain s' where s': "revoke_free pin_wait table i (cap_locator_make (Some (ks_tables s table)) i g 0) DIR_DOWN s = Some (0, s')"
    "caps_freed (set (forest_nodes [Cap_Node (table, i) kids])) s s'"
    using revoke_free_subtree [OF assms(1,2) loc_names_make [OF assms(1,2) r(1,2)] r(3,4,5)] assms(4) by blast
  then have "ks_tx s' = ks_tx s" by (simp add: caps_freed_def)
  then show ?thesis using s' by (cases tx) (auto simp: revoke_last_pass_def)
qed

lemma revoke_bump_epoch_ok:
  assumes "revoke_bump_epoch table i g s = (ep, t)"
  shows "linked_outside {} s t" "ce_state (entry_at t p j) = ce_state (entry_at s p j)" "ks_tx t = ks_tx s"
proof -
  have u: "linked_outside {} s (upd_entry table i (\<lambda>e. e\<lparr>ce_revocation_epoch := ce_revocation_epoch e + 1\<rparr>) s)"
    by (rule linked_outside_upd) (auto simp: same_links_def same_authority_def)
  then show "linked_outside {} s t" using assms by (auto simp: revoke_bump_epoch_def Let_def split: if_splits)
  have "ce_state ((ct_entries T)[i := (ct_entries T ! i)\<lparr>ce_revocation_epoch := x\<rparr>] ! j) = ce_state (ct_entries T ! j)" for T x
    by (cases "j = i"; cases "i < length (ct_entries T)") (simp_all add: list_update_beyond)
  then show "ce_state (entry_at t p j) = ce_state (entry_at s p j)" "ks_tx t = ks_tx s"
    using assms by (auto simp: revoke_bump_epoch_def Let_def entry_at_def upd_entry_tables upd_entry_def upd_table_def split: if_splits)
qed

lemma revoke_broadcast_ok:
  assumes "revoke_broadcast wait cpu k table i g ep s = (ok, t)"
    and wait: "\<And>t. linked_outside {} t (wait t)"
      "\<And>t p j. ce_state (entry_at t p j) = CAP_STATE_REVOKING \<Longrightarrow> ce_state (entry_at (wait t) p j) \<noteq> CAP_STATE_LIVE"
    and b: "cpu < MAX_CPUS" "k < CAP_TX_PER_CORE"
  shows "linked_outside {} s t" "ce_state (entry_at s p j) = CAP_STATE_REVOKING \<Longrightarrow> ce_state (entry_at t p j) \<noteq> CAP_STATE_LIVE"
    "ok \<Longrightarrow> tx_state (ks_tx t cpu k) \<noteq> BH_CAP_TX_ABORTED" "(\<And>t. cap_tx_acked (wait t) cpu k) \<Longrightarrow> ok"
proof -
  let ?s1 = "revoke_publish cpu k table i g ep s"
  let ?s2 = "if cap_tx_acked ?s1 cpu k then ?s1 else wait ?s1"
  let ?rel = "\<lambda>st. cap_tx_release cpu k (cap_tx_set_state cpu k st ?s2)"
  have t: "(ok, t) = (if cap_tx_acked ?s2 cpu k then (True, ?rel BH_CAP_TX_COMMITTED) else (False, revoke_quarantine table i g (?rel BH_CAP_TX_ABORTED)))"
    using assms(1) by (simp add: revoke_broadcast_def Let_def split: if_splits)
  show "(\<And>t. cap_tx_acked (wait t) cpu k) \<Longrightarrow> ok" using t by (auto split: if_splits)
  have tab: "ks_tables (?rel st) = ks_tables ?s2" "ks_registry (?rel st) = ks_registry ?s2" "ks_bootstrap_used (?rel st) = ks_bootstrap_used ?s2" for st
    by (simp_all add: cap_tx_release_def cap_tx_set_state_def)
  have 1: "linked_outside {} s ?s1" by (rule linked_outside_same) (use revoke_publish_frame in auto)
  have 2: "linked_outside {} s ?s2" using linked_outside_trans [OF 1 wait(1)] 1 by simp
  have 3: "linked_outside {} s (?rel st)" for st using linked_outside_trans [OF 2 linked_outside_same [OF tab]] by simp
  have q: "linked_outside {} u (revoke_quarantine table i g u)" for u
    by (auto simp: revoke_quarantine_def same_links_def same_authority_def intro!: linked_outside_upd)
  show "linked_outside {} s t" using t 3 linked_outside_trans [OF 3 q] by (auto split: if_splits)
  show "ok \<Longrightarrow> tx_state (ks_tx t cpu k) \<noteq> BH_CAP_TX_ABORTED"
    using t b by (auto simp: cap_tx_release_def cap_tx_set_state_def split: if_splits)
  have e1: "entry_at ?s1 p j = entry_at s p j" by (simp add: entry_at_def revoke_publish_frame)
  assume "ce_state (entry_at s p j) = CAP_STATE_REVOKING"
  then have e2: "ce_state (entry_at ?s2 p j) \<noteq> CAP_STATE_LIVE" using wait(2) [of ?s1 p j] e1 by auto
  have e3: "entry_at (?rel st) p j = entry_at ?s2 p j" for st by (simp add: entry_at_def tab)
  have "ce_state (entry_at u p j) \<noteq> CAP_STATE_LIVE \<Longrightarrow> ce_state (entry_at (revoke_quarantine table i g u) p j) \<noteq> CAP_STATE_LIVE" for u
    by (cases "j = i"; cases "i < length (ct_entries (ks_tables u table))")
       (auto simp: revoke_quarantine_def entry_at_def upd_entry_tables list_update_beyond)
  then show "ce_state (entry_at t p j) \<noteq> CAP_STATE_LIVE" using t e2 e3 by (auto split: if_splits)
qed

text \<open>What a revocation leaves: \<open>N\<close> without authority, everything else as it was.\<close>

definition cap_dead :: "kstate \<Rightarrow> cap_node \<Rightarrow> bool" where
  "cap_dead s n \<longleftrightarrow> \<not> (ce_in_use (node_at s n) \<and> ce_state (node_at s n) = CAP_STATE_LIVE)"

definition caps_revoked :: "cap_node set \<Rightarrow> kstate \<Rightarrow> int \<Rightarrow> kstate \<Rightarrow> bool" where
  "caps_revoked N s st s' \<longleftrightarrow> (st = 0 \<or> st = K_ERR_TIMEOUT) \<and> cap_shrinks s s' \<and> caps_kept N s s' \<and> (\<forall>n \<in> N. cap_dead s' n) \<and>
     (st = 0 \<longrightarrow> (\<forall>n \<in> N. \<not> ce_in_use (node_at s' n) \<and> ce_generation (node_at s' n) = ce_generation (node_at s n) + 1))"

lemma caps_revoked_freed:
  assumes kept: "caps_kept {} s t" "cap_shrinks s t" and freed: "caps_freed N t u"
  shows "caps_revoked N s 0 u"
proof -
  have lk: "linked_outside N t u" using freed by (simp add: caps_freed_def)
  have n: "\<not> ce_in_use (node_at u n) \<and> ce_generation (node_at u n) = ce_generation (node_at s n) + 1" if "n \<in> N" for n
    using that freed kept cap_shrinks_length [OF kept(2), of "fst n"] by (auto simp: caps_freed_def caps_kept_def)
  have "cap_shrinks s u" using cap_shrinks_trans [OF kept(2)] lk by (simp add: linked_outside_def)
  moreover have "caps_kept N s u" using caps_kept_trans [OF kept(1) linked_outside_kept [OF lk] kept(2)] by simp
  ultimately show ?thesis using n by (simp add: caps_revoked_def cap_dead_def)
qed

lemma revoke_mark_ok:
  assumes wf: "caps_wf s" "cap_registered s c k table" and r: "revocable s (table, i) kids"
    and "kids \<noteq> [] \<or> cap_locator_is_null (ce_parent (entry_at s table i))" and g: "g = ce_generation (entry_at s table i)"
  obtains s' where "revoke_mark table i (cap_locator_make (Some (ks_tables s table)) i g 0) s = Some (True, s')"
    "caps_marked (set (forest_nodes [Cap_Node (table, i) kids])) s s'"
proof -
  have r': "i < CAP_ENTRIES" "ce_in_use (entry_at s table i)" "caps_forest s (table, i) (ce_first_child (entry_at s table i)) kids"
    "(table, i) \<notin> set (forest_nodes kids)"
    using r by (auto simp: revocable_def)
  show thesis
    using revoke_mark_subtree [OF wf loc_names_make [OF wf r'(1,2)] r'(3,4) assms(4)] that unfolding g by blast
qed

lemma revocable_length:
  assumes "caps_wf s" and "cap_registered s c k table" and "revocable s (table, i) kids" and "n \<in> set (forest_nodes [Cap_Node (table, i) kids])"
  shows "snd n < length (ct_entries (ks_tables s (fst n)))"
proof -
  have "\<exists>l. loc_names s l n"
    using assms(4) loc_names_make [OF assms(1,2), of i 0] assms(3) caps_forest_node [of s "(table, i)" _ kids n]
    by (auto simp: revocable_def)
  then show ?thesis using loc_names_length [OF assms(1)] by blast
qed

text \<open>The phases after the root has been taken out of its parent's list.\<close>

lemma revoke_rest_ok:
  assumes wf: "caps_wf s" "cap_registered s c kk table" and r: "revocable s (table, i) kids"
    and top: "kids \<noteq> [] \<or> cap_locator_is_null (ce_parent (entry_at s table i))" and g: "g = ce_generation (entry_at s table i)"
    and wait: "\<And>t. linked_outside {} t (wait t)"
      "\<And>t p j. ce_state (entry_at t p j) = CAP_STATE_REVOKING \<Longrightarrow> ce_state (entry_at (wait t) p j) \<noteq> CAP_STATE_LIVE"
    and tx: "\<And>k. tx = Some k \<Longrightarrow> cpu < MAX_CPUS \<and> k < CAP_TX_PER_CORE"
    and run: "res = Option.bind (revoke_mark table i (cap_locator_make (Some (ks_tables s table)) i g 0) s)
       (\<lambda>(fresh, s2). if \<not> fresh then stale s2
        else case revoke_bump_epoch table i g s2 of (epoch, s3) \<Rightarrow>
          (case tx of None \<Rightarrow> revoke_last_pass pin_wait cpu tx table i g s3
           | Some k \<Rightarrow>
             (case revoke_broadcast wait cpu k table i g epoch s3 of
                (False, s4) \<Rightarrow> Some (K_ERR_TIMEOUT, s4)
              | (True, s4) \<Rightarrow> revoke_last_pass pin_wait cpu tx table i g s4)))"
  shows "\<exists>st s'. res = Some (st, s') \<and> caps_revoked (set (forest_nodes [Cap_Node (table, i) kids])) s st s' \<and>
    linked_outside (set (forest_nodes [Cap_Node (table, i) kids])) s s' \<and>
    ((\<forall>t k. cap_tx_acked (wait t) cpu k) \<longrightarrow> st = 0)"
proof -
  let ?N = "set (forest_nodes [Cap_Node (table, i) kids])"
  obtain s2 where s2: "revoke_mark table i (cap_locator_make (Some (ks_tables s table)) i g 0) s = Some (True, s2)" "caps_marked ?N s s2"
    by (rule revoke_mark_ok [OF wf r top g])
  obtain ep s3 where s3: "revoke_bump_epoch table i g s2 = (ep, s3)" by fastforce
  note b = revoke_bump_epoch_ok [OF s3]
  have l3: "linked_outside {} s s3" using linked_outside_trans [OF caps_marked_linked [OF s2(2)] b(1)] by simp
  have m3: "ce_state (node_at s3 n) = CAP_STATE_REVOKING" if "n \<in> ?N" for n
    using revocable_length [OF wf r that] s2(2) that b(2) by (auto simp: caps_marked_def)
  have last: "\<exists>s'. revoke_last_pass pin_wait cpu tx table i g t = Some (0, s') \<and> caps_revoked ?N s 0 s' \<and> linked_outside ?N s s'"
    if l: "linked_outside {} s t" and na: "\<And>k. tx = Some k \<Longrightarrow> tx_state (ks_tx t cpu k) \<noteq> BH_CAP_TX_ABORTED" for t
  proof -
    have sh: "cap_shrinks s t" using l by (simp add: linked_outside_def)
    have r': "revocable t (table, i) kids" "g = ce_generation (entry_at t table i)"
      using revocable_linked [OF wf(1) _ l r] wf(2) g by (auto simp: same_links_def)
    have reg: "cap_registered t c kk table" using wf(2) sh by (simp add: cap_registered_def cap_shrinks_def)
    obtain s' where s': "revoke_last_pass pin_wait cpu tx table i g t = Some (0, s')" "caps_freed ?N t s'"
      using revoke_last_pass_ok [OF cap_shrinks_caps_wf [OF wf(1) sh] reg r', of pin_wait cpu tx] na
      by (cases tx) auto
    then show ?thesis
      using caps_revoked_freed [OF linked_outside_kept [OF l] sh s'(2)] linked_outside_trans [OF l caps_freed_linked [OF s'(2)]] by auto
  qed
  show ?thesis
  proof (cases tx)
    case None
    then show ?thesis using last [OF l3] run s2(1) s3 by auto
  next
    case (Some k)
    obtain ok s4 where s4: "revoke_broadcast wait cpu k table i g ep s3 = (ok, s4)" by fastforce
    note bc = revoke_broadcast_ok [OF s4 wait conjunct1 [OF tx [OF Some]] conjunct2 [OF tx [OF Some]]]
    have l4: "linked_outside {} s s4" using linked_outside_trans [OF l3 bc(1)] by simp
    show ?thesis
    proof (cases ok)
      case True
      then show ?thesis using last [OF l4] bc(3) run s2(1) s3 s4 Some by auto
    next
      case False
      have dead: "cap_dead s4 n" if "n \<in> ?N" for n using bc(2) m3 [OF that] by (simp add: cap_dead_def)
      have "caps_revoked ?N s K_ERR_TIMEOUT s4"
        unfolding caps_revoked_def using l4 linked_outside_kept [OF l4] dead
        by (auto simp: linked_outside_def caps_kept_def status_simps)
      moreover have "linked_outside ?N s s4" using linked_outside_mono [OF l4] by simp
      moreover have "res = Some (K_ERR_TIMEOUT, s4)" using run s2(1) s3 s4 Some False by simp
      ultimately show ?thesis using bc(4) False by blast
    qed
  qed
qed

lemma revoke_phases_ok:
  assumes wf: "caps_wf s" "cap_registered s c kk table" and r: "revocable s (table, i) kids"
    and place: "cap_locator_is_null (ce_parent (entry_at s table i)) \<or> kids \<noteq> [] \<and> among_siblings s (table, i) kids par before after"
    and wait: "\<And>t. linked_outside {} t (wait t)"
      "\<And>t p j. ce_state (entry_at t p j) = CAP_STATE_REVOKING \<Longrightarrow> ce_state (entry_at (wait t) p j) \<noteq> CAP_STATE_LIVE"
    and tx: "\<And>k. tx = Some k \<Longrightarrow> cpu < MAX_CPUS \<and> k < CAP_TX_PER_CORE"
  shows "\<exists>st s'. revoke_phases wait pin_wait cpu tx table i s = Some (st, s') \<and>
    caps_revoked (set (forest_nodes [Cap_Node (table, i) kids])) s st s' \<and> ((\<forall>t k. cap_tx_acked (wait t) cpu k) \<longrightarrow> st = 0) \<and>
    (among_siblings s (table, i) kids par before after \<longrightarrow> caps_forest s' par (ce_first_child (node_at s' par)) (before @ after))"
proof -
  let ?N = "set (forest_nodes [Cap_Node (table, i) kids])" and ?g = "ce_generation (entry_at s table i)"
  have "\<exists>s1 X. revoke_unlink table i ?g (ce_parent (entry_at s table i)) s = Some (True, s1) \<and> caps_kept {} s s1 \<and>
      X \<inter> ?N = {} \<and> linked_outside X s s1 \<and>
      (among_siblings s (table, i) kids par before after \<longrightarrow> caps_forest s1 par (ce_first_child (node_at s1 par)) (before @ after))"
  proof (cases "cap_locator_is_null (ce_parent (entry_at s table i))")
    case True
    then have "cap_locator_resolve_table s (ce_parent (entry_at s table i)) = None" "\<not> among_siblings s (table, i) kids par before after"
      by (simp_all add: cap_locator_resolve_table_def among_siblings_def loc_names_def)
    then show ?thesis using linked_outside_kept [OF linked_outside_refl] by (intro exI [of _ s] exI [of _ "{}"]) (simp add: revoke_unlink_def)
  next
    case False
    then have "among_siblings s (table, i) kids par before after" using place by simp
    from revoke_unlink_forest [OF wf(1) this] show ?thesis by (metis Int_insert_left_if0 inf_bot_left)
  qed
  then obtain s1 X where s1: "revoke_unlink table i ?g (ce_parent (entry_at s table i)) s = Some (True, s1)" "caps_kept {} s s1"
      "X \<inter> ?N = {}" "linked_outside X s s1"
      "among_siblings s (table, i) kids par before after \<longrightarrow> caps_forest s1 par (ce_first_child (node_at s1 par)) (before @ after)"
    by blast
  have sh: "cap_shrinks s s1" using s1(4) by (simp add: linked_outside_def)
  note wf1 = cap_shrinks_caps_wf [OF wf(1) sh]
  have reg1: "cap_registered s1 c kk table" using wf(2) sh by (simp add: cap_registered_def cap_shrinks_def)
  have r1: "revocable s1 (table, i) kids" "same_links (entry_at s1 table i) (entry_at s table i)"
    using revocable_linked [OF wf(1) _ s1(4) r s1(3)] wf(2) by auto
  have top: "kids \<noteq> [] \<or> cap_locator_is_null (ce_parent (entry_at s1 table i))" "?g = ce_generation (entry_at s1 table i)"
    using place r1(2) by (auto simp: same_links_def)
  have "\<exists>st s'. revoke_phases wait pin_wait cpu tx table i s = Some (st, s') \<and> caps_revoked ?N s1 st s' \<and> linked_outside ?N s1 s' \<and>
      ((\<forall>t k. cap_tx_acked (wait t) cpu k) \<longrightarrow> st = 0)"
    by (rule revoke_rest_ok [OF wf1 reg1 r1(1) top wait tx,
          where stale = "\<lambda>s2. Some (-3, revoke_release cpu tx (case tx of None \<Rightarrow> s2 | Some k \<Rightarrow> cap_tx_set_state cpu k BH_CAP_TX_ABORTED s2))"])
       (use s1(1) in \<open>auto simp: revoke_phases_def Let_def\<close>)
  then obtain st s' where s': "revoke_phases wait pin_wait cpu tx table i s = Some (st, s')" "caps_revoked ?N s1 st s'" "linked_outside ?N s1 s'"
    "(\<forall>t k. cap_tx_acked (wait t) cpu k) \<longrightarrow> st = 0" by blast
  have "caps_revoked ?N s st s'"
  proof -
    have gen: "ce_generation (node_at s1 n) = ce_generation (node_at s n)" if "n \<in> ?N" for n
      using s1(2) revocable_length [OF wf r that] by (simp add: caps_kept_def)
    show ?thesis
      using s'(2) cap_shrinks_trans [OF sh] caps_kept_trans [OF s1(2) _ sh] gen unfolding caps_revoked_def by (metis Un_empty_left)
  qed
  moreover have "caps_forest s' par (ce_first_child (node_at s' par)) (before @ after)" if a: "among_siblings s (table, i) kids par before after"
  proof -
    have d: "?N \<inter> set (par # forest_nodes (before @ after)) = {}" using a by (auto simp: among_siblings_def)
    have "loc_names s1 (ce_parent (entry_at s table i)) par"
      using loc_names_kept [OF wf(1) sh s1(2)] a by (simp add: among_siblings_def)
    then have "ce_first_child (node_at s' par) = ce_first_child (node_at s1 par)"
      using loc_names_linked(2) [OF wf1 s'(3)] d by (auto simp: same_links_def)
    then show ?thesis using caps_forest_linked [OF wf1 s'(3) _ d] s1(5) a by simp
  qed
  ultimately show ?thesis using s'(1,4) by blast
qed

lemma revoke_subtree_ok:
  assumes wf: "caps_wf s" "cap_registered s c kk table"
    and root: "h \<noteq> 0" "revoke_root (ks_tables s table) h = Some i"
    and tree: "revocable s (table, i) kids"
    and place: "cap_locator_is_null (ce_parent (entry_at s table i)) \<or> kids \<noteq> [] \<and> among_siblings s (table, i) kids par before after"
    and wait: "\<And>t. linked_outside {} t (wait t)"
      "\<And>t p j. ce_state (entry_at t p j) = CAP_STATE_REVOKING \<Longrightarrow> ce_state (entry_at (wait t) p j) \<noteq> CAP_STATE_LIVE"
    and slot: "\<exists>k < CAP_TX_PER_CORE. tx_state (ks_tx s cpu k) \<in> {BH_CAP_TX_FREE, BH_CAP_TX_COMMITTED, BH_CAP_TX_ABORTED}"
  shows "\<exists>st s'. cap_table_revoke wait pin_wait cpu (Some table) h s = Some (st, s') \<and>
    caps_revoked (set (forest_nodes [Cap_Node (table, i) kids])) s st s' \<and> ((\<forall>t k. cap_tx_acked (wait t) cpu k) \<longrightarrow> st = 0) \<and>
    (among_siblings s (table, i) kids par before after \<longrightarrow> caps_forest s' par (ce_first_child (node_at s' par)) (before @ after))"
proof -
  define use_tx where "use_tx = (cpu < MAX_CPUS \<and> ks_pmm_initialized s)"
  have "\<exists>tx s1. (if use_tx then cap_tx_alloc cpu BH_CAP_TX_OP_REVOKE s else (None, s)) = (tx, s1) \<and> (use_tx \<longrightarrow> tx \<noteq> None) \<and>
      (\<forall>k. tx = Some k \<longrightarrow> cpu < MAX_CPUS \<and> k < CAP_TX_PER_CORE) \<and>
      ks_tables s1 = ks_tables s \<and> ks_registry s1 = ks_registry s \<and> ks_bootstrap_used s1 = ks_bootstrap_used s"
  proof (cases use_tx)
    case True
    then have "cpu < MAX_CPUS" by (simp add: use_tx_def)
    from cap_tx_alloc_ok [OF this slot, of BH_CAP_TX_OP_REVOKE] show ?thesis using True use_tx_def by (metis option.inject option.simps(3) upd_tx_frame)
  qed simp
  then obtain tx s1 where tx: "(if use_tx then cap_tx_alloc cpu BH_CAP_TX_OP_REVOKE s else (None, s)) = (tx, s1)" "use_tx \<longrightarrow> tx \<noteq> None"
    "\<And>k. tx = Some k \<Longrightarrow> cpu < MAX_CPUS \<and> k < CAP_TX_PER_CORE"
    and same: "ks_tables s1 = ks_tables s" "ks_registry s1 = ks_registry s" "ks_bootstrap_used s1 = ks_bootstrap_used s"
    by blast
  let ?s2 = "upd_entry table i (\<lambda>e. e\<lparr>ce_state := CAP_STATE_REVOKING\<rparr>) s1" and ?N = "set (forest_nodes [Cap_Node (table, i) kids])"
  have l2: "linked_outside {} s ?s2"
    using linked_outside_trans [OF linked_outside_same [OF same] caps_marked_linked [OF caps_marked_node [of "(table, i)" s1]]] by simp
  have sh: "cap_shrinks s ?s2" using l2 by (simp add: linked_outside_def)
  have e: "revocable ?s2 (table, i) kids" "ce_parent (entry_at ?s2 table i) = ce_parent (entry_at s table i)"
    using revocable_linked [OF wf(1) _ l2 tree] wf(2) by (auto simp: same_links_def)
  have am: "among_siblings s (table, i) kids par before after \<Longrightarrow> among_siblings ?s2 (table, i) kids par before after"
    by (rule among_siblings_linked [OF wf(1) l2])
  have place2: "cap_locator_is_null (ce_parent (entry_at ?s2 table i)) \<or> kids \<noteq> [] \<and> among_siblings ?s2 (table, i) kids par before after"
    using place am e(2) by auto
  have reg2: "cap_registered ?s2 c kk table" using wf(2) sh by (simp add: cap_registered_def cap_shrinks_def)
  have run: "cap_table_revoke wait pin_wait cpu (Some table) h s = revoke_phases wait pin_wait cpu tx table i ?s2"
    unfolding cap_table_revoke_def option.case Let_def use_tx_def [symmetric] tx(1) prod.case using root tx(2) same(1) by auto
  obtain st s' where s': "cap_table_revoke wait pin_wait cpu (Some table) h s = Some (st, s')" "caps_revoked ?N ?s2 st s'"
    "(\<forall>t k. cap_tx_acked (wait t) cpu k) \<longrightarrow> st = 0"
    "among_siblings ?s2 (table, i) kids par before after \<longrightarrow> caps_forest s' par (ce_first_child (node_at s' par)) (before @ after)"
    using revoke_phases_ok [OF cap_shrinks_caps_wf [OF wf(1) sh] reg2 e(1) place2 wait tx(3)] unfolding run by blast
  have gen: "ce_generation (node_at ?s2 n) = ce_generation (node_at s n)" if "n \<in> ?N" for n
    using linked_outside_kept [OF l2] revocable_length [OF wf tree that] by (simp add: caps_kept_def)
  have "caps_revoked ?N s st s'"
    using s'(2) cap_shrinks_trans [OF sh] caps_kept_trans [OF linked_outside_kept [OF l2] _ sh] gen unfolding caps_revoked_def
    by (metis Un_empty_left)
  then show ?thesis using s' am by blast
qed


section \<open>Delegation extends the derivation tree\<close>

lemma resolve_cong:
  assumes "ks_registry t = ks_registry s" and "\<And>q. ct_cspace_id (ks_tables t q) = ct_cspace_id (ks_tables s q) \<and>
     ct_owner_core (ks_tables t q) = ct_owner_core (ks_tables s q) \<and> ct_registry_slot (ks_tables t q) = ct_registry_slot (ks_tables s q)"
  shows "cap_locator_resolve_table t l = cap_locator_resolve_table s l"
  using assms by (auto simp: cap_locator_resolve_table_def Let_def split: option.split)

lemma delegated_revocable:
  assumes wf: "caps_wf s" "cap_registered s c k src" "cap_registered s c' k' dst" and wf': "caps_wf s'"
    and D: "cap_delegated src i dst j rights s s'" and r: "revocable s (src, i) kids"
  shows "revocable s' (src, i) (Cap_Node (dst, j) [] # kids)"
proof -
  note D' = D [unfolded cap_delegated_def, simplified]
  have b: "i < 64" "j < 64" "(src, i) \<noteq> (dst, j)" "\<not> ce_in_use (entry_at s dst j)" using D' by auto
  let ?d = "cap_child_entry (ks_tables s src) i (entry_at s src i) rights j (entry_at s dst j)"
  have ed: "entry_at s' dst j = ?d" and es: "entry_at s' src i = (entry_at s src i)\<lparr>ce_first_child :=
      cap_locator_make (Some (ks_tables s dst)) j (ce_generation (entry_at s' dst j)) (ucast (ce_revocation_epoch (entry_at s' dst j)))\<rparr>"
    using D' by auto
  have res: "cap_locator_resolve_table s' l = cap_locator_resolve_table s l" for l
    by (rule resolve_cong) (use D' in auto)
  have reg: "cap_registered s' c k src" "cap_registered s' c' k' dst"
    using cap_registered_cong [of s' s] D' wf(2,3) by auto
  have f: "caps_forest s (src, i) (ce_first_child (entry_at s src i)) kids" "distinct ((src, i) # forest_nodes kids)" "ce_in_use (entry_at s src i)"
    using r by (auto simp: revocable_def)
  have dead: "(dst, j) \<notin> set (forest_nodes kids)" using caps_forest_node [OF f(1), of "(dst, j)"] b(4) by (auto simp: loc_names_def)
  have same: "entry_at s' (fst n) (snd n) = node_at s n" if n: "n \<in> set (forest_nodes kids)" for n
  proof -
    have "snd n < 64" "n \<noteq> (dst, j)" "n \<noteq> (src, i)" using caps_forest_node [OF f(1) n] n dead f(2) by (auto simp: loc_names_def)
    then show ?thesis using D' by (cases n) auto
  qed
  have kids: "caps_forest s' (src, i) (ce_first_child (entry_at s src i)) kids"
    by (rule caps_forest_cong [OF res f(1)]) (use same es in \<open>auto simp: loc_names_def res\<close>)
  have use: "ce_in_use (entry_at s' dst j)" "ce_in_use (entry_at s' src i)" unfolding ed es using f(3) by (simp_all add: cap_child_entry_def)
  have up: "loc_names s' (ce_parent ?d) (src, i)"
    using loc_names_make [OF wf(1,2) b(1) f(3), of "ucast (ce_revocation_epoch (entry_at s src i))"] es use(2) res
    by (simp add: loc_names_def cap_child_entry_def)
  have down: "loc_names s' (ce_first_child (entry_at s' src i)) (dst, j)"
  proof -
    have "cap_locator_make (Some (ks_tables s dst)) = cap_locator_make (Some (ks_tables s' dst))"
      using D' by (simp add: cap_locator_make_def fun_eq_iff)
    then show ?thesis using loc_names_make [OF wf' reg(2) b(2) use(1)] es by simp
  qed
  have "caps_forest s' (src, i) (ce_first_child (entry_at s' src i)) (Cap_Node (dst, j) [] # kids)"
    using down up kids by (simp add: ed cap_child_entry_def)
  moreover have "ce_active_pins (node_at s' n) = 0" if "n \<in> set (forest_nodes [Cap_Node (src, i) (Cap_Node (dst, j) [] # kids)])" for n
  proof -
    have "ce_active_pins (node_at s m) = 0" if "m \<in> insert (src, i) (set (forest_nodes kids))" for m using that r by (auto simp: revocable_def)
    then show ?thesis using that same es ed by (auto simp: cap_child_entry_def)
  qed
  ultimately show ?thesis using b use f(2) dead by (auto simp: revocable_def)
qed

lemma revoke_root_delegated:
  assumes wf: "cap_table_wf (ks_tables s src)" and D: "cap_delegated src i dst j rights s s'"
    and h: "cap_delegate_source (ks_tables s src) h = Some i"
  shows "revoke_root (ks_tables s' src) h = Some i" "h \<noteq> 0"
proof -
  note D' = D [unfolded cap_delegated_def, simplified]
  have h': "cap_slot_of_id (ks_tables s src) (bh_cap_index h) = Some i"
    "bh_cap_generation_matches (ce_generation (entry_at s src i)) (bh_cap_generation h)" "ce_state (entry_at s src i) = CAP_STATE_LIVE"
    using h by (auto simp: cap_delegate_source_def entry_at_def split: option.splits if_splits)
  have i: "i < 64" "ce_in_use (entry_at s src i)" "bh_cap_index h = of_nat i + 1"
    using cap_slot_of_id_Some [OF wf h'(1)] by (auto simp: entry_at_def)
  have e: "entry_at s' src i = (entry_at s src i)\<lparr>ce_first_child := ce_first_child (entry_at s' src i)\<rparr>" using D' by auto
  have wf': "cap_table_wf (ks_tables s' src)" using D' by simp
  have "cap_slot_of_id (ks_tables s' src) (bh_cap_index h) = Some i"
    using cap_slot_of_id_iff [OF wf' i(1)] i(2,3) arg_cong [OF e, of ce_in_use] by (simp add: entry_at_def)
  then show "revoke_root (ks_tables s' src) h = Some i"
    using h' arg_cong [OF e, of ce_generation] arg_cong [OF e, of ce_state] by (simp add: revoke_root_def bh_cap_index_def bh_cap_generation_def entry_at_def)
  show "h \<noteq> 0" using i(1,3) slot_id_bound [of i] by (auto simp: bh_cap_index_def)
qed

lemma cap_grant_tx: "cap_table_grant cpu table ty ref r out s = (st, s', h) \<Longrightarrow> ks_tx s' = ks_tx s"
  by (auto simp: cap_table_grant_def cap_alloc_slot_def Let_def split: option.splits if_splits prod.splits)

lemma sample_two_tx: "tx_state (ks_tx sample_two c k) = BH_CAP_TX_FREE"
  by (auto simp: sample_two_def sample_caps_def cap_table_create_def Let_def sample_state_def split: option.split)

text \<open>The other cores acknowledge whatever they are asked.\<close>

definition sample_wait :: "kstate \<Rightarrow> kstate" where
  "sample_wait t = t\<lparr>ks_tx := \<lambda>c k. (ks_tx t c k)\<lparr>tx_ack_mask := tx_target_mask (ks_tx t c k)\<rparr>\<rparr>"

lemma sample_wait_ok:
  "linked_outside {} t (sample_wait t)" "cap_tx_acked (sample_wait t) cpu k"
  "ce_state (entry_at t p j) = CAP_STATE_REVOKING \<Longrightarrow> ce_state (entry_at (sample_wait t) p j) \<noteq> CAP_STATE_LIVE" "cap_shrinks t (sample_wait t)"
  by (auto simp: sample_wait_def cap_tx_acked_def entry_at_def intro: linked_outside_same cap_shrinks_same)

text \<open>A granted capability, and what was delegated from it to another table.\<close>

lemma sample_family:
  obtains i s where "caps_wf s" "cap_registered s 0 0 (Heap_Table 0)" "cap_registered s 0 1 (Heap_Table 1)"
    "cap_delegate_source (ks_tables s (Heap_Table 0)) (cap_handle_of (of_nat i + 1) 1) = Some i"
    "revocable s (Heap_Table 0, i) []" "cap_locator_is_null (ce_parent (entry_at s (Heap_Table 0) i))"
    "\<And>k. tx_state (ks_tx s 0 k) = BH_CAP_TX_FREE"
    "\<exists>j s'. cap_delegated (Heap_Table 0) i (Heap_Table 1) j CAP_RIGHT_ENDPOINT_SEND s s' \<and>
       cap_table_delegate_local (Heap_Table 0) (Heap_Table 1) (cap_handle_of (of_nat i + 1) 1) CAP_RIGHT_ENDPOINT_SEND (Some 0) None s
         = (0, s', Some (cap_handle_of (of_nat j + 1) (ce_generation (entry_at s (Heap_Table 1) j) + 1)))"
proof (rule sample_grant)
  fix i s assume A: "i < CAP_ENTRIES" "caps_wf s" "cap_registered s 0 0 (Heap_Table 0)" "cap_registered s 0 1 (Heap_Table 1)"
    "entry_at s (Heap_Table 0) i = cap_grant_entry 0 i CAP_TYPE_ENDPOINT 5 (CAP_RIGHT_ENDPOINT_SEND OR CAP_RIGHT_DELEGATE) zero_entry"
    "ks_tables s (Heap_Table 1) = fresh_table 0 1 1"
    "cap_table_grant 0 (Some (Heap_Table 0)) CAP_TYPE_ENDPOINT 5 (CAP_RIGHT_ENDPOINT_SEND OR CAP_RIGHT_DELEGATE) (Some 0) sample_two
       = (0, s, Some (cap_handle_of (of_nat i + 1) 1))"
  note wf = caps_wfD(1) [OF A(2,3)] caps_wfD(1) [OF A(2,4)]
  have src: "cap_delegate_source (ks_tables s (Heap_Table 0)) (cap_handle_of (of_nat i + 1) 1) = Some i"
    using cap_delegate_source_handle [OF wf(1) A(1), of 1] A(5)
    by (simp add: entry_at_def cap_grant_entry_def zero_entry_def)
  have room: "ida_used (ct_id_allocator (ks_tables s (Heap_Table 1))) \<noteq> {..<64}"
    using lessThan_iff [of 0 "64 :: nat"] unfolding A(6) fresh_table_used by force
  have d: "\<exists>j s'. cap_delegated (Heap_Table 0) i (Heap_Table 1) j CAP_RIGHT_ENDPOINT_SEND s s' \<and>
       cap_table_delegate_local (Heap_Table 0) (Heap_Table 1) (cap_handle_of (of_nat i + 1) 1) CAP_RIGHT_ENDPOINT_SEND (Some 0) None s
         = (0, s', Some (cap_handle_of (of_nat j + 1) (ce_generation (entry_at s (Heap_Table 1) j) + 1)))"
    using cap_delegate_local_ok [OF wf src _ _ _ _ _ room, of None CAP_RIGHT_ENDPOINT_SEND "Some 0"] A(5) send_valid send_rights
    by (auto simp: locator_expects_def right_test rights_subset_and cap_grant_entry_def rights_simps)
  have "revocable s (Heap_Table 0, i) []" "cap_locator_is_null (ce_parent (entry_at s (Heap_Table 0) i))"
    using A(1,5) by (simp_all add: revocable_def cap_grant_entry_def)
  then show thesis using that A(2-4) src d cap_grant_tx [OF A(7)] sample_two_tx by simp
qed

lemma sample_family_tree:
  obtains i j s where "caps_wf s" "cap_registered s 0 0 (Heap_Table 0)" "cap_handle_of (of_nat i + 1) 1 \<noteq> 0"
    "revoke_root (ks_tables s (Heap_Table 0)) (cap_handle_of (of_nat i + 1) 1) = Some i"
    "revocable s (Heap_Table 0, i) [Cap_Node (Heap_Table 1, j) []]" "cap_locator_is_null (ce_parent (entry_at s (Heap_Table 0) i))"
    "\<And>k. tx_state (ks_tx s 0 k) = BH_CAP_TX_FREE"
proof (rule sample_family)
  fix i s assume A: "caps_wf s" "cap_registered s 0 0 (Heap_Table 0)" "cap_registered s 0 1 (Heap_Table 1)"
    "cap_delegate_source (ks_tables s (Heap_Table 0)) (cap_handle_of (of_nat i + 1) 1) = Some i"
    "revocable s (Heap_Table 0, i) []" "cap_locator_is_null (ce_parent (entry_at s (Heap_Table 0) i))"
    "\<And>k. tx_state (ks_tx s 0 k) = BH_CAP_TX_FREE"
    "\<exists>j s'. cap_delegated (Heap_Table 0) i (Heap_Table 1) j CAP_RIGHT_ENDPOINT_SEND s s' \<and>
       cap_table_delegate_local (Heap_Table 0) (Heap_Table 1) (cap_handle_of (of_nat i + 1) 1) CAP_RIGHT_ENDPOINT_SEND (Some 0) None s
         = (0, s', Some (cap_handle_of (of_nat j + 1) (ce_generation (entry_at s (Heap_Table 1) j) + 1)))"
  then obtain j s' where D: "cap_delegated (Heap_Table 0) i (Heap_Table 1) j CAP_RIGHT_ENDPOINT_SEND s s'" by blast
  note wf' = delegated_caps_wf [OF A(1) D]
  have "cap_registered s' 0 0 (Heap_Table 0)" "ks_tx s' = ks_tx s" "ce_parent (entry_at s' (Heap_Table 0) i) = ce_parent (entry_at s (Heap_Table 0) i)"
    using cap_registered_cong [of s' s] D A(2) by (auto simp: cap_delegated_def)
  then show thesis
    using that [OF wf'] delegated_revocable [OF A(1-3) wf' D A(5)] revoke_root_delegated [OF caps_wfD(1) [OF A(1,2)] D A(4)] A(6,7)
    by simp
qed



text \<open>
  C2: What has been delegated can be taken back. A capability that is not derived itself, with any tree
  of capabilities derived from it, is delegated once more, within the core, by a call that succeeds.
  Revoking the source through the very handle used for the delegation then takes the new
  capability away, together with the source and all others derived from it, when the other cores
  acknowledge and only take away; what is outside the tree keeps its authority.
\<close>

theorem delegated_cap_revoked:
  assumes wf: "caps_wf s" "cap_registered s c k src" "cap_registered s c' k' dst"
    and source: "cap_delegate_source (ks_tables s src) h = Some i" "revocable s (src, i) kids"
      "cap_locator_is_null (ce_parent (entry_at s src i))"
    and ok: "cap_table_delegate_local src dst h rights out expected s = (0, s', h')"
    and wait: "\<And>t. linked_outside {} t (wait t)" "\<And>t k. cap_tx_acked (wait t) cpu k"
      "\<And>t p j. ce_state (entry_at t p j) = CAP_STATE_REVOKING \<Longrightarrow> ce_state (entry_at (wait t) p j) \<noteq> CAP_STATE_LIVE"
    and slot: "\<exists>k < CAP_TX_PER_CORE. tx_state (ks_tx s cpu k) \<in> {BH_CAP_TX_FREE, BH_CAP_TX_COMMITTED, BH_CAP_TX_ABORTED}"
  shows "\<exists>j s''. \<not> ce_in_use (entry_at s dst j) \<and> ce_in_use (entry_at s' dst j) \<and> ce_rights (entry_at s' dst j) = rights \<and>
    cap_table_revoke wait pin_wait cpu (Some src) h s' = Some (0, s'') \<and>
    caps_revoked (set ((src, i) # (dst, j) # forest_nodes kids)) s' 0 s''"
proof (cases rule: cap_delegate_local_cases [OF caps_wfD(1) [OF wf(1,2)] caps_wfD(1) [OF wf(1,3)], of h rights out expected])
  case (2 i' j s1)
  have eq: "i' = i" "s1 = s'" using 2(1,8) source(1) ok by auto
  note D = 2(7) [unfolded eq]
  note wf' = delegated_caps_wf [OF wf(1) D]
  have s': "cap_registered s' c k src" "ks_tx s' = ks_tx s" "ce_parent (entry_at s' src i) = ce_parent (entry_at s src i)"
    using cap_registered_cong [of s' s] D wf(2) by (auto simp: cap_delegated_def)
  have root: "h \<noteq> 0" "revoke_root (ks_tables s' src) h = Some i"
    using revoke_root_delegated [OF caps_wfD(1) [OF wf(1,2)] D source(1)] by auto
  have new: "\<not> ce_in_use (entry_at s dst j)" "ce_in_use (entry_at s' dst j)" "ce_rights (entry_at s' dst j) = rights"
    using D by (auto simp: cap_delegated_def cap_child_entry_def)
  have "\<exists>st s''. cap_table_revoke wait pin_wait cpu (Some src) h s' = Some (st, s'') \<and>
      caps_revoked (set (forest_nodes [Cap_Node (src, i) (Cap_Node (dst, j) [] # kids)])) s' st s'' \<and>
      ((\<forall>t k. cap_tx_acked (wait t) cpu k) \<longrightarrow> st = 0) \<and>
      (among_siblings s' (src, i) (Cap_Node (dst, j) [] # kids) par [] [] \<longrightarrow> caps_forest s'' par (ce_first_child (node_at s'' par)) ([] @ []))" for par
    by (rule revoke_subtree_ok [OF wf' s'(1) root delegated_revocable [OF wf wf' D source(2)] _ wait(1) wait(3)])
       (use source(3) s' slot in auto)
  then obtain s'' where "cap_table_revoke wait pin_wait cpu (Some src) h s' = Some (0, s'')"
      "caps_revoked (set (forest_nodes [Cap_Node (src, i) (Cap_Node (dst, j) [] # kids)])) s' 0 s''"
    using wait(2) by blast
  then show ?thesis using new by (intro exI [of _ j] exI [of _ s'']) (simp add: insert_commute)
qed (use ok in auto)

theorem delegated_cap_revoked_witness:
  "\<exists>s h s' h' s''. cap_table_delegate_local (Heap_Table 0) (Heap_Table 1) h CAP_RIGHT_ENDPOINT_SEND (Some 0) None s = (0, s', h') \<and>
     cap_table_revoke sample_wait (\<lambda>t. t) 0 (Some (Heap_Table 0)) h s' = Some (0, s'')"
proof (rule sample_family)
  fix i s assume A: "caps_wf s" "cap_registered s 0 0 (Heap_Table 0)" "cap_registered s 0 1 (Heap_Table 1)"
    "cap_delegate_source (ks_tables s (Heap_Table 0)) (cap_handle_of (of_nat i + 1) 1) = Some i"
    "revocable s (Heap_Table 0, i) []" "cap_locator_is_null (ce_parent (entry_at s (Heap_Table 0) i))"
    "\<And>k. tx_state (ks_tx s 0 k) = BH_CAP_TX_FREE"
    "\<exists>j s'. cap_delegated (Heap_Table 0) i (Heap_Table 1) j CAP_RIGHT_ENDPOINT_SEND s s' \<and>
       cap_table_delegate_local (Heap_Table 0) (Heap_Table 1) (cap_handle_of (of_nat i + 1) 1) CAP_RIGHT_ENDPOINT_SEND (Some 0) None s
         = (0, s', Some (cap_handle_of (of_nat j + 1) (ce_generation (entry_at s (Heap_Table 1) j) + 1)))"
  then obtain s' h' where d: "cap_table_delegate_local (Heap_Table 0) (Heap_Table 1) (cap_handle_of (of_nat i + 1) 1)
      CAP_RIGHT_ENDPOINT_SEND (Some 0) None s = (0, s', h')" by blast
  have "\<exists>k < 16. tx_state (ks_tx s 0 k) \<in> {BH_CAP_TX_FREE, BH_CAP_TX_COMMITTED, BH_CAP_TX_ABORTED}"
    using A(7) by (intro exI [of _ 0]) simp
  from delegated_cap_revoked [OF A(1-6) d sample_wait_ok(1-3) this, of "\<lambda>t. t"] d show ?thesis by blast
qed

section \<open>Revoking a leaf\<close>

definition marked_at :: "kstate \<Rightarrow> cap_node \<Rightarrow> bool" where
  "marked_at s n \<longleftrightarrow> snd n < length (ct_entries (ks_tables s (fst n))) \<and> ce_state (node_at s n) = CAP_STATE_REVOKING"

lemma marked_at_upd: "marked_at s n \<Longrightarrow> marked_at (upd_entry q i (\<lambda>e. e\<lparr>ce_state := CAP_STATE_REVOKING\<rparr>) s) n"
  by (cases n; cases "snd n = i") (auto simp: marked_at_def entry_at_def upd_entry_tables)

lemma revoke_mark_keeps:
  assumes "revoke_mark table root_slot l s = Some r"
  shows "marked_at s n \<longrightarrow> marked_at (snd r) n"
proof (rule revoke_mark.raw_induct [where P = "\<lambda>table root_slot l s r. marked_at s n \<longrightarrow> marked_at (snd r) n", OF _ assms], goal_cases)
  case (1 f table root_slot l s r)
  have step: "marked_at s n \<longrightarrow> marked_at (snd r) n"
    if "f table root_slot l' (upd_entry q i (\<lambda>e. e\<lparr>ce_state := CAP_STATE_REVOKING\<rparr>) s) = Some r" for l' q i
    using 1(1) [OF that] marked_at_upd by blast
  show ?case using 1(2) step by (auto simp: Let_def bind_eq_Some_conv split: if_splits option.splits)
qed

text \<open>
  The walk up from a revoked capability without children does not meet the root any more. It goes on
  with the next sibling of the parent, and marks that one although it is no descendant.
\<close>

lemma revoke_leaf_marks_uncle:
  assumes wf: "caps_wf s" "cap_registered s c k table" and root: "loc_names s l (table, i)"
    and leaf: "cap_locator_is_null (ce_first_child (entry_at s table i))"
    and par: "loc_names s (ce_parent (entry_at s table i)) par" "par \<noteq> (table, i)"
    and uncle: "loc_names s (ce_next_sibling (node_at s par)) u"
    and run: "revoke_mark table i l s = Some (fresh, s')"
  shows "ce_state (node_at s' u) = CAP_STATE_REVOKING"
proof -
  let ?s1 = "upd_entry table i (\<lambda>e. e\<lparr>ce_state := CAP_STATE_REVOKING\<rparr>) s"
  have m1: "caps_marked {(table, i)} s ?s1" using caps_marked_node [of "(table, i)" s] by simp
  note wf1 = caps_marked_wf [OF wf(1) m1] and l1 = caps_marked_linked [OF m1]
  have reg1: "cap_registered ?s1 c k table" using wf(2) caps_marked_registered [OF m1] by simp
  have p1: "loc_names ?s1 (ce_parent (entry_at s table i)) par" "same_links (node_at ?s1 par) (node_at s par)"
    using loc_names_linked [OF wf(1) l1 par(1)] by auto
  have u1: "loc_names ?s1 (ce_next_sibling (node_at s par)) u" using loc_names_linked(1) [OF wf(1) l1 uncle] by simp
  have "revoke_climb ?s1 table i (ce_parent (entry_at s table i)) = Some (ce_next_sibling (node_at s par))"
    using revoke_climb_visit [OF wf1 reg1 p1(1), of i] par(2) uncle p1(2) by (simp add: same_links_def loc_names_def)
  then have "revoke_mark table i (ce_next_sibling (node_at s par)) ?s1 = Some (fresh, s')"
    using run leaf by (simp add: revoke_mark_visit [OF root] Let_def)
  then have "\<exists>l' t. t = upd_entry (fst u) (snd u) (\<lambda>e. e\<lparr>ce_state := CAP_STATE_REVOKING\<rparr>) ?s1 \<and> revoke_mark table i l' t = Some (fresh, s')"
    unfolding revoke_mark_visit [OF u1] by (auto simp: Let_def bind_eq_Some_conv split: if_splits)
  then obtain l' t where t: "t = upd_entry (fst u) (snd u) (\<lambda>e. e\<lparr>ce_state := CAP_STATE_REVOKING\<rparr>) ?s1" "revoke_mark table i l' t = Some (fresh, s')"
    by blast
  have "snd u < length (ct_entries (ks_tables ?s1 (fst u)))" using loc_names_length [OF wf1 u1] .
  then have "marked_at t u" unfolding t(1) by (simp add: marked_at_def entry_at_upd_entry upd_entry_tables)
  then show ?thesis using revoke_mark_keeps [OF t(2)] by (simp add: marked_at_def)
qed

end
