(* ===== verification/Ipc_Endpoint.thy ===== *)
theory Ipc_Endpoint
  imports Cap_Revoke
begin

text \<open>
  Messages over endpoints (src/core/kernel/src/ipc/endpoint_ipc.c, the part that Ipc_Refs leaves):
  closing and cancelling, creation, sending and receiving, with the capabilities and the provenance
  a message carries. The result \<open>None\<close> of an operation stands for one that does not return: a thread
  that nobody wakes, or the revocation of a capability that does not end.
\<close>

unbundle bit_operations_syntax

section \<open>The surroundings of a call\<close>

text \<open>
  What happens outside the calling thread, as far as it changes the state: while it is blocked, while
  a claimed message is being installed without the endpoint's lock, and during the waits of a
  revocation.
\<close>

record ipc_env =
  ie_blocked :: "kstate \<Rightarrow> kstate"
  ie_claimed :: "kstate \<Rightarrow> kstate"
  ie_wait :: "kstate \<Rightarrow> kstate"
  ie_pin_wait :: "kstate \<Rightarrow> kstate"

definition ipc_wait_deadline :: "u64 \<Rightarrow> kstate \<Rightarrow> u64" where
  "ipc_wait_deadline timeout_ticks s =
     (if timeout_ticks = 0 \<or> timeout_ticks = -1 then 0
      else let now = ks_ticks s in if timeout_ticks > -1 - now then -1 else now + timeout_ticks)"

section \<open>Closing and cancelling\<close>

definition ipc_endpoint_owner_close :: "nat \<Rightarrow> tptr option \<Rightarrow> u32 \<Rightarrow> kstate \<Rightarrow> int \<times> kstate" where
  "ipc_endpoint_owner_close cpu table cap_id s =
     (if table = None \<or> cap_id = 0 then (IPC_ERR_INVALID, s)
      else case cap_table_lookup s table cap_id CAP_TYPE_ENDPOINT CAP_RIGHT_ENDPOINT_RECEIVE of
        (_, None) \<Rightarrow> (IPC_ERR_PERM, s)
      | (_, Some e) \<Rightarrow>
        (case endpoint_by_ref s (ce_object_ref e) of
           None \<Rightarrow> (IPC_ERR_INVALID, s)
         | Some (c, k) \<Rightarrow>
           if ep_owner_core (ks_endpoints s c k) \<noteq> cpu then (IPC_ERR_PERM, s)
           else let (wake, s1) =
                  (if ep_state (ks_endpoints s c k) = IPC_ENDPOINT_STATE_READY \<or>
                      ep_state (ks_endpoints s c k) = IPC_ENDPOINT_STATE_CLOSING
                   then let (w, t) = endpoint_fail_waiters c k
                              (upd_endpoint c k (\<lambda>ep. ep\<lparr>ep_state := IPC_ENDPOINT_STATE_CLOSING\<rparr>) s)
                        in (w, upd_endpoint c k (\<lambda>ep. ep\<lparr>ep_state := IPC_ENDPOINT_STATE_CLOSED\<rparr>) t)
                   else ([], s))
                in (IPC_OK, wake_all wake (upd_endpoint c k ipc_endpoint_try_reclaim_locked s1))))"

text \<open>A thread taken off the queue of the senders, or else off that of the receivers.\<close>

definition endpoint_unlink_waiter :: "nat \<Rightarrow> ipc_endpoint \<Rightarrow> bool \<times> ipc_endpoint" where
  "endpoint_unlink_waiter thread ep =
     (case ipc_wait_queue_remove (ep_senders ep) thread of
        (True, q) \<Rightarrow> (True, ep\<lparr>ep_senders := q\<rparr>)
      | (False, _) \<Rightarrow>
        (case ipc_wait_queue_remove (ep_receivers ep) thread of
           (True, q) \<Rightarrow> (True, ep\<lparr>ep_receivers := q\<rparr>)
         | (False, _) \<Rightarrow> (False, ep)))"

definition endpoint_less_queued :: "ipc_endpoint \<Rightarrow> ipc_endpoint" where
  "endpoint_less_queued ep = (if ep_queued_msgs ep > 0 then ep\<lparr>ep_queued_msgs := ep_queued_msgs ep - 1\<rparr> else ep)"

text \<open>The part under the lock that both cancellations share, with the wakeup that follows it.\<close>

definition endpoint_cancel :: "nat \<Rightarrow> nat \<Rightarrow> nat \<Rightarrow> int \<Rightarrow> kstate \<Rightarrow> bool \<times> kstate" where
  "endpoint_cancel c k thread cancel_reason s =
     (case endpoint_unlink_waiter thread (ks_endpoints s c k) of
        (False, _) \<Rightarrow> (False, upd_endpoint c k ipc_endpoint_try_reclaim_locked s)
      | (True, ep) \<Rightarrow>
        let s1 = ipc_set_wakeup (if cancel_reason \<noteq> 0 then cancel_reason else IPC_ERR_CANCELLED) thread
                   (upd_endpoint c k (\<lambda>_. endpoint_less_queued ep) s)
        in (True, sched_wakeup thread (upd_endpoint c k ipc_endpoint_try_reclaim_locked s1)))"

definition ipc_endpoint_cancel_waiter :: "u64 \<Rightarrow> nat option \<Rightarrow> int \<Rightarrow> kstate \<Rightarrow> int \<times> kstate" where
  "ipc_endpoint_cancel_waiter endpoint_obj_ref thread cancel_reason s =
     (case thread of None \<Rightarrow> (IPC_ERR_INVALID, s)
      | Some t \<Rightarrow>
        (case endpoint_by_ref s endpoint_obj_ref of
           None \<Rightarrow> (IPC_ERR_INVALID, s)
         | Some (c, k) \<Rightarrow>
           (case endpoint_cancel c k t cancel_reason s of
              (True, s1) \<Rightarrow> (IPC_OK, s1) | (False, s1) \<Rightarrow> (IPC_ERR_INVALID, s1))))"

definition ipc_endpoint_cancel_all_for_thread :: "nat option \<Rightarrow> int \<Rightarrow> kstate \<Rightarrow> kstate" where
  "ipc_endpoint_cancel_all_for_thread thread cancel_reason s =
     (case thread of None \<Rightarrow> s
      | Some t \<Rightarrow>
        fold (\<lambda>(c, k) s. if \<not> ep_in_use (ks_endpoints s c k) then s else snd (endpoint_cancel c k t cancel_reason s))
          (List.product [0..<MAX_CPUS] [0..<IPC_ENDPOINTS_PER_CORE]) s)"

definition ipc_endpoint_active_count_for_core :: "nat \<Rightarrow> kstate \<Rightarrow> u32" where
  "ipc_endpoint_active_count_for_core core_id s =
     (if core_id \<ge> MAX_CPUS then 0
      else fold (\<lambda>i count. if ep_in_use (ks_endpoints s core_id i) then count + 1 else count) [0..<IPC_ENDPOINTS_PER_CORE] 0)"

section \<open>Creation\<close>

definition endpoint_fresh :: "nat \<Rightarrow> ipc_endpoint \<Rightarrow> ipc_endpoint" where
  "endpoint_fresh owner_core ep =
     (ipc_endpoint_clear_msg_locked (ep\<lparr>ep_in_use := True, ep_state := IPC_ENDPOINT_STATE_READY,
        ep_generation := (if ep_generation ep + 1 = 0 then 1 else ep_generation ep + 1),
        ep_owner_core := owner_core, ep_send_cap_refs := 0, ep_recv_cap_refs := 0, ep_active_claims := 0,
        ep_queued_msgs := 0, ep_dropped_msgs := 0, ep_timeouts := 0\<rparr>))
     \<lparr>ep_senders := [], ep_receivers := []\<rparr>"

definition endpoint_drop :: "nat \<Rightarrow> nat \<Rightarrow> kstate \<Rightarrow> kstate" where
  "endpoint_drop c k = upd_endpoint c k (\<lambda>ep. ep\<lparr>ep_in_use := False, ep_state := IPC_ENDPOINT_STATE_FREE\<rparr>)"

text \<open>The results are the status, the two out-parameters and the state.\<close>

definition ipc_endpoint_create ::
    "ipc_env \<Rightarrow> nat \<Rightarrow> tptr option \<Rightarrow> u32 option \<Rightarrow> u32 option \<Rightarrow> kstate \<Rightarrow> (int \<times> u32 option \<times> u32 option \<times> kstate) option" where
  "ipc_endpoint_create env cpu table out_send_cap out_recv_cap s =
     (case (table, out_send_cap, out_recv_cap) of
        (Some p, Some _, Some _) \<Rightarrow>
          if cpu \<ge> MAX_CPUS \<or> unat (ct_owner_core (ks_tables s p)) \<noteq> cpu
          then Some (IPC_ERR_PERM, out_send_cap, out_recv_cap, s)
          else (case find (\<lambda>i. \<not> ep_in_use (ks_endpoints s cpu i)) [0..<IPC_ENDPOINTS_PER_CORE] of
                  None \<Rightarrow> Some (IPC_ERR_NO_SPACE, out_send_cap, out_recv_cap, s)
                | Some i \<Rightarrow>
                  let s1 = upd_endpoint cpu i (endpoint_fresh cpu) s;
                      obj_ref = endpoint_make_ref (of_nat cpu) (of_nat i) (ep_generation (ks_endpoints s1 cpu i))
                  in case cap_table_grant cpu table CAP_TYPE_ENDPOINT obj_ref (CAP_RIGHT_ENDPOINT_SEND OR CAP_RIGHT_DELEGATE) out_send_cap s1 of
                    (st1, s2, send_cap) \<Rightarrow>
                      if st1 \<noteq> 0 then Some (IPC_ERR_NO_SPACE, send_cap, out_recv_cap, endpoint_drop cpu i s2)
                      else (case cap_table_grant cpu table CAP_TYPE_ENDPOINT obj_ref (CAP_RIGHT_ENDPOINT_RECEIVE OR CAP_RIGHT_DELEGATE) out_recv_cap s2 of
                        (st2, s3, recv_cap) \<Rightarrow>
                          if st2 \<noteq> 0
                          then map_option (\<lambda>(_, s4). (IPC_ERR_NO_SPACE, send_cap, recv_cap, endpoint_drop cpu i s4))
                                 (cap_table_revoke (ie_wait env) (ie_pin_wait env) cpu table (the send_cap) s3)
                          else Some (IPC_OK, send_cap, recv_cap, s3)))
      | _ \<Rightarrow> Some (IPC_ERR_INVALID, out_send_cap, out_recv_cap, s))"

section \<open>Waiting\<close>

datatype ipc_side = SENDERS | RECEIVERS

primrec ep_waiters :: "ipc_side \<Rightarrow> ipc_endpoint \<Rightarrow> nat list" where
  "ep_waiters SENDERS ep = ep_senders ep"
| "ep_waiters RECEIVERS ep = ep_receivers ep"

primrec ep_set_waiters :: "ipc_side \<Rightarrow> nat list \<Rightarrow> ipc_endpoint \<Rightarrow> ipc_endpoint" where
  "ep_set_waiters SENDERS q ep = ep\<lparr>ep_senders := q\<rparr>"
| "ep_set_waiters RECEIVERS q ep = ep\<lparr>ep_receivers := q\<rparr>"

text \<open>
  The wait of the three loops: a return with a status, or \<open>None\<close> and another round.
\<close>

definition ipc_enqueue_self :: "ipc_side \<Rightarrow> nat \<Rightarrow> nat \<Rightarrow> nat \<Rightarrow> u64 \<Rightarrow> u64 \<Rightarrow> kstate \<Rightarrow> kstate" where
  "ipc_enqueue_self side c k cur timeout_ticks deadline s =
     upd_endpoint c k (\<lambda>ep. (ep_set_waiters side (sched_wait_queue_enqueue (ep_waiters side ep) cur) ep)
         \<lparr>ep_queued_msgs := ep_queued_msgs ep + 1\<rparr>)
       (upd_thread cur (\<lambda>th. th\<lparr>th_ipc_wakeup_reason := IPC_OK,
          th_ipc_deadline_ticks := (if timeout_ticks \<noteq> -1 then deadline else 0)\<rparr>) s)"

definition sched_block :: "(kstate \<Rightarrow> kstate) \<Rightarrow> nat \<Rightarrow> kstate \<Rightarrow> kstate" where
  "sched_block blocked cur s = blocked (upd_thread cur (\<lambda>th. th\<lparr>th_blocked := True\<rparr>) s)"

definition ipc_after_block :: "ipc_side \<Rightarrow> nat \<Rightarrow> nat \<Rightarrow> nat \<Rightarrow> kstate \<Rightarrow> int option \<times> kstate" where
  "ipc_after_block side c k cur s =
     (let reason = th_ipc_wakeup_reason (ks_threads s cur); ep = ks_endpoints s c k
      in if reason \<noteq> IPC_OK
         then let (was_queued, q) = ipc_wait_queue_remove (ep_waiters side ep) cur;
                  ep1 = ep_set_waiters side q ep;
                  ep2 = (if reason = IPC_ERR_TIMEOUT
                         then let ep' = ep1\<lparr>ep_timeouts := ep_timeouts ep1 + 1\<rparr>
                              in if was_queued \<or> ep_queued_msgs ep' > 0
                                 then ep'\<lparr>ep_queued_msgs := ep_queued_msgs ep' - 1\<rparr> else ep'
                         else ep1)
              in (Some reason, upd_endpoint c k (\<lambda>_. ipc_endpoint_try_reclaim_locked ep2) s)
         else (None, upd_endpoint c k endpoint_less_queued s))"

definition ipc_wait_turn ::
    "ipc_env \<Rightarrow> ipc_side \<Rightarrow> nat \<Rightarrow> nat \<Rightarrow> nat option \<Rightarrow> u64 \<Rightarrow> u64 \<Rightarrow> kstate \<Rightarrow> int option \<times> kstate" where
  "ipc_wait_turn env side c k cur timeout_ticks deadline s =
     (if timeout_ticks = 0
      then (Some IPC_ERR_WOULD_BLOCK,
            if side = SENDERS then upd_endpoint c k (\<lambda>ep. ep\<lparr>ep_dropped_msgs := ep_dropped_msgs ep + 1\<rparr>) s else s)
      else if timeout_ticks \<noteq> -1 \<and> ks_ticks s \<ge> deadline
      then (Some IPC_ERR_TIMEOUT, upd_endpoint c k (\<lambda>ep. ep\<lparr>ep_timeouts := ep_timeouts ep + 1\<rparr>) s)
      else case cur of
        None \<Rightarrow> (Some IPC_ERR_WOULD_BLOCK, s)
      | Some t \<Rightarrow> ipc_after_block side c k t
                    (sched_block (ie_blocked env) t (ipc_enqueue_self side c k t timeout_ticks deadline s)))"

definition ipc_wake_one :: "ipc_side \<Rightarrow> nat \<Rightarrow> nat \<Rightarrow> kstate \<Rightarrow> kstate" where
  "ipc_wake_one side c k s =
     (case sched_wait_queue_dequeue s (ep_waiters side (ks_endpoints s c k)) of
        (None, q) \<Rightarrow> upd_endpoint c k (ep_set_waiters side q) s
      | (Some t, q) \<Rightarrow> sched_wakeup t (ipc_set_wakeup IPC_OK t (upd_endpoint c k (ep_set_waiters side q) s)))"

section \<open>Sending\<close>

text \<open>The variables of a send that its loop reads and does not change.\<close>

record ipc_send =
  sn_table :: tptr
  sn_send_cap :: u32
  sn_object_ref :: u64
  sn_core :: nat
  sn_slot :: nat
  sn_payload :: "u8 list"
  sn_timeout_ticks :: u64
  sn_deadline :: u64
  sn_cap_to_send :: u32
  sn_cap_send_rights :: u64
  sn_transferred_type :: cap_type
  sn_reply_cap_to_send :: u32
  sn_reply_cap_rights :: u64
  sn_provenance :: "ipc_provenance option"

definition ipc_capture :: "nat \<Rightarrow> tptr \<Rightarrow> u32 \<Rightarrow> u64 \<Rightarrow> kstate \<Rightarrow> bh_cap_locator option" where
  "ipc_capture cpu table cap rights s =
     (if cap = 0 then Some zero_locator
      else case bh_cap_transfer_capture cpu (Some table) cap rights (Some zero_locator) s of
             (st, l) \<Rightarrow> if st = K_OK then l else None)"

text \<open>
  The checks before the loop. The right to send is looked up, the lengths are compared, and both
  capabilities of the message must be such that they can be captured.
\<close>

definition ipc_send_prepare ::
    "nat \<Rightarrow> tptr option \<Rightarrow> u32 \<Rightarrow> u8 list option \<Rightarrow> u64 \<Rightarrow> u32 \<Rightarrow> u64 \<Rightarrow> ipc_provenance option \<Rightarrow> kstate \<Rightarrow> int + ipc_send" where
  "ipc_send_prepare cpu table send_cap payload timeout_ticks cap_to_send cap_send_rights provenance s =
     (case (table, payload) of
        (Some p, Some bytes) \<Rightarrow>
          if bytes = [] then Inl IPC_ERR_INVALID
          else (case cap_table_lookup s table send_cap CAP_TYPE_ENDPOINT CAP_RIGHT_ENDPOINT_SEND of
            (_, None) \<Rightarrow> Inl IPC_ERR_PERM
          | (_, Some e) \<Rightarrow>
            (case endpoint_by_ref s (ce_object_ref e) of
               None \<Rightarrow> Inl IPC_ERR_INVALID
             | Some (c, k) \<Rightarrow>
               if length bytes > IPC_PAYLOAD_MAX then Inl IPC_ERR_INVALID
               else let reply_cap = (case provenance of None \<Rightarrow> 0 | Some v \<Rightarrow> pv_reply_cap_to_send v);
                        reply_rights0 = (case provenance of None \<Rightarrow> 0 | Some v \<Rightarrow> pv_reply_cap_send_rights v);
                        (ty, rights) =
                          (if cap_to_send = 0 then (CAP_TYPE_NONE, cap_send_rights)
                           else case cap_table_lookup s table cap_to_send CAP_TYPE_NONE cap_send_rights of
                                  (_, None) \<Rightarrow> (CAP_TYPE_NONE, cap_send_rights)
                                | (_, Some x) \<Rightarrow> (ce_type x, if cap_send_rights = 0 then ce_rights x else cap_send_rights));
                        reply_rights = (if reply_cap \<noteq> 0 \<and> reply_rights0 = 0 then CAP_RIGHT_ENDPOINT_SEND else reply_rights0)
               in if ipc_capture cpu p cap_to_send rights s = None then Inl IPC_ERR_CAP_TRANSFER_NOT_ALLOWED
                  else if reply_cap \<noteq> 0 \<and>
                          (reply_rights AND CAP_RIGHT_ENDPOINT_SEND = 0 \<or>
                           reply_rights AND (CAP_RIGHT_ENDPOINT_RECEIVE OR CAP_RIGHT_DELEGATE) \<noteq> 0 \<or>
                           snd (cap_table_lookup s table reply_cap CAP_TYPE_ENDPOINT CAP_RIGHT_ENDPOINT_SEND) = None)
                  then Inl IPC_ERR_CAP_TRANSFER_NOT_ALLOWED
                  else if ipc_capture cpu p reply_cap reply_rights s = None then Inl IPC_ERR_CAP_TRANSFER_NOT_ALLOWED
                  else Inr \<lparr>sn_table = p, sn_send_cap = send_cap, sn_object_ref = ce_object_ref e, sn_core = c, sn_slot = k,
                             sn_payload = bytes, sn_timeout_ticks = timeout_ticks, sn_deadline = ipc_wait_deadline timeout_ticks s,
                             sn_cap_to_send = cap_to_send, sn_cap_send_rights = rights, sn_transferred_type = ty,
                             sn_reply_cap_to_send = reply_cap, sn_reply_cap_rights = reply_rights, sn_provenance = provenance\<rparr>))
      | _ \<Rightarrow> Inl IPC_ERR_INVALID)"

text \<open>The rechecks that open every round: a status that ends the call, or the two captured sources.\<close>

definition ipc_send_recheck :: "nat \<Rightarrow> ipc_send \<Rightarrow> kstate \<Rightarrow> int + bh_cap_locator \<times> bh_cap_locator" where
  "ipc_send_recheck cpu q s =
     (case cap_table_lookup s (Some (sn_table q)) (sn_send_cap q) CAP_TYPE_ENDPOINT CAP_RIGHT_ENDPOINT_SEND of
        (_, None) \<Rightarrow> Inl IPC_ERR_PERM
      | (_, Some e) \<Rightarrow>
        if ce_object_ref e \<noteq> sn_object_ref q then Inl IPC_ERR_PERM
        else case ipc_capture cpu (sn_table q) (sn_cap_to_send q) (sn_cap_send_rights q) s of
               None \<Rightarrow> Inl IPC_ERR_CAP_TRANSFER_NOT_ALLOWED
             | Some source \<Rightarrow>
               (case ipc_capture cpu (sn_table q) (sn_reply_cap_to_send q) (sn_reply_cap_rights q) s of
                  None \<Rightarrow> Inl IPC_ERR_CAP_TRANSFER_NOT_ALLOWED
                | Some reply_source \<Rightarrow>
                  if ep_state (ks_endpoints s (sn_core q) (sn_slot q)) \<noteq> IPC_ENDPOINT_STATE_READY then Inl IPC_ERR_CLOSED
                  else Inr (source, reply_source)))"

definition ipc_store_msg :: "ipc_send \<Rightarrow> bh_cap_locator \<Rightarrow> bh_cap_locator \<Rightarrow> ipc_endpoint \<Rightarrow> ipc_endpoint" where
  "ipc_store_msg q source reply_source ep =
     ep\<lparr>ep_msg := \<lparr>msg_len = length (sn_payload q),
           msg_payload = sn_payload q @ drop (length (sn_payload q)) (msg_payload (ep_msg ep)),
           msg_cap_transfer_id = sn_cap_to_send q,
           msg_cap_transfer_rights = (if sn_cap_to_send q \<noteq> 0 then sn_cap_send_rights q else 0)\<rparr>,
        ep_cap_transfer_source := (if sn_cap_to_send q \<noteq> 0 then source else zero_locator),
        ep_reply_cap_transfer_id := sn_reply_cap_to_send q,
        ep_reply_cap_transfer_rights := (if sn_reply_cap_to_send q \<noteq> 0 then sn_reply_cap_rights q else 0),
        ep_reply_cap_transfer_source := (if sn_reply_cap_to_send q \<noteq> 0 then reply_source else zero_locator),
        ep_provenance :=
          (case sn_provenance q of
             Some v \<Rightarrow> if pv_has_provenance v
               then v\<lparr>pv_delivery_generation := ucast (ep_generation ep), pv_cap_type := sn_transferred_type q,
                      pv_cap_rights := sn_cap_send_rights q, pv_has_provenance := True\<rparr>
               else zero_provenance\<lparr>pv_delivery_generation := ucast (ep_generation ep), pv_cap_type := sn_transferred_type q,
                      pv_cap_rights := sn_cap_send_rights q\<rparr>
           | None \<Rightarrow> zero_provenance\<lparr>pv_delivery_generation := ucast (ep_generation ep), pv_cap_type := sn_transferred_type q,
                      pv_cap_rights := sn_cap_send_rights q\<rparr>),
        ep_has_msg := 1\<rparr>"

partial_function (option) ipc_send_loop :: "ipc_env \<Rightarrow> nat \<Rightarrow> nat option \<Rightarrow> ipc_send \<Rightarrow> kstate \<Rightarrow> (int \<times> kstate) option" where
  "ipc_send_loop env cpu cur q s =
     (case ipc_send_recheck cpu q s of
        Inl st \<Rightarrow> Some (st, s)
      | Inr (source, reply_source) \<Rightarrow>
        if ep_has_msg (ks_endpoints s (sn_core q) (sn_slot q)) = 0
        then Some (IPC_OK, ipc_wake_one RECEIVERS (sn_core q) (sn_slot q)
               (upd_endpoint (sn_core q) (sn_slot q) (ipc_store_msg q source reply_source) s))
        else case ipc_wait_turn env SENDERS (sn_core q) (sn_slot q) cur (sn_timeout_ticks q) (sn_deadline q) s of
               (Some st, s1) \<Rightarrow> Some (st, s1)
             | (None, s1) \<Rightarrow> ipc_send_loop env cpu cur q s1)"

definition ipc_endpoint_send_ex ::
    "ipc_env \<Rightarrow> nat \<Rightarrow> nat option \<Rightarrow> tptr option \<Rightarrow> u32 \<Rightarrow> u8 list option \<Rightarrow> u64 \<Rightarrow> u32 \<Rightarrow> u64 \<Rightarrow> ipc_provenance option \<Rightarrow> kstate \<Rightarrow>
     (int \<times> kstate) option" where
  "ipc_endpoint_send_ex env cpu cur table send_cap payload timeout_ticks cap_to_send cap_send_rights provenance s =
     (case ipc_send_prepare cpu table send_cap payload timeout_ticks cap_to_send cap_send_rights provenance s of
        Inl st \<Rightarrow> Some (st, s)
      | Inr q \<Rightarrow> ipc_send_loop env cpu cur q s)"

definition ipc_endpoint_send ::
    "ipc_env \<Rightarrow> nat \<Rightarrow> nat option \<Rightarrow> tptr option \<Rightarrow> u32 \<Rightarrow> u8 list option \<Rightarrow> u64 \<Rightarrow> u32 \<Rightarrow> u64 \<Rightarrow> kstate \<Rightarrow> (int \<times> kstate) option" where
  "ipc_endpoint_send env cpu cur table send_cap payload timeout_ticks cap_to_send cap_send_rights =
     ipc_endpoint_send_ex env cpu cur table send_cap payload timeout_ticks cap_to_send cap_send_rights None"

section \<open>Receiving\<close>

record ipc_recv =
  rv_table :: tptr
  rv_recv_cap :: u32
  rv_object_ref :: u64
  rv_core :: nat
  rv_slot :: nat
  rv_timeout_ticks :: u64
  rv_deadline :: u64

definition ipc_recv_prepare :: "tptr \<Rightarrow> u32 \<Rightarrow> u64 \<Rightarrow> kstate \<Rightarrow> int + ipc_recv" where
  "ipc_recv_prepare p recv_cap timeout_ticks s =
     (case cap_table_lookup s (Some p) recv_cap CAP_TYPE_ENDPOINT CAP_RIGHT_ENDPOINT_RECEIVE of
        (_, None) \<Rightarrow> Inl IPC_ERR_PERM
      | (_, Some e) \<Rightarrow>
        (case endpoint_by_ref s (ce_object_ref e) of
           None \<Rightarrow> Inl IPC_ERR_INVALID
         | Some (c, k) \<Rightarrow>
           Inr \<lparr>rv_table = p, rv_recv_cap = recv_cap, rv_object_ref = ce_object_ref e, rv_core = c, rv_slot = k,
                rv_timeout_ticks = timeout_ticks, rv_deadline = ipc_wait_deadline timeout_ticks s\<rparr>))"

definition ipc_recv_recheck :: "ipc_recv \<Rightarrow> kstate \<Rightarrow> int option" where
  "ipc_recv_recheck q s =
     (case cap_table_lookup s (Some (rv_table q)) (rv_recv_cap q) CAP_TYPE_ENDPOINT CAP_RIGHT_ENDPOINT_RECEIVE of
        (_, None) \<Rightarrow> Some IPC_ERR_PERM
      | (_, Some e) \<Rightarrow>
        if ce_object_ref e \<noteq> rv_object_ref q then Some IPC_ERR_PERM
        else if ep_state (ks_endpoints s (rv_core q) (rv_slot q)) \<noteq> IPC_ENDPOINT_STATE_READY then Some IPC_ERR_CLOSED
        else None)"

text \<open>The loop ends with a status, or with \<open>None\<close> at a queued message.\<close>

partial_function (option) ipc_recv_loop :: "ipc_env \<Rightarrow> nat option \<Rightarrow> ipc_recv \<Rightarrow> kstate \<Rightarrow> (int option \<times> kstate) option" where
  "ipc_recv_loop env cur q s =
     (case ipc_recv_recheck q s of
        Some st \<Rightarrow> Some (Some st, s)
      | None \<Rightarrow>
        if ep_has_msg (ks_endpoints s (rv_core q) (rv_slot q)) = 1 then Some (None, s)
        else case ipc_wait_turn env RECEIVERS (rv_core q) (rv_slot q) cur (rv_timeout_ticks q) (rv_deadline q) s of
               (Some st, s1) \<Rightarrow> Some (Some st, s1)
             | (None, s1) \<Rightarrow> ipc_recv_loop env cur q s1)"

definition ipc_claim :: "ipc_endpoint \<Rightarrow> ipc_endpoint" where
  "ipc_claim ep = ep\<lparr>ep_has_msg := 2, ep_active_claims := ep_active_claims ep + 1\<rparr>"

definition ipc_unclaim :: "ipc_endpoint \<Rightarrow> ipc_endpoint" where
  "ipc_unclaim ep = (if ep_active_claims ep > 0 then ep\<lparr>ep_active_claims := ep_active_claims ep - 1\<rparr> else ep)"

definition ipc_revoke_if :: "ipc_env \<Rightarrow> nat \<Rightarrow> tptr \<Rightarrow> u32 \<Rightarrow> kstate \<Rightarrow> kstate option" where
  "ipc_revoke_if env cpu table cap s =
     (if cap = 0 then Some s else map_option snd (cap_table_revoke (ie_wait env) (ie_pin_wait env) cpu (Some table) cap s))"

text \<open>
  After the installation: the claim is given back, and unless the endpoint was closed meanwhile or
  the installation failed the message stays to be copied. \<open>Inl\<close> is a return with a status.
\<close>

definition ipc_recv_settle ::
    "ipc_env \<Rightarrow> nat \<Rightarrow> ipc_recv \<Rightarrow> kstatus \<Rightarrow> u32 list \<Rightarrow> kstate \<Rightarrow> ((int + unit) \<times> kstate) option" where
  "ipc_recv_settle env cpu q install_ret caps s =
     (let c = rv_core q; k = rv_slot q;
          s1 = upd_endpoint c k ipc_unclaim s
      in if ep_state (ks_endpoints s1 c k) \<noteq> IPC_ENDPOINT_STATE_READY
         then map_option (\<lambda>t. (Inl IPC_ERR_CLOSED, t))
                (fold (\<lambda>cap r. Option.bind r (ipc_revoke_if env cpu (rv_table q) cap)) caps
                   (Some (upd_endpoint c k (\<lambda>ep. ipc_endpoint_try_reclaim_locked (ipc_endpoint_clear_msg_locked ep)) s1)))
         else if install_ret = K_ERR_NO_RESOURCES
         then Some (Inl IPC_ERR_CAP_INSTALL_FAILED, ipc_wake_one RECEIVERS c k (upd_endpoint c k (\<lambda>ep. ep\<lparr>ep_has_msg := 1\<rparr>) s1))
         else if install_ret \<noteq> K_OK
         then Some (Inl IPC_ERR_CAP_INSTALL_FAILED, ipc_wake_one SENDERS c k (upd_endpoint c k ipc_endpoint_clear_msg_locked s1))
         else Some (Inr (), s1))"

definition ipc_recv_done :: "ipc_recv \<Rightarrow> kstate \<Rightarrow> kstate" where
  "ipc_recv_done q s =
     ipc_wake_one SENDERS (rv_core q) (rv_slot q) (upd_endpoint (rv_core q) (rv_slot q) ipc_endpoint_clear_msg_locked s)"

definition ipc_msg_bytes :: "ipc_message \<Rightarrow> u8 list" where
  "ipc_msg_bytes m = take (msg_len m) (msg_payload m)"

text \<open>The results are the status, the contents of the three out-parameters and the state.\<close>

type_synonym ipc_recv_result = "int \<times> u8 list option \<times> nat option \<times> u32 option \<times> kstate"

definition ipc_endpoint_receive ::
    "ipc_env \<Rightarrow> nat \<Rightarrow> nat option \<Rightarrow> tptr option \<Rightarrow> u32 \<Rightarrow> u8 list option \<Rightarrow> nat \<Rightarrow> nat option \<Rightarrow> u64 \<Rightarrow> u32 option \<Rightarrow> kstate \<Rightarrow>
     ipc_recv_result option" where
  "ipc_endpoint_receive env cpu cur table recv_cap out_payload capacity out_len timeout_ticks out_cap s =
     (case (table, out_payload, out_len) of
        (Some p, Some buf, Some _) \<Rightarrow>
          if capacity = 0 then Some (IPC_ERR_INVALID, out_payload, out_len, out_cap, s)
          else let fail = (\<lambda>st t. Some (st, Some buf, Some 0, map_option (\<lambda>_. 0) out_cap, t))
          in (case ipc_recv_prepare p recv_cap timeout_ticks s of
                Inl st \<Rightarrow> fail st s
              | Inr q \<Rightarrow>
                Option.bind (ipc_recv_loop env cur q s) (\<lambda>(r, s1).
                  case r of Some st \<Rightarrow> fail st s1
                  | None \<Rightarrow>
                    let ep = ks_endpoints s1 (rv_core q) (rv_slot q)
                    in if capacity < msg_len (ep_msg ep) then fail IPC_ERR_NO_SPACE s1
                       else let s2 = upd_endpoint (rv_core q) (rv_slot q) ipc_claim s1;
                                (install_ret, s3, cap) =
                                  (if msg_cap_transfer_id (ep_msg ep) \<noteq> 0 \<and> out_cap \<noteq> None
                                   then bh_cap_transfer_install cpu (Some (ep_cap_transfer_source ep)) (Some p)
                                          (msg_cap_transfer_rights (ep_msg ep)) (Some 0) s2
                                   else (K_OK, s2, Some 0))
                       in Option.bind (ipc_recv_settle env cpu q install_ret [the cap] (ie_claimed env s3)) (\<lambda>(r, s4).
                            case r of Inl st \<Rightarrow> fail st s4
                            | Inr _ \<Rightarrow>
                              let m = ep_msg (ks_endpoints s4 (rv_core q) (rv_slot q))
                              in Some (IPC_OK, Some (ipc_msg_bytes m @ drop (msg_len m) buf), Some (msg_len m),
                                       map_option (\<lambda>_. the cap) out_cap, ipc_recv_done q s4))))
      | _ \<Rightarrow> Some (IPC_ERR_INVALID, out_payload, out_len, out_cap, s))"

section \<open>The receive envelope\<close>

definition BH_IPC_ENVELOPE_F_SENDER_PID :: u64 where "BH_IPC_ENVELOPE_F_SENDER_PID = 1"
definition BH_IPC_ENVELOPE_F_SENDER_PROCESS_OBJECT :: u64 where "BH_IPC_ENVELOPE_F_SENDER_PROCESS_OBJECT = 2"
definition BH_IPC_ENVELOPE_F_SENDER_CSPACE :: u64 where "BH_IPC_ENVELOPE_F_SENDER_CSPACE = 4"
definition BH_IPC_ENVELOPE_F_SENDER_OWNER_CORE :: u64 where "BH_IPC_ENVELOPE_F_SENDER_OWNER_CORE = 8"
definition BH_IPC_ENVELOPE_F_BOOT_SESSION :: u64 where "BH_IPC_ENVELOPE_F_BOOT_SESSION = 16"
definition BH_IPC_ENVELOPE_F_SERVICE_INCARNATION :: u64 where "BH_IPC_ENVELOPE_F_SERVICE_INCARNATION = 32"
definition BH_IPC_ENVELOPE_F_AUTHORITY_CAP :: u64 where "BH_IPC_ENVELOPE_F_AUTHORITY_CAP = 64"
definition BH_IPC_ENVELOPE_F_REPLY_SEND_CAP :: u64 where "BH_IPC_ENVELOPE_F_REPLY_SEND_CAP = 128"
definition BH_IPC_ENVELOPE_F_DELIVERY_GENERATION :: u64 where "BH_IPC_ENVELOPE_F_DELIVERY_GENERATION = 512"

lemmas envelope_flags = BH_IPC_ENVELOPE_F_SENDER_PID_def BH_IPC_ENVELOPE_F_SENDER_PROCESS_OBJECT_def
  BH_IPC_ENVELOPE_F_SENDER_CSPACE_def BH_IPC_ENVELOPE_F_SENDER_OWNER_CORE_def BH_IPC_ENVELOPE_F_BOOT_SESSION_def
  BH_IPC_ENVELOPE_F_SERVICE_INCARNATION_def BH_IPC_ENVELOPE_F_AUTHORITY_CAP_def BH_IPC_ENVELOPE_F_REPLY_SEND_CAP_def
  BH_IPC_ENVELOPE_F_DELIVERY_GENERATION_def

text \<open>\<open>authority_object_type\<close> is the capability's type as the code stores it, cast to a word; the model keeps the type.\<close>

record bh_ipc_receive_envelope_v1 =
  ev_version :: u32
  ev_struct_size :: u32
  ev_valid_fields :: u64
  ev_sender_pid :: u64
  ev_sender_process_object_id :: u64
  ev_boot_session_id :: u64
  ev_service_incarnation_id :: u64
  ev_sender_cspace_id :: u32
  ev_sender_owner_core :: u32
  ev_authority_cap :: u32
  ev_reply_send_cap :: u32
  ev_authority_object_type :: cap_type
  ev_authority_rights :: u64
  ev_message_id :: u64
  ev_delivery_generation :: u64

definition envelope_init :: bh_ipc_receive_envelope_v1 where
  "envelope_init = \<lparr>ev_version = 1, ev_struct_size = 96, ev_valid_fields = 0, ev_sender_pid = 0,
     ev_sender_process_object_id = 0, ev_boot_session_id = 0, ev_service_incarnation_id = 0, ev_sender_cspace_id = 0,
     ev_sender_owner_core = 0, ev_authority_cap = 0, ev_reply_send_cap = 0, ev_authority_object_type = CAP_TYPE_NONE,
     ev_authority_rights = 0, ev_message_id = 0, ev_delivery_generation = 0\<rparr>"

definition envelope_flag :: "bool \<Rightarrow> u64 \<Rightarrow> u64" where
  "envelope_flag b f = (if b then f else 0)"

text \<open>The sender, then the capabilities, as two-slot or as single-slot message.\<close>

definition envelope_sender :: "ipc_provenance \<Rightarrow> bh_ipc_receive_envelope_v1 \<Rightarrow> bh_ipc_receive_envelope_v1" where
  "envelope_sender prov ev =
     ev\<lparr>ev_sender_pid := (if pv_sender_pid prov \<noteq> 0 then pv_sender_pid prov else ev_sender_pid ev),
        ev_sender_process_object_id :=
          (if pv_sender_process_object_id prov \<noteq> 0 then pv_sender_process_object_id prov else ev_sender_process_object_id ev),
        ev_sender_cspace_id := (if pv_sender_cspace_id prov \<noteq> 0 then pv_sender_cspace_id prov else ev_sender_cspace_id ev),
        ev_sender_owner_core := pv_sender_owner_core prov,
        ev_delivery_generation := pv_delivery_generation prov,
        ev_boot_session_id := pv_boot_session_id prov,
        ev_service_incarnation_id := pv_service_incarnation_id prov,
        ev_valid_fields :=
          envelope_flag (pv_sender_pid prov \<noteq> 0) BH_IPC_ENVELOPE_F_SENDER_PID OR
          envelope_flag (pv_sender_process_object_id prov \<noteq> 0) BH_IPC_ENVELOPE_F_SENDER_PROCESS_OBJECT OR
          envelope_flag (pv_sender_cspace_id prov \<noteq> 0) BH_IPC_ENVELOPE_F_SENDER_CSPACE OR
          BH_IPC_ENVELOPE_F_SENDER_OWNER_CORE OR BH_IPC_ENVELOPE_F_DELIVERY_GENERATION OR
          envelope_flag (pv_boot_session_id prov \<noteq> 0) BH_IPC_ENVELOPE_F_BOOT_SESSION OR
          envelope_flag (pv_service_incarnation_id prov \<noteq> 0) BH_IPC_ENVELOPE_F_SERVICE_INCARNATION\<rparr>"

definition envelope_authority :: "ipc_provenance \<Rightarrow> u64 \<Rightarrow> u32 \<Rightarrow> bh_ipc_receive_envelope_v1 \<Rightarrow> bh_ipc_receive_envelope_v1" where
  "envelope_authority prov transfer_rights cap ev =
     (if cap \<noteq> 0
      then ev\<lparr>ev_authority_cap := cap, ev_authority_object_type := pv_cap_type prov, ev_authority_rights := transfer_rights,
              ev_valid_fields := ev_valid_fields ev OR BH_IPC_ENVELOPE_F_AUTHORITY_CAP\<rparr>
      else ev\<lparr>ev_authority_cap := 0, ev_authority_object_type := CAP_TYPE_NONE, ev_authority_rights := 0\<rparr>)"

definition envelope_caps ::
    "ipc_provenance \<Rightarrow> u32 \<Rightarrow> u64 \<Rightarrow> u32 \<Rightarrow> u32 \<Rightarrow> bh_ipc_receive_envelope_v1 \<Rightarrow> bh_ipc_receive_envelope_v1" where
  "envelope_caps prov reply_id transfer_rights cap reply_cap ev =
     (if reply_id \<noteq> 0
      then envelope_authority prov transfer_rights cap
             (ev\<lparr>ev_reply_send_cap := reply_cap,
                 ev_valid_fields := ev_valid_fields ev OR envelope_flag (reply_cap \<noteq> 0) BH_IPC_ENVELOPE_F_REPLY_SEND_CAP\<rparr>)
      else if cap \<noteq> 0
      then if pv_cap_type prov = CAP_TYPE_ENDPOINT \<and> pv_cap_rights prov AND CAP_RIGHT_ENDPOINT_SEND \<noteq> 0 \<and>
              pv_cap_rights prov AND CAP_RIGHT_ENDPOINT_RECEIVE = 0
           then ev\<lparr>ev_reply_send_cap := cap, ev_authority_cap := 0, ev_authority_object_type := CAP_TYPE_NONE,
                   ev_authority_rights := 0, ev_valid_fields := ev_valid_fields ev OR BH_IPC_ENVELOPE_F_REPLY_SEND_CAP\<rparr>
           else envelope_authority prov transfer_rights cap (ev\<lparr>ev_reply_send_cap := 0\<rparr>)
      else ev\<lparr>ev_authority_cap := 0, ev_reply_send_cap := 0, ev_authority_object_type := CAP_TYPE_NONE, ev_authority_rights := 0\<rparr>)"

text \<open>Both capabilities of a message, or none: a failure of the second takes the first back.\<close>

definition ipc_install_pair ::
    "ipc_env \<Rightarrow> nat \<Rightarrow> tptr \<Rightarrow> ipc_endpoint \<Rightarrow> kstate \<Rightarrow> (kstatus \<times> u32 \<times> u32 \<times> kstate) option" where
  "ipc_install_pair env cpu p ep s =
     (let (st1, s1, cap) =
        (if msg_cap_transfer_id (ep_msg ep) \<noteq> 0
         then bh_cap_transfer_install cpu (Some (ep_cap_transfer_source ep)) (Some p) (msg_cap_transfer_rights (ep_msg ep)) (Some 0) s
         else (K_OK, s, Some 0))
      in if st1 = K_OK \<and> ep_reply_cap_transfer_id ep \<noteq> 0
         then case bh_cap_transfer_install cpu (Some (ep_reply_cap_transfer_source ep)) (Some p) (ep_reply_cap_transfer_rights ep) (Some 0) s1 of
                (st2, s2, reply_cap) \<Rightarrow>
                  if st2 \<noteq> K_OK then map_option (\<lambda>s3. (st2, 0, the reply_cap, s3)) (ipc_revoke_if env cpu p (the cap) s2)
                  else Some (K_OK, the cap, the reply_cap, s2)
         else Some (st1, the cap, 0, s1))"

type_synonym ipc_envelope_result = "int \<times> u8 list option \<times> nat option \<times> bh_ipc_receive_envelope_v1 option \<times> kstate"

definition ipc_endpoint_receive_envelope ::
    "ipc_env \<Rightarrow> nat \<Rightarrow> nat option \<Rightarrow> tptr option \<Rightarrow> u32 \<Rightarrow> u8 list option \<Rightarrow> nat \<Rightarrow> nat option \<Rightarrow> u64 \<Rightarrow>
     bh_ipc_receive_envelope_v1 option \<Rightarrow> kstate \<Rightarrow> ipc_envelope_result option" where
  "ipc_endpoint_receive_envelope env cpu cur table recv_cap out_payload capacity out_len timeout_ticks out_envelope s =
     (case (table, out_payload, out_len, out_envelope) of
        (Some p, Some buf, Some _, Some _) \<Rightarrow>
          if capacity = 0 then Some (IPC_ERR_INVALID, out_payload, out_len, out_envelope, s)
          else let fail = (\<lambda>st t. Some (st, Some buf, Some 0, Some envelope_init, t))
          in (case ipc_recv_prepare p recv_cap timeout_ticks s of
                Inl st \<Rightarrow> fail st s
              | Inr q \<Rightarrow>
                Option.bind (ipc_recv_loop env cur q s) (\<lambda>(r, s1).
                  case r of Some st \<Rightarrow> fail st s1
                  | None \<Rightarrow>
                    let ep = ks_endpoints s1 (rv_core q) (rv_slot q)
                    in if capacity < msg_len (ep_msg ep) then fail IPC_ERR_NO_SPACE s1
                       else Option.bind (ipc_install_pair env cpu p ep (upd_endpoint (rv_core q) (rv_slot q) ipc_claim s1))
                         (\<lambda>(install_ret, cap, reply_cap, s3).
                           Option.bind (ipc_recv_settle env cpu q install_ret [cap, reply_cap] (ie_claimed env s3)) (\<lambda>(r, s4).
                             case r of Inl st \<Rightarrow> fail st s4
                             | Inr _ \<Rightarrow>
                               let m = ep_msg (ks_endpoints s4 (rv_core q) (rv_slot q))
                               in Some (IPC_OK, Some (ipc_msg_bytes m @ drop (msg_len m) buf), Some (msg_len m),
                                        Some (envelope_caps (ep_provenance ep) (ep_reply_cap_transfer_id ep)
                                                (msg_cap_transfer_rights (ep_msg ep)) cap reply_cap
                                                (envelope_sender (ep_provenance ep) envelope_init)),
                                        ipc_recv_done q s4)))))
      | _ \<Rightarrow> Some (IPC_ERR_INVALID, out_payload, out_len, out_envelope, s))"

end
