(* ===== verification/Ipc_Endpoint_Inv.thy ===== *)
theory Ipc_Endpoint_Inv
  imports Ipc_Endpoint
begin

text \<open>
  What sending and receiving promise: who may send, that a message and the capability it carries
  arrive, what a call that must not wait returns, and what creation leaves behind.
\<close>

unbundle bit_operations_syntax

section \<open>Frames\<close>

lemma lookup_frame: "ks_tables t = ks_tables s \<Longrightarrow> cap_table_lookup t = cap_table_lookup s"
  by (simp add: fun_eq_iff cap_table_lookup_def entry_at_def split: option.split)

lemma capture_frame:
  "ks_tables t = ks_tables s \<Longrightarrow> ks_registry t = ks_registry s \<Longrightarrow> bh_cap_transfer_capture cpu p h r out t = bh_cap_transfer_capture cpu p h r out s"
  by (simp add: bh_cap_transfer_capture_def Let_def split: option.split)

lemma ep_waiters_set [simp]:
  "ep_waiters side (ep_set_waiters side q ep) = q" "ep_msg (ep_set_waiters side q ep) = ep_msg ep"
  "ep_has_msg (ep_set_waiters side q ep) = ep_has_msg ep" "ep_state (ep_set_waiters side q ep) = ep_state ep"
  "ep_in_use (ep_set_waiters side q ep) = ep_in_use ep" "ep_generation (ep_set_waiters side q ep) = ep_generation ep"
  "ep_cap_transfer_source (ep_set_waiters side q ep) = ep_cap_transfer_source ep"
  "ep_reply_cap_transfer_id (ep_set_waiters side q ep) = ep_reply_cap_transfer_id ep"
  "ep_reply_cap_transfer_source (ep_set_waiters side q ep) = ep_reply_cap_transfer_source ep"
  "ep_reply_cap_transfer_rights (ep_set_waiters side q ep) = ep_reply_cap_transfer_rights ep"
  "ep_provenance (ep_set_waiters side q ep) = ep_provenance ep" "ep_active_claims (ep_set_waiters side q ep) = ep_active_claims ep"
  by (cases side; simp)+

lemma wake_one_frame: "ep_frame s (ipc_wake_one side c k s)"
  by (auto simp: ipc_wake_one_def split: option.split prod.split intro: ep_frame_trans [OF ep_frame_trans [OF ep_frame_upd(1) ep_frame_wakeup(2)] ep_frame_wakeup(1)])

lemma wakeup_endpoints [simp]:
  "ks_endpoints (sched_wakeup t s) = ks_endpoints s" "ks_endpoints (ipc_set_wakeup r t s) = ks_endpoints s"
  by (simp_all add: sched_wakeup_def ipc_set_wakeup_def)

text \<open>Waking one waiter changes of the endpoints only the queue it was in.\<close>

lemma wake_one_endpoint:
  "\<exists>q. ks_endpoints (ipc_wake_one side c k s) c k = ep_set_waiters side q (ks_endpoints s c k)"
  "(c', k') \<noteq> (c, k) \<Longrightarrow> ks_endpoints (ipc_wake_one side c k s) c' k' = ks_endpoints s c' k'"
  by (auto simp: ipc_wake_one_def split: option.split prod.split)

lemma wake_one_simps [simp]:
  "ks_tables (ipc_wake_one side c k s) = ks_tables s" "ks_registry (ipc_wake_one side c k s) = ks_registry s"
  "ks_bootstrap_used (ipc_wake_one side c k s) = ks_bootstrap_used s" "ks_tx (ipc_wake_one side c k s) = ks_tx s"
  using ep_frameD [OF wake_one_frame [of s side c k]] by auto

section \<open>Sending\<close>

lemma send_recheck_status: "ipc_send_recheck cpu q s = Inl st \<Longrightarrow> st \<noteq> IPC_OK"
  by (auto simp: ipc_send_recheck_def status_simps split: prod.splits option.splits if_splits)

lemma after_block_status: "ipc_after_block side c k t s = (Some st, s') \<Longrightarrow> st \<noteq> IPC_OK"
  by (auto simp: ipc_after_block_def Let_def split: if_splits prod.splits)

lemma wait_turn_status: "ipc_wait_turn env side c k cur tm dl s = (Some st, s') \<Longrightarrow> st \<noteq> IPC_OK"
  by (auto simp: ipc_wait_turn_def status_simps dest: after_block_status [unfolded status_simps] split: if_splits option.splits)

lemma send_recheck_Inr:
  "ipc_send_recheck cpu q s = Inr (src, rsrc) \<longleftrightarrow>
     (\<exists>e. cap_table_lookup s (Some (sn_table q)) (sn_send_cap q) CAP_TYPE_ENDPOINT CAP_RIGHT_ENDPOINT_SEND = (0, Some e) \<and>
        ce_object_ref e = sn_object_ref q) \<and>
     ipc_capture cpu (sn_table q) (sn_cap_to_send q) (sn_cap_send_rights q) s = Some src \<and>
     ipc_capture cpu (sn_table q) (sn_reply_cap_to_send q) (sn_reply_cap_rights q) s = Some rsrc \<and>
     ep_state (ks_endpoints s (sn_core q) (sn_slot q)) = IPC_ENDPOINT_STATE_READY"
proof -
  have z: "cap_table_lookup s (Some p) h ty r = (st, Some e) \<Longrightarrow> st = 0" for p h ty r st e
    by (auto simp: cap_table_lookup_def Let_def split: option.splits if_splits)
  show ?thesis unfolding ipc_send_recheck_def by (auto split: prod.splits option.splits if_splits dest: z)
qed

text \<open>A send that succeeds stores its message in a state in which the sender may send.\<close>

lemma send_loop_ok:
  assumes "ipc_send_loop env cpu cur q s = Some r"
  shows "fst r = IPC_OK \<longrightarrow> (\<exists>t src rsrc. ipc_send_recheck cpu q t = Inr (src, rsrc) \<and> ep_has_msg (ks_endpoints t (sn_core q) (sn_slot q)) = 0 \<and>
    snd r = ipc_wake_one RECEIVERS (sn_core q) (sn_slot q) (upd_endpoint (sn_core q) (sn_slot q) (ipc_store_msg q src rsrc) t))"
proof (rule ipc_send_loop.raw_induct [where P = "\<lambda>env cpu cur q s r. fst r = IPC_OK \<longrightarrow> (\<exists>t src rsrc.
    ipc_send_recheck cpu q t = Inr (src, rsrc) \<and> ep_has_msg (ks_endpoints t (sn_core q) (sn_slot q)) = 0 \<and>
    snd r = ipc_wake_one RECEIVERS (sn_core q) (sn_slot q) (upd_endpoint (sn_core q) (sn_slot q) (ipc_store_msg q src rsrc) t))", OF _ assms], goal_cases)
  case (1 f env cpu cur q s r)
  show ?case
  proof (cases "ipc_send_recheck cpu q s")
    case (Inl st)
    then show ?thesis using 1(2) send_recheck_status by auto
  next
    case (Inr p)
    obtain src rsrc where p: "p = (src, rsrc)" by fastforce
    obtain w s1 where w: "ipc_wait_turn env SENDERS (sn_core q) (sn_slot q) cur (sn_timeout_ticks q) (sn_deadline q) s = (w, s1)" by fastforce
    show ?thesis
    proof (cases "ep_has_msg (ks_endpoints s (sn_core q) (sn_slot q)) = 0")
      case True
      then have "r = (IPC_OK, ipc_wake_one RECEIVERS (sn_core q) (sn_slot q) (upd_endpoint (sn_core q) (sn_slot q) (ipc_store_msg q src rsrc) s))"
        using 1(2) Inr p by simp
      then show ?thesis using Inr p True by (intro impI exI [of _ s] exI [of _ src] exI [of _ rsrc]) simp
    next
      case False
      show ?thesis
      proof (cases w)
        case None
        then have "f env cpu cur q s1 = Some r" using 1(2) Inr p w False by simp
        then show ?thesis by (rule 1(1))
      next
        case (Some st)
        then show ?thesis using 1(2) Inr p w False wait_turn_status by auto
      qed
    qed
  qed
qed

section \<open>Creation\<close>

lemma acquire_endpoints:
  "ks_endpoints t = ks_endpoints s \<Longrightarrow> ks_endpoints (cap_endpoint_ref_acquire ty ref r t) = ks_endpoints (cap_endpoint_ref_acquire ty ref r s)"
  by (simp add: cap_endpoint_ref_acquire_def ipc_endpoint_acquire_send_cap_def ipc_endpoint_acquire_recv_cap_def Let_def
      endpoint_by_ref_def upd_endpoint_def split: prod.split option.split)

lemma cap_grant_ok:
  assumes "cap_table_wf (ks_tables s p)" and "type \<noteq> CAP_TYPE_NONE" "cap_rights_valid type rights" "rights \<noteq> CAP_RIGHT_NONE"
    and "ida_used (ct_id_allocator (ks_tables s p)) \<noteq> {..<CAP_ENTRIES}"
  obtains i s' where "cap_table_grant cpu (Some p) type obj rights (Some x) s =
      (0, s', Some (cap_handle_of (of_nat i + 1) (ce_generation (entry_at s p i) + 1)))"
    "cap_installs p i (cap_grant_entry cpu i type obj rights (entry_at s p i)) s s'"
    "ida_used (ct_id_allocator (ks_tables s' p)) = insert i (ida_used (ct_id_allocator (ks_tables s p)))"
    "ks_endpoints s' = ks_endpoints (cap_endpoint_ref_acquire type obj rights s)"
proof (cases rule: cap_grant_cases [OF assms(1), of type cpu obj rights "Some x"])
  case (4 i s')
  show ?thesis
  proof (cases rule: cap_alloc_slot_cases [OF assms(1)])
    case (2 j a)
    let ?s1 = "upd_table p (\<lambda>t. t\<lparr>ct_id_allocator := a\<rparr>) s"
    let ?s2 = "upd_entry p j (cap_grant_entry cpu j type obj rights) ?s1"
    have s': "s' = cap_endpoint_ref_acquire type obj rights ?s2" and h: "cap_handle_of (of_nat i + 1) (ce_generation (entry_at s p i) + 1) =
        cap_handle_of (ce_id (entry_at ?s2 p j)) (ce_generation (entry_at ?s2 p j))"
      using 4(4) 2 assms(2-4) by (simp_all add: cap_table_grant_def Let_def)
    have j: "j < 64" "\<not> ce_in_use (entry_at s p j)" "ida_used a = insert j (ida_used (ct_id_allocator (ks_tables s p)))"
      using 2 cap_table_wfD(4) [OF assms(1)] by (auto simp: entry_at_def)
    have "i = j"
    proof (rule ccontr)
      assume "i \<noteq> j"
      have "entry_at s' p j = cap_grant_entry cpu j type obj rights (entry_at s p j)"
        unfolding s' using cap_table_wfD(1) [OF assms(1)] j(1) by (simp add: entry_at_def upd_entry_tables upd_table_def)
      then have "ce_in_use (entry_at s' p j)" by (simp add: cap_grant_entry_def)
      then show False using 4(5) \<open>i \<noteq> j\<close> j by (auto simp: cap_installs_def)
    qed
    moreover have "ida_used (ct_id_allocator (ks_tables s' p)) = insert j (ida_used (ct_id_allocator (ks_tables s p)))"
      unfolding s' using j(3) by (simp add: upd_entry_tables upd_table_def)
    moreover have "ks_endpoints s' = ks_endpoints (cap_endpoint_ref_acquire type obj rights s)"
      unfolding s' by (rule acquire_endpoints) (simp add: upd_entry_def upd_table_def)
    ultimately show ?thesis using that [of s' i] 4(4,5) by simp
  qed (use assms(5) in simp)
qed (use assms in auto)

lemma recv_rights:
  "rights_of (CAP_RIGHT_ENDPOINT_RECEIVE OR CAP_RIGHT_DELEGATE) = {1, 7}" "rights_of CAP_RIGHT_ENDPOINT_RECEIVE = {1}"
  unfolding rights_simps rights_of_or by (simp_all only: rights_of_bit) auto

lemma recv_rights_valid: "cap_rights_valid CAP_TYPE_ENDPOINT (CAP_RIGHT_ENDPOINT_RECEIVE OR CAP_RIGHT_DELEGATE)"
proof -
  have "{1, 7} \<subseteq> rights_of (cap_valid_rights_for_type CAP_TYPE_ENDPOINT)"
    unfolding cap_valid_rights_for_type.simps k_cap_valid_rights_endpoint_def rights_simps rights_of_or by (simp only: rights_of_bit) auto
  moreover from this have "cap_valid_rights_for_type CAP_TYPE_ENDPOINT \<noteq> 0" by (metis empty_iff insert_subset rights_of_zero)
  ultimately show ?thesis unfolding cap_rights_valid_def cap_transfer_rights_valid_iff recv_rights(1) by blast
qed

lemma acquire_ready:
  assumes "endpoint_by_ref s ref = Some (c, k)" and "ep_state (ks_endpoints s c k) = IPC_ENDPOINT_STATE_READY"
  shows "ks_endpoints (cap_endpoint_ref_acquire CAP_TYPE_ENDPOINT ref (CAP_RIGHT_ENDPOINT_SEND OR CAP_RIGHT_DELEGATE) s) =
      ks_endpoints (upd_endpoint c k (\<lambda>ep. ep\<lparr>ep_send_cap_refs := ep_send_cap_refs ep + 1\<rparr>) s)"
    "ks_endpoints (cap_endpoint_ref_acquire CAP_TYPE_ENDPOINT ref (CAP_RIGHT_ENDPOINT_RECEIVE OR CAP_RIGHT_DELEGATE) s) =
      ks_endpoints (upd_endpoint c k (\<lambda>ep. ep\<lparr>ep_recv_cap_refs := ep_recv_cap_refs ep + 1\<rparr>) s)"
proof -
  have use: "ep_in_use (ks_endpoints s c k)"
    using assms(1) by (auto simp: endpoint_by_ref_def Let_def split: prod.splits if_splits)
  have r: "(CAP_RIGHT_ENDPOINT_SEND OR CAP_RIGHT_DELEGATE) AND CAP_RIGHT_ENDPOINT_SEND \<noteq> 0"
    "(CAP_RIGHT_ENDPOINT_SEND OR CAP_RIGHT_DELEGATE) AND CAP_RIGHT_ENDPOINT_RECEIVE = 0"
    "(CAP_RIGHT_ENDPOINT_RECEIVE OR CAP_RIGHT_DELEGATE) AND CAP_RIGHT_ENDPOINT_SEND = 0"
    "(CAP_RIGHT_ENDPOINT_RECEIVE OR CAP_RIGHT_DELEGATE) AND CAP_RIGHT_ENDPOINT_RECEIVE \<noteq> 0"
    using right_test(2,3) [of "CAP_RIGHT_ENDPOINT_SEND OR CAP_RIGHT_DELEGATE"] right_test(2,3) [of "CAP_RIGHT_ENDPOINT_RECEIVE OR CAP_RIGHT_DELEGATE"]
    unfolding send_rights(1) recv_rights(1) by auto
  show "ks_endpoints (cap_endpoint_ref_acquire CAP_TYPE_ENDPOINT ref (CAP_RIGHT_ENDPOINT_SEND OR CAP_RIGHT_DELEGATE) s) =
      ks_endpoints (upd_endpoint c k (\<lambda>ep. ep\<lparr>ep_send_cap_refs := ep_send_cap_refs ep + 1\<rparr>) s)"
    "ks_endpoints (cap_endpoint_ref_acquire CAP_TYPE_ENDPOINT ref (CAP_RIGHT_ENDPOINT_RECEIVE OR CAP_RIGHT_DELEGATE) s) =
      ks_endpoints (upd_endpoint c k (\<lambda>ep. ep\<lparr>ep_recv_cap_refs := ep_recv_cap_refs ep + 1\<rparr>) s)"
    using assms use r by (simp_all add: cap_endpoint_ref_acquire_def ipc_endpoint_acquire_send_cap_def ipc_endpoint_acquire_recv_cap_def)
qed

lemma endpoint_by_ref_cong:
  assumes "\<And>c k. ep_in_use (ks_endpoints t c k) = ep_in_use (ks_endpoints s c k) \<and> ep_generation (ks_endpoints t c k) = ep_generation (ks_endpoints s c k)"
  shows "endpoint_by_ref t ref = endpoint_by_ref s ref"
  using assms by (simp add: endpoint_by_ref_def Let_def split: prod.split)

text \<open>The handle of a granted entry, and what it can be looked up for.\<close>

lemma granted_lookup:
  assumes "cap_installs p i (cap_grant_entry cpu i ty obj rights e) s s'" and "ce_generation e < 0xFFFF" and "e = entry_at s p i"
  shows "cap_table_lookup s' (Some p) (cap_handle_of (of_nat i + 1) (ce_generation e + 1)) ty req =
    (if rights_of req \<subseteq> rights_of rights then (0, Some (cap_grant_entry cpu i ty obj rights e)) else (-3, None))"
proof -
  have I: "i < 64" "entry_at s' p i = cap_grant_entry cpu i ty obj rights e" "cap_table_wf (ks_tables s' p)"
    using assms(1) by (auto simp: cap_installs_def)
  have "ce_generation e + 1 < 0x10000 \<and> ce_generation e + 1 \<noteq> 0" using assms(2) by (rule word_inc_16)
  then show ?thesis
    using lookup_by_handle [OF I(3,1), of "ce_generation e + 1" ty req] I(2)
    by (simp add: cap_grant_entry_def bh_cap_generation_matches_def take_bit_16_small rights_subset_and Let_def)
qed

lemma small_u32: "n < 64 \<Longrightarrow> unat (of_nat n :: u32) = n"
  by (simp add: unsigned_of_nat take_bit_nat_eq_self)

lemma installs_endpoint_ref:
  assumes "cap_installs p i e s s'"
  shows "ks_tables s' q = ks_tables s q \<or> q = p"
  using assms by (auto simp: cap_installs_def)

text \<open>A new endpoint and the two capabilities for it.\<close>

definition endpoint_pair :: "kstate \<Rightarrow> tptr \<Rightarrow> nat \<Rightarrow> nat \<Rightarrow> u32 \<Rightarrow> u32 \<Rightarrow> bool" where
  "endpoint_pair s p c k hs hr \<longleftrightarrow> (\<exists>ref es er. endpoint_by_ref s ref = Some (c, k) \<and>
     ep_state (ks_endpoints s c k) = IPC_ENDPOINT_STATE_READY \<and>
     cap_table_lookup s (Some p) hs CAP_TYPE_ENDPOINT CAP_RIGHT_ENDPOINT_SEND = (0, Some es) \<and> ce_object_ref es = ref \<and>
     cap_table_lookup s (Some p) hr CAP_TYPE_ENDPOINT CAP_RIGHT_ENDPOINT_RECEIVE = (0, Some er) \<and> ce_object_ref er = ref \<and>
     rights_of (ce_rights es) = {0, 7} \<and> rights_of (ce_rights er) = {1, 7})"

lemma room_card: "card A < 64 \<Longrightarrow> A \<noteq> {..<64 :: nat}"
  by (metis card_lessThan less_irrefl)

text \<open>
  What the two grants leave in the table: two new entries, and every other entry as it was.
\<close>

definition endpoint_installed :: "nat \<Rightarrow> tptr \<Rightarrow> u32 \<Rightarrow> u32 \<Rightarrow> kstate \<Rightarrow> kstate \<Rightarrow> bool" where
  "endpoint_installed cpu p hs hr s s' \<longleftrightarrow> (\<exists>a b ref. a < CAP_ENTRIES \<and> b < CAP_ENTRIES \<and> a \<noteq> b \<and>
     hs = cap_handle_of (of_nat a + 1) (ce_generation (entry_at s p a) + 1) \<and>
     hr = cap_handle_of (of_nat b + 1) (ce_generation (entry_at s p b) + 1) \<and>
     entry_at s' p a = cap_grant_entry cpu a CAP_TYPE_ENDPOINT ref (CAP_RIGHT_ENDPOINT_SEND OR CAP_RIGHT_DELEGATE) (entry_at s p a) \<and>
     entry_at s' p b = cap_grant_entry cpu b CAP_TYPE_ENDPOINT ref (CAP_RIGHT_ENDPOINT_RECEIVE OR CAP_RIGHT_DELEGATE) (entry_at s p b) \<and>
     (\<forall>j < CAP_ENTRIES. j \<noteq> a \<and> j \<noteq> b \<longrightarrow> entry_at s' p j = entry_at s p j) \<and>
     ida_used (ct_id_allocator (ks_tables s' p)) = insert a (insert b (ida_used (ct_id_allocator (ks_tables s p)))))"

text \<open>The two grants for an endpoint, one after the other.\<close>

lemma endpoint_grants:
  assumes wf: "caps_wf s" "cap_table_wf (ks_tables s p)" and ep: "endpoint_by_ref s ref = Some (c, k)" "ep_state (ks_endpoints s c k) = IPC_ENDPOINT_STATE_READY"
    and room: "card (ida_used (ct_id_allocator (ks_tables s p))) + 2 \<le> CAP_ENTRIES"
    and gen: "\<And>j. j < CAP_ENTRIES \<Longrightarrow> ce_generation (entry_at s p j) < 0xFFFF"
  obtains hs hr s2 s3
  where "cap_table_grant cpu (Some p) CAP_TYPE_ENDPOINT ref (CAP_RIGHT_ENDPOINT_SEND OR CAP_RIGHT_DELEGATE) (Some x) s = (0, s2, Some hs)"
    "cap_table_grant cpu (Some p) CAP_TYPE_ENDPOINT ref (CAP_RIGHT_ENDPOINT_RECEIVE OR CAP_RIGHT_DELEGATE) (Some y) s2 = (0, s3, Some hr)"
    "caps_wf s3" "endpoint_pair s3 p c k hs hr" "endpoint_installed cpu p hs hr s s3"
    "ks_endpoints s3 = ks_endpoints (upd_endpoint c k (\<lambda>ep. ep\<lparr>ep_send_cap_refs := ep_send_cap_refs ep + 1, ep_recv_cap_refs := ep_recv_cap_refs ep + 1\<rparr>) s)"
    "\<And>q. q \<noteq> p \<Longrightarrow> ks_tables s3 q = ks_tables s q" "ks_registry s3 = ks_registry s" "ks_tx s3 = ks_tx s"
proof -
  have r1: "ida_used (ct_id_allocator (ks_tables s p)) \<noteq> {..<64}" by (rule room_card) (use room in simp)
  obtain a s2 where g1: "cap_table_grant cpu (Some p) CAP_TYPE_ENDPOINT ref (CAP_RIGHT_ENDPOINT_SEND OR CAP_RIGHT_DELEGATE) (Some x) s =
      (0, s2, Some (cap_handle_of (of_nat a + 1) (ce_generation (entry_at s p a) + 1)))"
    "cap_installs p a (cap_grant_entry cpu a CAP_TYPE_ENDPOINT ref (CAP_RIGHT_ENDPOINT_SEND OR CAP_RIGHT_DELEGATE) (entry_at s p a)) s s2"
    "ida_used (ct_id_allocator (ks_tables s2 p)) = insert a (ida_used (ct_id_allocator (ks_tables s p)))"
    "ks_endpoints s2 = ks_endpoints (cap_endpoint_ref_acquire CAP_TYPE_ENDPOINT ref (CAP_RIGHT_ENDPOINT_SEND OR CAP_RIGHT_DELEGATE) s)"
    by (rule cap_grant_ok [OF wf(2) _ send_rights_valid _ r1, of cpu ref x]) (auto simp: rights_simps)
  note ep2 = g1(4) [unfolded acquire_ready(1) [OF ep]]
  have by2: "endpoint_by_ref s2 ref = Some (c, k)" using ep(1) endpoint_by_ref_cong [of s2 s ref] unfolding ep2 by simp
  have wf2: "cap_table_wf (ks_tables s2 p)" "a < 64" using g1(2) by (auto simp: cap_installs_def)
  have r2: "ida_used (ct_id_allocator (ks_tables s2 p)) \<noteq> {..<64}"
    unfolding g1(3) by (rule room_card) (use room in \<open>simp add: card_insert_if\<close>)
  obtain b s3 where g2: "cap_table_grant cpu (Some p) CAP_TYPE_ENDPOINT ref (CAP_RIGHT_ENDPOINT_RECEIVE OR CAP_RIGHT_DELEGATE) (Some y) s2 =
      (0, s3, Some (cap_handle_of (of_nat b + 1) (ce_generation (entry_at s2 p b) + 1)))"
    "cap_installs p b (cap_grant_entry cpu b CAP_TYPE_ENDPOINT ref (CAP_RIGHT_ENDPOINT_RECEIVE OR CAP_RIGHT_DELEGATE) (entry_at s2 p b)) s2 s3"
    "ida_used (ct_id_allocator (ks_tables s3 p)) = insert b (ida_used (ct_id_allocator (ks_tables s2 p)))"
    "ks_endpoints s3 = ks_endpoints (cap_endpoint_ref_acquire CAP_TYPE_ENDPOINT ref (CAP_RIGHT_ENDPOINT_RECEIVE OR CAP_RIGHT_DELEGATE) s2)"
    by (rule cap_grant_ok [OF wf2(1) _ recv_rights_valid _ r2, of cpu ref y]) (auto simp: rights_simps)
  have ready2: "ep_state (ks_endpoints s2 c k) = IPC_ENDPOINT_STATE_READY" using ep(2) by (simp add: ep2)
  note ep3 = g2(4) [unfolded acquire_ready(2) [OF by2 ready2]]
  have by3: "endpoint_by_ref s3 ref = Some (c, k)" using by2 endpoint_by_ref_cong [of s3 s2 ref] unfolding ep3 by simp
  note i1 = g1(2) [unfolded cap_installs_def] and i2 = g2(2) [unfolded cap_installs_def]
  have "entry_at s2 p a = cap_grant_entry cpu a CAP_TYPE_ENDPOINT ref (CAP_RIGHT_ENDPOINT_SEND OR CAP_RIGHT_DELEGATE) (entry_at s p a)"
    using i1 by blast
  then have "ce_in_use (entry_at s2 p a)" by (simp add: cap_grant_entry_def)
  then have ab: "b \<noteq> a" "b < 64" "entry_at s2 p b = entry_at s p b" using i1 i2 by blast+
  let ?hs = "cap_handle_of (of_nat a + 1) (ce_generation (entry_at s p a) + 1)" and ?hr = "cap_handle_of (of_nat b + 1) (ce_generation (entry_at s p b) + 1)"
  have ls: "cap_table_lookup s3 (Some p) ?hs CAP_TYPE_ENDPOINT CAP_RIGHT_ENDPOINT_SEND =
      (0, Some (cap_grant_entry cpu a CAP_TYPE_ENDPOINT ref (CAP_RIGHT_ENDPOINT_SEND OR CAP_RIGHT_DELEGATE) (entry_at s p a)))"
    by (rule installs_keeps_lookup [OF wf2(1) g2(2)])
       (use granted_lookup [OF g1(2) gen [OF wf2(2)] refl, of CAP_RIGHT_ENDPOINT_SEND] send_rights in simp)
  have lr: "cap_table_lookup s3 (Some p) ?hr CAP_TYPE_ENDPOINT CAP_RIGHT_ENDPOINT_RECEIVE =
      (0, Some (cap_grant_entry cpu b CAP_TYPE_ENDPOINT ref (CAP_RIGHT_ENDPOINT_RECEIVE OR CAP_RIGHT_DELEGATE) (entry_at s p b)))"
    using granted_lookup [OF g2(2) [unfolded ab(3)] gen [OF ab(2)] ab(3) [symmetric], of CAP_RIGHT_ENDPOINT_RECEIVE] recv_rights by simp
  have "ep_state (ks_endpoints s3 c k) = IPC_ENDPOINT_STATE_READY" using ready2 by (simp add: ep3)
  then have "endpoint_pair s3 p c k ?hs ?hr"
    unfolding endpoint_pair_def using by3 ls lr send_rights(1) recv_rights(1) by (intro exI [of _ ref]) (auto simp: cap_grant_entry_def)
  moreover have "endpoint_installed cpu p ?hs ?hr s s3"
  proof -
    have e: "entry_at s3 p a = entry_at s2 p a" "entry_at s2 p a = cap_grant_entry cpu a CAP_TYPE_ENDPOINT ref (CAP_RIGHT_ENDPOINT_SEND OR CAP_RIGHT_DELEGATE) (entry_at s p a)"
      "entry_at s3 p b = cap_grant_entry cpu b CAP_TYPE_ENDPOINT ref (CAP_RIGHT_ENDPOINT_RECEIVE OR CAP_RIGHT_DELEGATE) (entry_at s p b)"
      using i1 i2 ab wf2(2) by metis+
    have o: "entry_at s3 p j = entry_at s p j" if "j < 64" "j \<noteq> a" "j \<noteq> b" for j using i1 i2 that by metis
    show ?thesis
      unfolding endpoint_installed_def
      by (rule exI [of _ a], rule exI [of _ b], rule exI [of _ ref]) (use e o ab wf2(2) g1(3) g2(3) in \<open>auto simp: insert_commute\<close>)
  qed
  moreover have "caps_wf s3" using installs_caps_wf [OF installs_caps_wf [OF wf(1) g1(2)] g2(2)] .
  moreover have "ks_endpoints s3 = ks_endpoints (upd_endpoint c k (\<lambda>ep. ep\<lparr>ep_send_cap_refs := ep_send_cap_refs ep + 1, ep_recv_cap_refs := ep_recv_cap_refs ep + 1\<rparr>) s)"
    unfolding ep3 by (simp add: fun_eq_iff ep2)
  moreover have "ks_tables s3 q = ks_tables s q" if "q \<noteq> p" for q using i1 i2 that by metis
  moreover have "ks_registry s3 = ks_registry s" "ks_tx s3 = ks_tx s" using i1 i2 by simp_all
  ultimately show thesis using that [OF g1(1) g2(1) [unfolded ab(3)]] by blast
qed

lemma ipc_create_ok:
  assumes wf: "caps_wf s" "cap_registered s cpu kk p" and free: "i < IPC_ENDPOINTS_PER_CORE" "\<not> ep_in_use (ks_endpoints s cpu i)"
    and room: "card (ida_used (ct_id_allocator (ks_tables s p))) + 2 \<le> CAP_ENTRIES"
    and gen: "\<And>j. j < CAP_ENTRIES \<Longrightarrow> ce_generation (entry_at s p j) < 0xFFFF"
  shows "\<exists>hs hr s' k. ipc_endpoint_create env cpu (Some p) (Some x) (Some y) s = Some (IPC_OK, Some hs, Some hr, s') \<and>
    caps_wf s' \<and> k < IPC_ENDPOINTS_PER_CORE \<and> \<not> ep_in_use (ks_endpoints s cpu k) \<and> endpoint_pair s' p cpu k hs hr \<and> endpoint_installed cpu p hs hr s s' \<and>
    ks_endpoints s' cpu k = (endpoint_fresh cpu (ks_endpoints s cpu k))\<lparr>ep_send_cap_refs := 1, ep_recv_cap_refs := 1\<rparr> \<and>
    (\<forall>c' k'. (c', k') \<noteq> (cpu, k) \<longrightarrow> ks_endpoints s' c' k' = ks_endpoints s c' k') \<and>
    (\<forall>q. q \<noteq> p \<longrightarrow> ks_tables s' q = ks_tables s q) \<and> ks_registry s' = ks_registry s \<and> ks_tx s' = ks_tx s"
proof -
  have own: "cpu < 32" "unat (ct_owner_core (ks_tables s p)) = cpu"
    using wf(2) caps_wfD(2) [OF wf] small_unat by (auto simp: cap_registered_def)
  obtain k where k: "find (\<lambda>i. \<not> ep_in_use (ks_endpoints s cpu i)) [0..<64] = Some k" "k < 64" "\<not> ep_in_use (ks_endpoints s cpu k)"
  proof -
    have "find (\<lambda>i. \<not> ep_in_use (ks_endpoints s cpu i)) [0..<64] \<noteq> None" using free by (auto simp: find_upt_None_iff)
    then show thesis using that by (auto simp: find_upt_Some_iff)
  qed
  define s1 where "s1 = upd_endpoint cpu k (endpoint_fresh cpu) s"
  define ref where "ref = endpoint_make_ref (of_nat cpu) (of_nat k) (ep_generation (ks_endpoints s1 cpu k))"
  have t1: "ks_tables s1 = ks_tables s" "ks_registry s1 = ks_registry s" "ks_bootstrap_used s1 = ks_bootstrap_used s" "ks_tx s1 = ks_tx s"
    by (simp_all add: s1_def)
  have ep1: "ks_endpoints s1 cpu k = endpoint_fresh cpu (ks_endpoints s cpu k)" by (simp add: s1_def)
  note fresh = endpoint_fresh_def ipc_endpoint_clear_msg_locked_def
  have by1: "endpoint_by_ref s1 ref = Some (cpu, k)"
    using endpoint_by_ref_make [of "of_nat cpu" "of_nat k" s1] own(1) k(2) small_u32 [of cpu] small_u32 [of k]
    unfolding ref_def by (simp add: ep1 fresh word_less_nat_alt)
  have ready: "ep_state (ks_endpoints s1 cpu k) = IPC_ENDPOINT_STATE_READY" by (simp add: ep1 fresh)
  have wf1: "caps_wf s1" "cap_table_wf (ks_tables s1 p)" using caps_wfD(1) [OF wf] t1 wf(1) caps_wf_cong [OF t1(1-3)] by simp_all
  have e1: "entry_at s1 p j = entry_at s p j" for j by (simp add: entry_at_def t1)
  obtain hs hr s2 s3
    where g: "cap_table_grant cpu (Some p) CAP_TYPE_ENDPOINT ref (CAP_RIGHT_ENDPOINT_SEND OR CAP_RIGHT_DELEGATE) (Some x) s1 = (0, s2, Some hs)"
      "cap_table_grant cpu (Some p) CAP_TYPE_ENDPOINT ref (CAP_RIGHT_ENDPOINT_RECEIVE OR CAP_RIGHT_DELEGATE) (Some y) s2 = (0, s3, Some hr)"
      "caps_wf s3" "endpoint_pair s3 p cpu k hs hr" "endpoint_installed cpu p hs hr s1 s3"
      "ks_endpoints s3 = ks_endpoints (upd_endpoint cpu k (\<lambda>ep. ep\<lparr>ep_send_cap_refs := ep_send_cap_refs ep + 1, ep_recv_cap_refs := ep_recv_cap_refs ep + 1\<rparr>) s1)"
      "\<And>q. q \<noteq> p \<Longrightarrow> ks_tables s3 q = ks_tables s1 q" "ks_registry s3 = ks_registry s1" "ks_tx s3 = ks_tx s1"
    by (rule endpoint_grants [OF wf1 by1 ready, of cpu x y]) (use room gen t1 in \<open>auto simp: e1\<close>)
  have "ipc_endpoint_create env cpu (Some p) (Some x) (Some y) s = Some (IPC_OK, Some hs, Some hr, s3)"
    using own k(1) g(1,2) by (simp add: ipc_endpoint_create_def Let_def s1_def ref_def)
  moreover have "ks_endpoints s3 cpu k = (endpoint_fresh cpu (ks_endpoints s cpu k))\<lparr>ep_send_cap_refs := 1, ep_recv_cap_refs := 1\<rparr>"
    unfolding g(6) by (simp add: ep1 fresh)
  moreover have "ks_endpoints s3 c' k' = ks_endpoints s c' k'" if "(c', k') \<noteq> (cpu, k)" for c' k'
    unfolding g(6) using that by (auto simp: s1_def)
  moreover have "endpoint_installed cpu p hs hr s s3" using g(5) unfolding endpoint_installed_def e1 t1 .
  ultimately show ?thesis using g(3,4,7-9) k(2,3) t1 by (intro exI [of _ hs] exI [of _ hr] exI [of _ s3] exI [of _ k]) auto
qed

section \<open>Delivery\<close>

text \<open>A caller that may send to the endpoint \<open>(c, k)\<close>, or receive from it.\<close>

definition may_use :: "kstate \<Rightarrow> tptr \<Rightarrow> u32 \<Rightarrow> u64 \<Rightarrow> nat \<Rightarrow> nat \<Rightarrow> bool" where
  "may_use s p h right c k \<longleftrightarrow>
     (\<exists>e. cap_table_lookup s (Some p) h CAP_TYPE_ENDPOINT right = (0, Some e) \<and> endpoint_by_ref s (ce_object_ref e) = Some (c, k))"

lemma ipc_capture_frame:
  "ks_tables t = ks_tables s \<Longrightarrow> ks_registry t = ks_registry s \<Longrightarrow> ipc_capture cpu p x r t = ipc_capture cpu p x r s"
  by (simp add: ipc_capture_def capture_frame [of t s])

text \<open>A send to an empty endpoint does not wait.\<close>

lemma send_empty:
  assumes "may_use s p h CAP_RIGHT_ENDPOINT_SEND c k" and "ep_state (ks_endpoints s c k) = IPC_ENDPOINT_STATE_READY"
    and "ep_has_msg (ks_endpoints s c k) = 0" and "bytes \<noteq> []" "length bytes \<le> IPC_PAYLOAD_MAX"
    and x: "ipc_capture cpu p x xr s = Some l" "x \<noteq> 0 \<longrightarrow> xr \<noteq> 0"
  shows "\<exists>q. ipc_endpoint_send env cpu cur (Some p) h (Some bytes) tm x xr s =
      Some (IPC_OK, ipc_wake_one RECEIVERS c k (upd_endpoint c k (ipc_store_msg q l zero_locator) s)) \<and>
    sn_payload q = bytes \<and> sn_cap_to_send q = x \<and> sn_reply_cap_to_send q = 0 \<and> sn_cap_send_rights q = xr"
proof -
  obtain e where e: "cap_table_lookup s (Some p) h CAP_TYPE_ENDPOINT CAP_RIGHT_ENDPOINT_SEND = (0, Some e)"
    "endpoint_by_ref s (ce_object_ref e) = Some (c, k)" using assms(1) by (auto simp: may_use_def)
  have z: "ipc_capture cpu p 0 r t = Some zero_locator" for r t by (simp add: ipc_capture_def)
  have "\<exists>ty. (if x = 0 then (CAP_TYPE_NONE, xr) else case cap_table_lookup s (Some p) x CAP_TYPE_NONE xr of
        (_, None) \<Rightarrow> (CAP_TYPE_NONE, xr) | (_, Some d) \<Rightarrow> (ce_type d, if xr = 0 then ce_rights d else xr)) = (ty, xr)"
  proof (cases "cap_table_lookup s (Some p) x CAP_TYPE_NONE xr")
    case (Pair a b)
    then show ?thesis using x(2) by (cases b) auto
  qed
  then obtain ty where ty: "(if x = 0 then (CAP_TYPE_NONE, xr) else case cap_table_lookup s (Some p) x CAP_TYPE_NONE xr of
        (_, None) \<Rightarrow> (CAP_TYPE_NONE, xr) | (_, Some d) \<Rightarrow> (ce_type d, if xr = 0 then ce_rights d else xr)) = (ty, xr)" by blast
  obtain q where q: "ipc_send_prepare cpu (Some p) h (Some bytes) tm x xr None s = Inr q" "sn_table q = p" "sn_send_cap q = h"
    "sn_object_ref q = ce_object_ref e" "sn_core q = c" "sn_slot q = k" "sn_payload q = bytes" "sn_cap_to_send q = x"
    "sn_cap_send_rights q = xr" "sn_reply_cap_to_send q = 0"
    using e assms(4,5) x(1) ty z by (simp add: ipc_send_prepare_def)
  have "ipc_send_recheck cpu q s = Inr (l, zero_locator)"
    unfolding send_recheck_Inr using q e(1) assms(2) x(1) z by simp
  then have "ipc_send_loop env cpu cur q s = Some (IPC_OK, ipc_wake_one RECEIVERS c k (upd_endpoint c k (ipc_store_msg q l zero_locator) s))"
    by (subst ipc_send_loop.simps) (simp add: q assms(3))
  then show ?thesis using q by (intro exI [of _ q]) (simp add: ipc_endpoint_send_def ipc_endpoint_send_ex_def)
qed

text \<open>A receive from an endpoint with a message does not wait either.\<close>

lemma recv_queued:
  assumes "may_use s p h CAP_RIGHT_ENDPOINT_RECEIVE c k" and "ep_state (ks_endpoints s c k) = IPC_ENDPOINT_STATE_READY"
    and "ep_has_msg (ks_endpoints s c k) = 1"
  shows "\<exists>q. ipc_recv_prepare p h tm s = Inr q \<and> rv_table q = p \<and> rv_core q = c \<and> rv_slot q = k \<and> ipc_recv_loop env cur q s = Some (None, s)"
proof -
  obtain e where e: "cap_table_lookup s (Some p) h CAP_TYPE_ENDPOINT CAP_RIGHT_ENDPOINT_RECEIVE = (0, Some e)"
    "endpoint_by_ref s (ce_object_ref e) = Some (c, k)" using assms(1) by (auto simp: may_use_def)
  obtain q where q: "ipc_recv_prepare p h tm s = Inr q" "rv_table q = p" "rv_recv_cap q = h" "rv_object_ref q = ce_object_ref e"
    "rv_core q = c" "rv_slot q = k"
    using e by (simp add: ipc_recv_prepare_def)
  have "ipc_recv_recheck q s = None" using q e(1) assms(2) by (simp add: ipc_recv_recheck_def)
  then have "ipc_recv_loop env cur q s = Some (None, s)" by (subst ipc_recv_loop.simps) (simp add: q assms(3))
  then show ?thesis using q by blast
qed

lemma store_msg_fields:
  "ep_state (ipc_store_msg q l r ep) = ep_state ep" "ep_in_use (ipc_store_msg q l r ep) = ep_in_use ep"
  "ep_generation (ipc_store_msg q l r ep) = ep_generation ep" "ep_has_msg (ipc_store_msg q l r ep) = 1"
  "msg_len (ep_msg (ipc_store_msg q l r ep)) = length (sn_payload q)" "ipc_msg_bytes (ep_msg (ipc_store_msg q l r ep)) = sn_payload q"
  "msg_cap_transfer_id (ep_msg (ipc_store_msg q l r ep)) = sn_cap_to_send q"
  by (simp_all add: ipc_store_msg_def ipc_msg_bytes_def)

lemma may_use_cong:
  assumes "ks_tables t = ks_tables s" and "\<And>c k. ep_in_use (ks_endpoints t c k) = ep_in_use (ks_endpoints s c k) \<and>
     ep_generation (ks_endpoints t c k) = ep_generation (ks_endpoints s c k)"
  shows "may_use t p h r c k = may_use s p h r c k"
  using lookup_frame [OF assms(1)] endpoint_by_ref_cong [of t s] assms(2) by (simp add: may_use_def)

text \<open>The rest of a receive, from the claim on, in the case that the capability is installed.\<close>

lemma recv_commit:
  assumes "ipc_recv_prepare p h tm s = Inr q" "rv_core q = c" "rv_slot q = k" "ipc_recv_loop env cur q s = Some (None, s)"
    and ep: "ep = ks_endpoints s c k" "ep_state ep = IPC_ENDPOINT_STATE_READY" "msg_len (ep_msg ep) \<le> cap" "cap \<noteq> 0"
    and claimed: "s2 = upd_endpoint c k ipc_claim s"
    and inst: "(if msg_cap_transfer_id (ep_msg ep) \<noteq> 0
        then bh_cap_transfer_install cpu (Some (ep_cap_transfer_source ep)) (Some p) (msg_cap_transfer_rights (ep_msg ep)) (Some 0) s2
        else (K_OK, s2, Some 0)) = (K_OK, s3, Some nh)"
    and quiet: "ks_endpoints (ie_claimed env s3) c k = (ks_endpoints s2 c k)\<lparr>ep_send_cap_refs := a, ep_recv_cap_refs := b\<rparr>"
  shows "\<exists>s4. ipc_endpoint_receive env cpu cur (Some p) h (Some buf) cap (Some n) tm (Some z) s =
      Some (IPC_OK, Some (ipc_msg_bytes (ep_msg ep) @ drop (msg_len (ep_msg ep)) buf), Some (msg_len (ep_msg ep)), Some nh, s4) \<and>
    ks_tables s4 = ks_tables (ie_claimed env s3) \<and> ep_has_msg (ks_endpoints s4 c k) = 0"
proof -
  define u where "u = upd_endpoint c k ipc_unclaim (ie_claimed env s3)"
  have e2: "ks_endpoints s2 c k = ipc_claim ep" by (simp add: claimed ep(1))
  have u: "ep_state (ks_endpoints u c k) = IPC_ENDPOINT_STATE_READY" "ep_msg (ks_endpoints u c k) = ep_msg ep"
    "ks_tables u = ks_tables (ie_claimed env s3)"
    using ep(2) by (simp_all add: u_def quiet e2 ipc_unclaim_def ipc_claim_def)
  have settle: "ipc_recv_settle env cpu q K_OK [nh] (ie_claimed env s3) = Some (Inr (), u)"
    using u(1) assms(2,3) by (simp add: ipc_recv_settle_def Let_def status_simps u_def)
  have "ipc_endpoint_receive env cpu cur (Some p) h (Some buf) cap (Some n) tm (Some z) s =
      Some (IPC_OK, Some (ipc_msg_bytes (ep_msg ep) @ drop (msg_len (ep_msg ep)) buf), Some (msg_len (ep_msg ep)), Some nh, ipc_recv_done q u)"
    unfolding ipc_endpoint_receive_def using assms(1-4) ep inst settle u(2)
    by (cases "msg_cap_transfer_id (ep_msg ep) = 0") (auto simp: claimed Let_def)
  moreover obtain w where "ks_endpoints (ipc_recv_done q u) c k = ep_set_waiters SENDERS w (ipc_endpoint_clear_msg_locked (ks_endpoints u c k))"
    using wake_one_endpoint(1) [of SENDERS c k "upd_endpoint c k ipc_endpoint_clear_msg_locked u"] assms(2,3) by (auto simp: ipc_recv_done_def)
  ultimately show ?thesis using u(3) by (simp add: ipc_recv_done_def ipc_endpoint_clear_msg_locked_def)
qed

text \<open>Installing a capability changes of the endpoints at most the reference counts.\<close>

definition refs_only :: "ipc_endpoint \<Rightarrow> ipc_endpoint \<Rightarrow> bool" where
  "refs_only d e \<longleftrightarrow> d = e\<lparr>ep_send_cap_refs := ep_send_cap_refs d, ep_recv_cap_refs := ep_recv_cap_refs d\<rparr>"

lemma refs_only_refl [simp]: "refs_only e e"
  by (simp add: refs_only_def)

lemma refs_only_trans: "refs_only c d \<Longrightarrow> refs_only d e \<Longrightarrow> refs_only c e"
  unfolding refs_only_def by (cases c; cases d; cases e) simp

lemma acquire_refs: "refs_only (ks_endpoints (cap_endpoint_ref_acquire ty ref r s) c k) (ks_endpoints s c k)"
proof -
  have 1: "refs_only (ks_endpoints (snd (ipc_endpoint_acquire_send_cap ref s)) c k) (ks_endpoints s c k)"
    "refs_only (ks_endpoints (snd (ipc_endpoint_acquire_recv_cap ref s)) c k) (ks_endpoints s c k)" for s
    by (auto simp: ipc_endpoint_acquire_send_cap_def ipc_endpoint_acquire_recv_cap_def Let_def refs_only_def split: option.split)
  show ?thesis unfolding cap_endpoint_ref_acquire_def Let_def using 1 refs_only_trans [OF 1(2) 1(1)] by (simp split: if_split)
qed

lemma install_refs:
  assumes "bh_cap_transfer_install cpu l d r out s = (st, s', h)"
  shows "refs_only (ks_endpoints s' c k) (ks_endpoints s c k)"
proof -
  have d: "refs_only (ks_endpoints s' c k) (ks_endpoints s c k)"
    if "cap_table_delegate_local src dst g r o1 ex s = (st, s', h)" for src dst g r o1 ex st s' h and s :: kstate
  proof -
    obtain a s1 where al: "cap_alloc_slot dst s = (a, s1)" by fastforce
    then have e1: "ks_endpoints s1 = ks_endpoints s" by (auto simp: cap_alloc_slot_def upd_table_def split: prod.splits if_splits)
    have "s' = s \<or> s' = s1 \<or> (\<exists>ty ref t. ks_endpoints t = ks_endpoints s1 \<and> s' = cap_endpoint_ref_acquire ty ref r t)"
      using that al unfolding cap_table_delegate_local_def
      by (auto simp: Let_def split: option.splits if_splits) (metis upd_entry_frame)+
    then show ?thesis using e1 acquire_refs by (metis refs_only_refl)
  qed
  show ?thesis
    using assms d unfolding bh_cap_transfer_install_def
    by (auto simp: Let_def split: option.splits if_splits prod.splits)
qed

text \<open>The endpoint after a send that did not wait.\<close>

lemma send_delivers:
  assumes use: "may_use s sp hs CAP_RIGHT_ENDPOINT_SEND c k" "may_use s rp hr CAP_RIGHT_ENDPOINT_RECEIVE c k"
    and ep: "ep_state (ks_endpoints s c k) = IPC_ENDPOINT_STATE_READY" "ep_has_msg (ks_endpoints s c k) = 0"
    and len: "bytes \<noteq> []" "length bytes \<le> IPC_PAYLOAD_MAX"
    and x: "ipc_capture cpu sp x xr s = Some l" "x \<noteq> 0 \<longrightarrow> xr \<noteq> 0"
  obtains s1 where "ipc_endpoint_send env cpu cur (Some sp) hs (Some bytes) tm x xr s = Some (IPC_OK, s1)"
    "ks_tables s1 = ks_tables s" "ks_registry s1 = ks_registry s" "ks_bootstrap_used s1 = ks_bootstrap_used s"
    "may_use s1 rp hr CAP_RIGHT_ENDPOINT_RECEIVE c k"
    "ep_state (ks_endpoints s1 c k) = IPC_ENDPOINT_STATE_READY" "ep_has_msg (ks_endpoints s1 c k) = 1"
    "msg_len (ep_msg (ks_endpoints s1 c k)) = length bytes" "ipc_msg_bytes (ep_msg (ks_endpoints s1 c k)) = bytes"
    "msg_cap_transfer_id (ep_msg (ks_endpoints s1 c k)) = x"
    "x \<noteq> 0 \<Longrightarrow> ep_cap_transfer_source (ks_endpoints s1 c k) = l \<and> msg_cap_transfer_rights (ep_msg (ks_endpoints s1 c k)) = xr"
proof -
  obtain q where q: "ipc_endpoint_send env cpu cur (Some sp) hs (Some bytes) tm x xr s =
      Some (IPC_OK, ipc_wake_one RECEIVERS c k (upd_endpoint c k (ipc_store_msg q l zero_locator) s))"
    "sn_payload q = bytes" "sn_cap_to_send q = x" "sn_cap_send_rights q = xr"
    using send_empty [OF use(1) ep len(1,2) x] by blast
  let ?s0 = "upd_endpoint c k (ipc_store_msg q l zero_locator) s"
  let ?s1 = "ipc_wake_one RECEIVERS c k ?s0"
  obtain w where w: "ks_endpoints ?s1 c k = ep_set_waiters RECEIVERS w (ipc_store_msg q l zero_locator (ks_endpoints s c k))"
    using wake_one_endpoint(1) [of RECEIVERS c k ?s0] by auto
  have others: "ks_endpoints ?s1 c' k' = ks_endpoints s c' k'" if "(c', k') \<noteq> (c, k)" for c' k'
    using wake_one_endpoint(2) [OF that, of RECEIVERS ?s0] that by auto
  have live: "ep_in_use (ks_endpoints ?s1 c' k') = ep_in_use (ks_endpoints s c' k') \<and> ep_generation (ks_endpoints ?s1 c' k') = ep_generation (ks_endpoints s c' k')" for c' k'
    by (cases "(c', k') = (c, k)") (use w others in \<open>auto simp: store_msg_fields\<close>)
  have "may_use ?s1 rp hr CAP_RIGHT_ENDPOINT_RECEIVE c k" using use(2) may_use_cong [OF _ live] by simp
  then show thesis
    using that [OF q(1)] ep(1) q(2-4) by (simp add: w store_msg_fields) (simp add: ipc_store_msg_def)
qed

text \<open>What the receiver finds in its table when the message carried a capability.\<close>

definition cap_received :: "kstate \<Rightarrow> tptr \<Rightarrow> u32 \<Rightarrow> capability_entry \<Rightarrow> u64 \<Rightarrow> bool" where
  "cap_received t rp h e rights \<longleftrightarrow> (\<exists>j < CAP_ENTRIES. h = cap_handle_of (of_nat j + 1) (ce_generation (entry_at t rp j)) \<and>
     ce_in_use (entry_at t rp j) \<and> ce_state (entry_at t rp j) = CAP_STATE_LIVE \<and> ce_rights (entry_at t rp j) = rights \<and>
     ce_object_ref (entry_at t rp j) = ce_object_ref e \<and> rights_of rights \<subseteq> rights_of (ce_rights e))"

lemma install_claimed:
  assumes wf: "caps_wf s" "cap_registered s cpu ka sp" "cap_registered s cpu kb rp"
    and same: "ks_tables t = ks_tables s" "ks_registry t = ks_registry s" "ks_bootstrap_used t = ks_bootstrap_used s"
    and x: "ipc_capture cpu sp x xr s = Some l"
    and room: "ida_used (ct_id_allocator (ks_tables s rp)) \<noteq> {..<CAP_ENTRIES}"
    and epoch: "\<And>i. i < CAP_ENTRIES \<Longrightarrow> ce_revocation_epoch (entry_at s sp i) < 2 ^ 32"
  obtains u h where "(if x \<noteq> 0 then bh_cap_transfer_install cpu (Some l) (Some rp) xr (Some 0) t else (K_OK, t, Some 0)) = (K_OK, u, Some h)"
    "x = 0 \<longrightarrow> h = 0 \<and> ks_tables u = ks_tables s" "x \<noteq> 0 \<longrightarrow> cap_received u rp h (entry_at s sp (unat (loc_slot l))) xr"
    "refs_only (ks_endpoints u c k) (ks_endpoints t c k)"
proof (cases "x = 0")
  case True
  then show thesis using that [of t 0] same by simp
next
  case False
  have cap: "bh_cap_transfer_capture cpu (Some sp) x xr (Some zero_locator) t = (K_OK, Some l)"
    using x False capture_frame [OF same(1,2), of cpu] by (auto simp: ipc_capture_def split: prod.splits if_splits)
  have reg: "cap_registered t cpu ka sp" "cap_registered t cpu kb rp" using wf(2,3) same(2) by (simp_all add: cap_registered_def)
  have wf2: "caps_wf t" using caps_wf_cong [OF same] wf(1) by simp
  have e: "entry_at t p i = entry_at s p i" for p i by (simp add: entry_at_def same)
  obtain u h where u: "bh_cap_transfer_install cpu (Some l) (Some rp) xr (Some 0) t = (K_OK, u, Some h)"
    "cap_received u rp h (entry_at s sp (unat (loc_slot l))) xr"
    using conjunct1 [OF transfer_capture_install [OF wf2 reg cap, of 0]] room epoch same(1) unfolding e cap_received_def by auto
  then show thesis using that [of u h] False install_refs [OF u(1)] by simp
qed

section \<open>Properties\<close>

text \<open>
  C6: A message arrives, and so does the capability it carries. A sender with the right to send to an
  endpoint that is ready and empty sends any payload that fits, and with it no capability or one
  that it may hand on. The send succeeds at once. The next receive, by a holder of the right to receive
  whose buffer is large enough and whose table, on the same core, has room, returns exactly the
  payload and its length, and leaves the endpoint empty. Its handle is 0 and no table has changed if
  no capability was sent. Otherwise it is the handle of a live capability in the receiver's table for the
  sender's object, with the rights of the message, which are among the sender's.
\<close>

theorem ipc_message_delivered:
  assumes wf: "caps_wf s" "cap_registered s cpu ka sp" "cap_registered s cpu kb rp"
    and use: "may_use s sp hs CAP_RIGHT_ENDPOINT_SEND c k" "may_use s rp hr CAP_RIGHT_ENDPOINT_RECEIVE c k"
    and ep: "ep_state (ks_endpoints s c k) = IPC_ENDPOINT_STATE_READY" "ep_has_msg (ks_endpoints s c k) = 0"
    and len: "bytes \<noteq> []" "length bytes \<le> IPC_PAYLOAD_MAX" "length bytes \<le> cap"
    and x: "ipc_capture cpu sp x xr s = Some l" "x \<noteq> 0 \<longrightarrow> xr \<noteq> 0"
    and room: "ida_used (ct_id_allocator (ks_tables s rp)) \<noteq> {..<CAP_ENTRIES}"
    and epoch: "\<And>i. i < CAP_ENTRIES \<Longrightarrow> ce_revocation_epoch (entry_at s sp i) < 2 ^ 32"
    and quiet: "\<And>t. ks_endpoints (ie_claimed env t) = ks_endpoints t \<and> ks_tables (ie_claimed env t) = ks_tables t"
  shows "\<exists>s1 s2 h. ipc_endpoint_send env cpu cur (Some sp) hs (Some bytes) tm x xr s = Some (IPC_OK, s1) \<and>
    ipc_endpoint_receive env cpu cur' (Some rp) hr (Some buf) cap (Some n) tm' (Some z) s1 =
      Some (IPC_OK, Some (bytes @ drop (length bytes) buf), Some (length bytes), Some h, s2) \<and>
    ep_has_msg (ks_endpoints s2 c k) = 0 \<and> (x = 0 \<longrightarrow> h = 0 \<and> ks_tables s2 = ks_tables s) \<and>
    (x \<noteq> 0 \<longrightarrow> cap_received s2 rp h (entry_at s sp (unat (loc_slot l))) xr)"
proof -
  obtain s1 where s1: "ipc_endpoint_send env cpu cur (Some sp) hs (Some bytes) tm x xr s = Some (IPC_OK, s1)"
    "ks_tables s1 = ks_tables s" "ks_registry s1 = ks_registry s" "ks_bootstrap_used s1 = ks_bootstrap_used s"
    "may_use s1 rp hr CAP_RIGHT_ENDPOINT_RECEIVE c k"
    "ep_state (ks_endpoints s1 c k) = IPC_ENDPOINT_STATE_READY" "ep_has_msg (ks_endpoints s1 c k) = 1"
    "msg_len (ep_msg (ks_endpoints s1 c k)) = length bytes" "ipc_msg_bytes (ep_msg (ks_endpoints s1 c k)) = bytes"
    "msg_cap_transfer_id (ep_msg (ks_endpoints s1 c k)) = x"
    "x \<noteq> 0 \<Longrightarrow> ep_cap_transfer_source (ks_endpoints s1 c k) = l \<and> msg_cap_transfer_rights (ep_msg (ks_endpoints s1 c k)) = xr"
    by (rule send_delivers [OF use ep len(1,2) x, of env cur tm]) blast
  obtain r where r: "ipc_recv_prepare rp hr tm' s1 = Inr r" "rv_core r = c" "rv_slot r = k" "ipc_recv_loop env cur' r s1 = Some (None, s1)"
    using recv_queued [OF s1(5-7)] by blast
  define s2 where "s2 = upd_endpoint c k ipc_claim s1"
  have t2: "ks_tables s2 = ks_tables s" "ks_registry s2 = ks_registry s" "ks_bootstrap_used s2 = ks_bootstrap_used s"
    by (simp_all add: s2_def s1)
  obtain s3 h where i: "(if x \<noteq> 0 then bh_cap_transfer_install cpu (Some l) (Some rp) xr (Some 0) s2 else (K_OK, s2, Some 0)) = (K_OK, s3, Some h)"
    "x = 0 \<longrightarrow> h = 0 \<and> ks_tables s3 = ks_tables s" "x \<noteq> 0 \<longrightarrow> cap_received s3 rp h (entry_at s sp (unat (loc_slot l))) xr"
    "refs_only (ks_endpoints s3 c k) (ks_endpoints s2 c k)"
    by (rule install_claimed [OF wf t2 x(1) room epoch])
  have qt: "ks_endpoints (ie_claimed env s3) c k = (ks_endpoints s2 c k)\<lparr>ep_send_cap_refs := ep_send_cap_refs (ks_endpoints s3 c k),
      ep_recv_cap_refs := ep_recv_cap_refs (ks_endpoints s3 c k)\<rparr>"
    using quiet i(4) by (simp add: refs_only_def)
  have inst: "(if msg_cap_transfer_id (ep_msg (ks_endpoints s1 c k)) \<noteq> 0
      then bh_cap_transfer_install cpu (Some (ep_cap_transfer_source (ks_endpoints s1 c k))) (Some rp) (msg_cap_transfer_rights (ep_msg (ks_endpoints s1 c k))) (Some 0) s2
      else (K_OK, s2, Some 0)) = (K_OK, s3, Some h)"
    using i(1) s1(10,11) by (cases "x = 0") simp_all
  have capb: "msg_len (ep_msg (ks_endpoints s1 c k)) \<le> cap" using s1(8) len(3) by simp
  have capz: "cap \<noteq> 0" using len(1,3) by (cases bytes) auto
  from recv_commit [OF r refl s1(6) capb capz s2_def inst qt, of buf n z]
  obtain s4 where s4: "ipc_endpoint_receive env cpu cur' (Some rp) hr (Some buf) cap (Some n) tm' (Some z) s1 =
      Some (IPC_OK, Some (bytes @ drop (length bytes) buf), Some (length bytes), Some h, s4)"
    "ks_tables s4 = ks_tables s3" "ep_has_msg (ks_endpoints s4 c k) = 0"
    using s1(8,9) quiet by auto
  have "entry_at s4 = entry_at s3" using s4(2) by (simp add: entry_at_def fun_eq_iff)
  then show ?thesis using s1(1) s4 i(2,3) by (intro exI [of _ s1] exI [of _ s4] exI [of _ h]) (simp add: cap_received_def)
qed

lemma send_prepare_Inr:
  assumes "ipc_send_prepare cpu table h payload tm x xr prov s = Inr q"
  shows "\<exists>p bytes (e :: capability_entry). table = Some p \<and> payload = Some bytes \<and> bytes \<noteq> [] \<and> length bytes \<le> 128 \<and> sn_table q = p \<and> sn_send_cap q = h \<and>
    sn_object_ref q = ce_object_ref e \<and> endpoint_by_ref s (ce_object_ref e) = Some (sn_core q, sn_slot q) \<and>
    sn_payload q = bytes \<and> sn_cap_to_send q = x \<and> sn_reply_cap_to_send q = (case prov of None \<Rightarrow> 0 | Some v \<Rightarrow> pv_reply_cap_to_send v)"
proof -
  obtain p bytes where tp: "table = Some p" "payload = Some bytes" "bytes \<noteq> []"
    using assms unfolding ipc_send_prepare_def by (cases table; cases payload; cases "payload = Some []") simp_all
  obtain r e where l: "cap_table_lookup s (Some p) h CAP_TYPE_ENDPOINT CAP_RIGHT_ENDPOINT_SEND = (r, Some e)"
    using assms tp unfolding ipc_send_prepare_def
    by (cases "cap_table_lookup s (Some p) h CAP_TYPE_ENDPOINT CAP_RIGHT_ENDPOINT_SEND"; cases "snd (cap_table_lookup s (Some p) h CAP_TYPE_ENDPOINT CAP_RIGHT_ENDPOINT_SEND)") simp_all
  obtain c k where ck: "endpoint_by_ref s (ce_object_ref e) = Some (c, k)"
    using assms tp l unfolding ipc_send_prepare_def by (cases "endpoint_by_ref s (ce_object_ref e)") auto
  obtain ty rights where tr: "(if x = 0 then (CAP_TYPE_NONE, xr)
      else case cap_table_lookup s (Some p) x CAP_TYPE_NONE xr of (_, None) \<Rightarrow> (CAP_TYPE_NONE, xr)
           | (_, Some y) \<Rightarrow> (ce_type y, if xr = 0 then ce_rights y else xr)) = (ty, rights)" by fastforce
  have len: "length bytes \<le> 128" using assms tp l ck unfolding ipc_send_prepare_def by (simp split: if_split_asm)
  show ?thesis
    by (rule exI [of _ p], rule exI [of _ bytes], rule exI [of _ e])
       (use assms in \<open>auto simp: ipc_send_prepare_def tp l ck tr len Let_def split: if_split_asm\<close>)
qed



text \<open>
  C8: Creating an endpoint. If a slot of the core's array is free and the caller's table has room for two
  capabilities, creation succeeds: it takes a free slot, makes the endpoint ready, empty and unowned by
  waiters, and grants the table exactly two handles, which resolve to this endpoint, one with the rights
  to send and delegate and one with the rights to receive and delegate. The endpoint counts one
  reference of each kind. Every other endpoint, every other entry of the table and every other table are
  as before, and the capability space stays well formed.
\<close>

theorem ipc_create_endpoint:
  assumes "caps_wf s" "cap_registered s cpu kk p" and "i < IPC_ENDPOINTS_PER_CORE" "\<not> ep_in_use (ks_endpoints s cpu i)"
    and "card (ida_used (ct_id_allocator (ks_tables s p))) + 2 \<le> CAP_ENTRIES"
    and "\<And>j. j < CAP_ENTRIES \<Longrightarrow> ce_generation (entry_at s p j) < 0xFFFF"
  shows "\<exists>hs hr s' k. ipc_endpoint_create env cpu (Some p) (Some x) (Some y) s = Some (IPC_OK, Some hs, Some hr, s') \<and>
    caps_wf s' \<and> k < IPC_ENDPOINTS_PER_CORE \<and> \<not> ep_in_use (ks_endpoints s cpu k) \<and>
    endpoint_pair s' p cpu k hs hr \<and> endpoint_installed cpu p hs hr s s' \<and>
    ks_endpoints s' cpu k = (endpoint_fresh cpu (ks_endpoints s cpu k))\<lparr>ep_send_cap_refs := 1, ep_recv_cap_refs := 1\<rparr> \<and>
    (\<forall>c' k'. (c', k') \<noteq> (cpu, k) \<longrightarrow> ks_endpoints s' c' k' = ks_endpoints s c' k') \<and>
    (\<forall>q. q \<noteq> p \<longrightarrow> ks_tables s' q = ks_tables s q) \<and> ks_registry s' = ks_registry s \<and> ks_tx s' = ks_tx s"
  by (rule ipc_create_ok [OF assms])

text \<open>A state with a free endpoint slot, and an environment in which nothing else happens.\<close>

definition sample_ipc :: kstate where
  "sample_ipc = upd_endpoint 0 3 (\<lambda>ep. ep\<lparr>ep_in_use := False\<rparr>) sample_two"

definition sample_env :: ipc_env where
  "sample_env = \<lparr>ie_blocked = id, ie_claimed = id, ie_wait = id, ie_pin_wait = id\<rparr>"

lemma sample_ipc_facts:
  "caps_wf sample_ipc" "cap_registered sample_ipc 0 0 (Heap_Table 0)" "\<not> ep_in_use (ks_endpoints sample_ipc 0 3)"
  "card (ida_used (ct_id_allocator (ks_tables sample_ipc (Heap_Table 0)))) + 2 \<le> CAP_ENTRIES"
  "\<And>j. j < CAP_ENTRIES \<Longrightarrow> entry_at sample_ipc (Heap_Table 0) j = zero_entry"
proof -
  show "caps_wf sample_ipc" "cap_registered sample_ipc 0 0 (Heap_Table 0)"
    using sample_two_facts(1,2) caps_wf_cong [of sample_ipc sample_two] by (simp_all add: sample_ipc_def cap_registered_def)
  show "card (ida_used (ct_id_allocator (ks_tables sample_ipc (Heap_Table 0)))) + 2 \<le> CAP_ENTRIES"
    by (simp add: sample_ipc_def sample_two_facts(4) fresh_table_used)
qed (simp_all add: sample_ipc_def entry_at_def sample_two_facts(4) fresh_table_def)

theorem ipc_create_endpoint_witness:
  "\<exists>hs hr s' k. ipc_endpoint_create sample_env 0 (Some (Heap_Table 0)) (Some 0) (Some 0) sample_ipc = Some (IPC_OK, Some hs, Some hr, s') \<and>
     endpoint_pair s' (Heap_Table 0) 0 k hs hr"
proof -
  have "ce_generation (entry_at sample_ipc (Heap_Table 0) j) < 0xFFFF" if "j < CAP_ENTRIES" for j
    using sample_ipc_facts(5) [OF that] by (simp add: zero_entry_def)
  from ipc_create_endpoint [OF sample_ipc_facts(1,2) _ sample_ipc_facts(3,4) this, of sample_env 0 0] show ?thesis by auto
qed

text \<open>The endpoint that the witness creates, with the capabilities for it.\<close>

lemma sample_ipc_created:
  obtains hs hr l s k where
    "caps_wf s" "cap_registered s 0 0 (Heap_Table 0)"
    "may_use s (Heap_Table 0) hs CAP_RIGHT_ENDPOINT_SEND 0 k" "may_use s (Heap_Table 0) hr CAP_RIGHT_ENDPOINT_RECEIVE 0 k"
    "ep_state (ks_endpoints s 0 k) = IPC_ENDPOINT_STATE_READY" "ep_has_msg (ks_endpoints s 0 k) = 0"
    "ipc_capture 0 (Heap_Table 0) hs CAP_RIGHT_ENDPOINT_SEND s = Some l" "hs \<noteq> 0"
    "ida_used (ct_id_allocator (ks_tables s (Heap_Table 0))) \<noteq> {..<CAP_ENTRIES}"
    "\<And>i. i < CAP_ENTRIES \<Longrightarrow> ce_revocation_epoch (entry_at s (Heap_Table 0) i) < 2 ^ 32"
    "ipc_endpoint_create sample_env 0 (Some (Heap_Table 0)) (Some 0) (Some 0) sample_ipc = Some (IPC_OK, Some hs, Some hr, s)"
proof -
  have g: "ce_generation (entry_at sample_ipc (Heap_Table 0) j) < 0xFFFF" if "j < CAP_ENTRIES" for j
    using sample_ipc_facts(5) [OF that] by (simp add: zero_entry_def)
  obtain hs hr s k where c: "ipc_endpoint_create sample_env 0 (Some (Heap_Table 0)) (Some 0) (Some 0) sample_ipc = Some (IPC_OK, Some hs, Some hr, s)"
    "caps_wf s" "endpoint_pair s (Heap_Table 0) 0 k hs hr" "endpoint_installed 0 (Heap_Table 0) hs hr sample_ipc s"
    "ks_endpoints s 0 k = (endpoint_fresh 0 (ks_endpoints sample_ipc 0 k))\<lparr>ep_send_cap_refs := 1, ep_recv_cap_refs := 1\<rparr>"
    "ks_registry s = ks_registry sample_ipc"
    using ipc_create_ok [OF sample_ipc_facts(1,2) _ sample_ipc_facts(3,4) g, of sample_env 0 0] by auto
  have reg: "cap_registered s 0 0 (Heap_Table 0)" using sample_ipc_facts(2) c(6) by (simp add: cap_registered_def)
  obtain a b ref where i: "a < 64" "b < 64" "a \<noteq> b"
    "hs = cap_handle_of (of_nat a + 1) (ce_generation (entry_at sample_ipc (Heap_Table 0) a) + 1)"
    "entry_at s (Heap_Table 0) a = cap_grant_entry 0 a CAP_TYPE_ENDPOINT ref (CAP_RIGHT_ENDPOINT_SEND OR CAP_RIGHT_DELEGATE) (entry_at sample_ipc (Heap_Table 0) a)"
    "entry_at s (Heap_Table 0) b = cap_grant_entry 0 b CAP_TYPE_ENDPOINT ref (CAP_RIGHT_ENDPOINT_RECEIVE OR CAP_RIGHT_DELEGATE) (entry_at sample_ipc (Heap_Table 0) b)"
    "\<forall>j < 64. j \<noteq> a \<and> j \<noteq> b \<longrightarrow> entry_at s (Heap_Table 0) j = entry_at sample_ipc (Heap_Table 0) j"
    "ida_used (ct_id_allocator (ks_tables s (Heap_Table 0))) = insert a (insert b (ida_used (ct_id_allocator (ks_tables sample_ipc (Heap_Table 0)))))"
    using c(4) unfolding endpoint_installed_def by blast
  have h: "hs = cap_handle_of (of_nat a + 1) 1" using i(4) sample_ipc_facts(5) [of a] i(1) by (simp add: zero_entry_def)
  have can: "cap_can_transfer CAP_TYPE_ENDPOINT (CAP_RIGHT_ENDPOINT_SEND OR CAP_RIGHT_DELEGATE) CAP_RIGHT_ENDPOINT_SEND"
    using send_valid send_rights by (simp add: cap_can_transfer_iff cap_rights_valid_def)
  have "bh_cap_transfer_capture 0 (Some (Heap_Table 0)) hs CAP_RIGHT_ENDPOINT_SEND (Some zero_locator) s =
      (K_OK, Some (cap_locator_make (Some (ks_tables s (Heap_Table 0))) a 1 (ucast (ce_revocation_epoch (entry_at s (Heap_Table 0) a)))))"
    unfolding h by (rule cap_capture_handle [OF c(2) reg])
      (use i(1,5) sample_ipc_facts(5) [of a] can in \<open>simp_all add: cap_grant_entry_def zero_entry_def rights_simps\<close>)
  then obtain l where l: "ipc_capture 0 (Heap_Table 0) hs CAP_RIGHT_ENDPOINT_SEND s = Some l"
    by (cases "hs = 0") (auto simp: ipc_capture_def)
  have nz: "hs \<noteq> 0"
    using handle_index [of "of_nat a + 1" 1] slot_id_bound [OF i(1)] h by (auto simp: bh_cap_index_def)
  have ep: "ce_revocation_epoch (entry_at s (Heap_Table 0) j) < 2 ^ 32" if "j < 64" for j
    using i(5-7) that sample_ipc_facts(5) [of j] by (cases "j = a"; cases "j = b") (simp_all add: cap_grant_entry_def zero_entry_def)
  have room: "ida_used (ct_id_allocator (ks_tables s (Heap_Table 0))) \<noteq> {..<64}"
    unfolding i(8) by (rule room_card) (use i(3) in \<open>simp add: sample_ipc_def sample_two_facts(4) fresh_table_used\<close>)
  have use: "may_use s (Heap_Table 0) hs CAP_RIGHT_ENDPOINT_SEND 0 k" "may_use s (Heap_Table 0) hr CAP_RIGHT_ENDPOINT_RECEIVE 0 k"
    "ep_state (ks_endpoints s 0 k) = IPC_ENDPOINT_STATE_READY"
    using c(3) unfolding endpoint_pair_def may_use_def by auto
  have m: "ep_has_msg (ks_endpoints s 0 k) = 0" unfolding c(5) by (simp add: endpoint_fresh_def ipc_endpoint_clear_msg_locked_def)
  show thesis by (rule that [OF c(2) reg use m l nz room ep c(1)])
qed

theorem ipc_message_delivered_witness:
  "\<exists>hs hr s s1 s2 h e. ipc_endpoint_create sample_env 0 (Some (Heap_Table 0)) (Some 0) (Some 0) sample_ipc = Some (IPC_OK, Some hs, Some hr, s) \<and>
     ipc_endpoint_send sample_env 0 None (Some (Heap_Table 0)) hs (Some [1, 2, 3]) 0 hs CAP_RIGHT_ENDPOINT_SEND s = Some (IPC_OK, s1) \<and>
     ipc_endpoint_receive sample_env 0 None (Some (Heap_Table 0)) hr (Some [0, 0, 0, 0]) 4 (Some 0) 0 (Some 0) s1 =
       Some (IPC_OK, Some [1, 2, 3, 0], Some 3, Some h, s2) \<and>
     cap_received s2 (Heap_Table 0) h e CAP_RIGHT_ENDPOINT_SEND"
proof (rule sample_ipc_created)
  fix hs hr l s k
  assume A: "caps_wf s" "cap_registered s 0 0 (Heap_Table 0)"
    "may_use s (Heap_Table 0) hs CAP_RIGHT_ENDPOINT_SEND 0 k" "may_use s (Heap_Table 0) hr CAP_RIGHT_ENDPOINT_RECEIVE 0 k"
    "ep_state (ks_endpoints s 0 k) = IPC_ENDPOINT_STATE_READY" "ep_has_msg (ks_endpoints s 0 k) = 0"
    and B: "ipc_capture 0 (Heap_Table 0) hs CAP_RIGHT_ENDPOINT_SEND s = Some l" "hs \<noteq> 0"
    and C: "ida_used (ct_id_allocator (ks_tables s (Heap_Table 0))) \<noteq> {..<CAP_ENTRIES}"
      "\<And>i. i < CAP_ENTRIES \<Longrightarrow> ce_revocation_epoch (entry_at s (Heap_Table 0) i) < 2 ^ 32"
    and D: "ipc_endpoint_create sample_env 0 (Some (Heap_Table 0)) (Some 0) (Some 0) sample_ipc = Some (IPC_OK, Some hs, Some hr, s)"
  have r: "hs \<noteq> 0 \<longrightarrow> CAP_RIGHT_ENDPOINT_SEND \<noteq> 0" by (simp add: rights_simps)
  have q: "ks_endpoints (ie_claimed sample_env t) = ks_endpoints t \<and> ks_tables (ie_claimed sample_env t) = ks_tables t" for t
    by (simp add: sample_env_def)
  have "[1, 2, 3 :: u8] \<noteq> []" "length [1, 2, 3 :: u8] \<le> IPC_PAYLOAD_MAX" "length [1, 2, 3 :: u8] \<le> 4" by simp_all
  from ipc_message_delivered [OF A(1,2,2-6) this B(1) r C q, of None 0 None "[0, 0, 0, 0]" 0 0 0] D B(2)
  show ?thesis by (force simp: numeral_3_eq_3)
qed



section \<open>A wake-up that is lost\<close>

text \<open>
  A receiver puts itself on the queue, gives the lock back and only then marks itself blocked. A send
  that runs in between finds it on the queue but not blocked. The dequeue takes such a thread for one
  that a timeout has already woken, so it drops it from the queue without waking it. The receiver
  then blocks, with the message stored and no longer on any queue.
\<close>

lemma wake_one_drops_running_waiter:
  assumes "ep_receivers (ks_endpoints s c k) = [t]" and "\<not> th_blocked (ks_threads s t)"
  shows "ep_receivers (ks_endpoints (ipc_wake_one RECEIVERS c k s) c k) = []"
    and "ks_threads (ipc_wake_one RECEIVERS c k s) t = ks_threads s t"
  using assms by (simp_all add: ipc_wake_one_def sched_wait_queue_dequeue_def)

end
