(* ===== verification/Elf_Image.thy ===== *)
theory Elf_Image
  imports Prelude "HOL-Library.Monad_Syntax"
begin

text \<open>
  The ELF parser (src/core/lib/elf/elf_parser.c) and the load plan the kernel makes from an image
  before it starts a program (src/core/lib/elf/elf_load_plan.c).

  An image is its list of bytes; the size argument of the C functions is its length. A field of a
  header is read by \<open>fetch\<close>, which is \<open>None\<close> for a read that reaches outside the image, so a function
  whose result is not \<open>None\<close> has read only bytes of the image. The other undefined behaviour of this code,
  the overflow of the signed product of a header's index and its size, is \<open>None\<close> as well. All
  supported machines are little-endian, and the headers have no padding. A pointer to a structure
  that the code writes is an option of its contents.
\<close>

section \<open>Reading fields\<close>

primrec le_word :: "u8 list \<Rightarrow> 'a::len word" where
  "le_word [] = 0"
| "le_word (b # bs) = ucast b OR push_bit 8 (le_word bs)"

definition fetch :: "u8 list \<Rightarrow> nat \<Rightarrow> nat \<Rightarrow> 'a::len word option" where
  "fetch bytes off n = (if off + n \<le> length bytes then Some (le_word (take n (drop off bytes))) else None)"

section \<open>The parser\<close>

datatype elf_parse_status = ELF_PARSE_OK | ELF_PARSE_ERR_INVALID_MAGIC | ELF_PARSE_ERR_UNSUPPORTED_CLASS
  | ELF_PARSE_ERR_UNSUPPORTED_ENDIANNESS | ELF_PARSE_ERR_INVALID_VERSION | ELF_PARSE_ERR_BUFFER_TOO_SMALL
  | ELF_PARSE_ERR_MALFORMED

record elf_summary =
  es_entry_point :: u64
  es_program_header_count :: u16
  es_program_header_offset :: u64
  es_program_header_entry_size :: u16

record elf_segment =
  sg_virtual_address :: u64
  sg_physical_address :: u64
  sg_file_offset :: u64
  sg_file_size :: u64
  sg_memory_size :: u64
  sg_flags :: u32
  sg_alignment :: u64

text \<open>The fields of the two file headers that the code reads, at the width it converts them to.\<close>

record elf_ehdr =
  eh_type :: u16
  eh_version :: u32
  eh_entry :: u64
  eh_phoff :: u64
  eh_phentsize :: u16
  eh_phnum :: u16

definition elf32_ehdr :: "u8 list \<Rightarrow> elf_ehdr option" where
  "elf32_ehdr bytes = do {
     ty \<leftarrow> fetch bytes 16 2;
     version \<leftarrow> fetch bytes 20 4;
     entry \<leftarrow> (fetch bytes 24 4 :: u32 option);
     phoff \<leftarrow> (fetch bytes 28 4 :: u32 option);
     phentsize \<leftarrow> fetch bytes 42 2;
     phnum \<leftarrow> fetch bytes 44 2;
     Some \<lparr>eh_type = ty, eh_version = version, eh_entry = ucast entry, eh_phoff = ucast phoff,
           eh_phentsize = phentsize, eh_phnum = phnum\<rparr> }"

definition elf64_ehdr :: "u8 list \<Rightarrow> elf_ehdr option" where
  "elf64_ehdr bytes = do {
     ty \<leftarrow> fetch bytes 16 2;
     version \<leftarrow> fetch bytes 20 4;
     entry \<leftarrow> fetch bytes 24 8;
     phoff \<leftarrow> fetch bytes 32 8;
     phentsize \<leftarrow> fetch bytes 54 2;
     phnum \<leftarrow> fetch bytes 56 2;
     Some \<lparr>eh_type = ty, eh_version = version, eh_entry = entry, eh_phoff = phoff,
           eh_phentsize = phentsize, eh_phnum = phnum\<rparr> }"

text \<open>A program header; the two classes order the fields differently.\<close>

record elf_phdr =
  ph_type :: u32
  ph_flags :: u32
  ph_offset :: u64
  ph_vaddr :: u64
  ph_paddr :: u64
  ph_filesz :: u64
  ph_memsz :: u64
  ph_align :: u64

definition elf32_phdr :: "u8 list \<Rightarrow> nat \<Rightarrow> elf_phdr option" where
  "elf32_phdr bytes off = do {
     ty \<leftarrow> fetch bytes off 4;
     offset \<leftarrow> (fetch bytes (off + 4) 4 :: u32 option);
     vaddr \<leftarrow> (fetch bytes (off + 8) 4 :: u32 option);
     paddr \<leftarrow> (fetch bytes (off + 12) 4 :: u32 option);
     filesz \<leftarrow> (fetch bytes (off + 16) 4 :: u32 option);
     memsz \<leftarrow> (fetch bytes (off + 20) 4 :: u32 option);
     flags \<leftarrow> fetch bytes (off + 24) 4;
     align \<leftarrow> (fetch bytes (off + 28) 4 :: u32 option);
     Some \<lparr>ph_type = ty, ph_flags = flags, ph_offset = ucast offset, ph_vaddr = ucast vaddr, ph_paddr = ucast paddr,
           ph_filesz = ucast filesz, ph_memsz = ucast memsz, ph_align = ucast align\<rparr> }"

definition elf64_phdr :: "u8 list \<Rightarrow> nat \<Rightarrow> elf_phdr option" where
  "elf64_phdr bytes off = do {
     ty \<leftarrow> fetch bytes off 4;
     flags \<leftarrow> fetch bytes (off + 4) 4;
     offset \<leftarrow> fetch bytes (off + 8) 8;
     vaddr \<leftarrow> fetch bytes (off + 16) 8;
     paddr \<leftarrow> fetch bytes (off + 24) 8;
     filesz \<leftarrow> fetch bytes (off + 32) 8;
     memsz \<leftarrow> fetch bytes (off + 40) 8;
     align \<leftarrow> fetch bytes (off + 48) 8;
     Some \<lparr>ph_type = ty, ph_flags = flags, ph_offset = offset, ph_vaddr = vaddr, ph_paddr = paddr,
           ph_filesz = filesz, ph_memsz = memsz, ph_align = align\<rparr> }"

text \<open>The checks that both branches of \<open>elf_parse_image\<close> make, for a header of the size given.\<close>

definition elf_check_ehdr :: "u8 list \<Rightarrow> nat \<Rightarrow> elf_ehdr \<Rightarrow> elf_summary \<Rightarrow> elf_parse_status \<times> elf_summary" where
  "elf_check_ehdr bytes phdr_size ehdr summary =
     (if eh_version ehdr \<noteq> 1 then (ELF_PARSE_ERR_INVALID_VERSION, summary)
      else if eh_type ehdr \<noteq> 2 \<and> eh_type ehdr \<noteq> 3 then (ELF_PARSE_ERR_MALFORMED, summary)
      else if unat (eh_phentsize ehdr) < phdr_size then (ELF_PARSE_ERR_MALFORMED, summary)
      else let ph_table_size = unat (eh_phentsize ehdr) * unat (eh_phnum ehdr)
      in if unat (eh_phoff ehdr) > length bytes \<or> ph_table_size > length bytes - unat (eh_phoff ehdr)
         then (ELF_PARSE_ERR_MALFORMED, summary)
         else (ELF_PARSE_OK, \<lparr>es_entry_point = eh_entry ehdr, es_program_header_count = eh_phnum ehdr,
                              es_program_header_offset = eh_phoff ehdr, es_program_header_entry_size = eh_phentsize ehdr\<rparr>))"

definition elf_parse_image :: "u8 list option \<Rightarrow> elf_summary option \<Rightarrow> (elf_parse_status \<times> elf_summary option) option" where
  "elf_parse_image img out =
     (case (img, out) of
        (Some bytes, Some summary) \<Rightarrow>
          if length bytes < 16 then Some (ELF_PARSE_ERR_BUFFER_TOO_SMALL, out)
          else do {
            m0 \<leftarrow> fetch bytes 0 1; m1 \<leftarrow> fetch bytes 1 1; m2 \<leftarrow> fetch bytes 2 1; m3 \<leftarrow> fetch bytes 3 1;
            if (m0 :: u8) \<noteq> 0x7f \<or> (m1 :: u8) \<noteq> 0x45 \<or> (m2 :: u8) \<noteq> 0x4C \<or> (m3 :: u8) \<noteq> 0x46
            then Some (ELF_PARSE_ERR_INVALID_MAGIC, out)
            else do {
              elf_class \<leftarrow> (fetch bytes 4 1 :: u8 option);
              data \<leftarrow> (fetch bytes 5 1 :: u8 option);
              version \<leftarrow> (fetch bytes 6 1 :: u8 option);
              if elf_class \<noteq> 1 \<and> elf_class \<noteq> 2 then Some (ELF_PARSE_ERR_UNSUPPORTED_CLASS, out)
              else if data \<noteq> 1 then Some (ELF_PARSE_ERR_UNSUPPORTED_ENDIANNESS, out)
              else if version \<noteq> 1 then Some (ELF_PARSE_ERR_INVALID_VERSION, out)
              else if elf_class = 1
              then if length bytes < 52 then Some (ELF_PARSE_ERR_BUFFER_TOO_SMALL, out)
                   else do { ehdr \<leftarrow> elf32_ehdr bytes;
                             let (st, sm) = elf_check_ehdr bytes 32 ehdr summary in Some (st, Some sm) }
              else if length bytes < 64 then Some (ELF_PARSE_ERR_BUFFER_TOO_SMALL, out)
                   else do { ehdr \<leftarrow> elf64_ehdr bytes;
                             let (st, sm) = elf_check_ehdr bytes 56 ehdr summary in Some (st, Some sm) } } }
      | _ \<Rightarrow> Some (ELF_PARSE_ERR_MALFORMED, out))"

text \<open>
  The offset of the program header of an index. The product is computed in \<^verbatim>\<open>int\<close>.
\<close>

definition elf_phdr_offset :: "elf_summary \<Rightarrow> nat \<Rightarrow> nat option" where
  "elf_phdr_offset summary i =
     (let d = i * unat (es_program_header_entry_size summary)
      in if d < 2 ^ 31 then Some (unat (es_program_header_offset summary + of_nat d)) else None)"

fun elf_count_loads :: "u8 list \<Rightarrow> elf_summary \<Rightarrow> nat list \<Rightarrow> nat \<Rightarrow> nat option" where
  "elf_count_loads bytes summary [] load_count = Some load_count"
| "elf_count_loads bytes summary (i # is) load_count = do {
     offset \<leftarrow> elf_phdr_offset summary i;
     p_type \<leftarrow> (fetch bytes offset 4 :: u32 option);
     elf_count_loads bytes summary is (if p_type = 1 then load_count + 1 else load_count) }"

definition zero_summary :: elf_summary where
  "zero_summary = \<lparr>es_entry_point = 0, es_program_header_count = 0, es_program_header_offset = 0,
                   es_program_header_entry_size = 0\<rparr>"

definition elf_get_load_segment_count :: "u8 list option \<Rightarrow> nat option \<Rightarrow> (elf_parse_status \<times> nat option) option" where
  "elf_get_load_segment_count img count =
     (case count of None \<Rightarrow> Some (ELF_PARSE_ERR_MALFORMED, count)
      | Some _ \<Rightarrow> do {
          (status, sm) \<leftarrow> elf_parse_image img (Some zero_summary);
          (case (img, sm) of
             (Some bytes, Some summary) \<Rightarrow>
               if status \<noteq> ELF_PARSE_OK then Some (status, count)
               else do {
                 load_count \<leftarrow> elf_count_loads bytes summary [0..<unat (es_program_header_count summary)] 0;
                 Some (ELF_PARSE_OK, Some load_count) }
           | _ \<Rightarrow> Some (status, count)) })"

text \<open>
  One loadable segment: the checks, and the fields in the order the code writes them. The alignment is
  cut to 32 bits, and the slot is written before the alignment is checked.
\<close>

definition elf_segment_of :: "elf_phdr \<Rightarrow> elf_segment" where
  "elf_segment_of p = \<lparr>sg_virtual_address = ph_vaddr p, sg_physical_address = ph_paddr p, sg_file_offset = ph_offset p,
     sg_file_size = ph_filesz p, sg_memory_size = ph_memsz p, sg_flags = ph_flags p,
     sg_alignment = ucast (ucast (ph_align p) :: u32)\<rparr>"

definition elf_segment_fits :: "u8 list \<Rightarrow> elf_phdr \<Rightarrow> bool" where
  "elf_segment_fits bytes p \<longleftrightarrow>
     \<not> (unat (ph_offset p) > length bytes \<or> unat (ph_filesz p) > length bytes - unat (ph_offset p)) \<and> \<not> ph_memsz p < ph_filesz p"

definition elf_segment_aligned :: "elf_phdr \<Rightarrow> bool" where
  "elf_segment_aligned p \<longleftrightarrow> (ph_align p \<noteq> 0 \<and> ph_align p \<noteq> 1 \<longrightarrow>
     ph_align p AND (ph_align p - 1) = 0 \<and> ph_vaddr p mod ph_align p = ph_offset p mod ph_align p)"

definition elf_phdr_at :: "u8 list \<Rightarrow> u8 \<Rightarrow> nat \<Rightarrow> elf_phdr option" where
  "elf_phdr_at bytes elf_class off = (if elf_class = 1 then elf32_phdr bytes off else elf64_phdr bytes off)"

fun elf_extract_loop ::
    "u8 list \<Rightarrow> u8 \<Rightarrow> elf_summary \<Rightarrow> nat \<Rightarrow> nat list \<Rightarrow> elf_segment list \<Rightarrow> nat \<Rightarrow> (elf_parse_status \<times> elf_segment list \<times> nat) option" where
  "elf_extract_loop bytes elf_class summary capacity [] segments load_count = Some (ELF_PARSE_OK, segments, load_count)"
| "elf_extract_loop bytes elf_class summary capacity (i # is) segments load_count =
     (if load_count \<ge> capacity then Some (ELF_PARSE_OK, segments, load_count)
      else do {
        offset \<leftarrow> elf_phdr_offset summary i;
        p \<leftarrow> elf_phdr_at bytes elf_class offset;
        if ph_type p \<noteq> 1 then elf_extract_loop bytes elf_class summary capacity is segments load_count
        else if \<not> elf_segment_fits bytes p then Some (ELF_PARSE_ERR_MALFORMED, segments, 0)
        else if \<not> elf_segment_aligned p then Some (ELF_PARSE_ERR_MALFORMED, segments[load_count := elf_segment_of p], 0)
        else elf_extract_loop bytes elf_class summary capacity is (segments[load_count := elf_segment_of p]) (load_count + 1) })"

definition elf_extract_load_segments ::
    "u8 list option \<Rightarrow> elf_segment list option \<Rightarrow> nat \<Rightarrow> nat option \<Rightarrow> (elf_parse_status \<times> elf_segment list option \<times> nat option) option" where
  "elf_extract_load_segments img segments capacity written =
     (case (segments, written) of
        (Some segs, Some _) \<Rightarrow> do {
          (status, sm) \<leftarrow> elf_parse_image img (Some zero_summary);
          (case (img, sm) of
             (Some bytes, Some summary) \<Rightarrow>
               if status \<noteq> ELF_PARSE_OK then Some (status, segments, Some 0)
               else do {
                 elf_class \<leftarrow> fetch bytes 4 1;
                 (st, segs', n) \<leftarrow> elf_extract_loop bytes elf_class summary capacity
                   [0..<unat (es_program_header_count summary)] segs 0;
                 Some (st, Some segs', Some n) }
           | _ \<Rightarrow> Some (status, segments, Some 0)) }
      | _ \<Rightarrow> Some (ELF_PARSE_ERR_MALFORMED, segments, written))"

section \<open>The load plan\<close>

definition BH_ELF_PLAN_SUCCESS :: int where [status_simps]: "BH_ELF_PLAN_SUCCESS = 0"
definition BH_ELF_PLAN_ERR_MALFORMED :: int where [status_simps]: "BH_ELF_PLAN_ERR_MALFORMED = -1"
definition BH_ELF_PLAN_ERR_BOUNDS :: int where [status_simps]: "BH_ELF_PLAN_ERR_BOUNDS = -2"
definition BH_ELF_PLAN_ERR_OVERLAP :: int where [status_simps]: "BH_ELF_PLAN_ERR_OVERLAP = -3"
definition BH_ELF_PLAN_ERR_WX :: int where [status_simps]: "BH_ELF_PLAN_ERR_WX = -4"
definition BH_ELF_PLAN_ERR_ENTRY :: int where [status_simps]: "BH_ELF_PLAN_ERR_ENTRY = -5"
definition BH_ELF_PLAN_ERR_UNSUPPORTED :: int where [status_simps]: "BH_ELF_PLAN_ERR_UNSUPPORTED = -6"
definition BH_ELF_PLAN_ERR_LIMIT :: int where [status_simps]: "BH_ELF_PLAN_ERR_LIMIT = -7"
definition BH_ELF_PLAN_ERR_HEADER_SIZE :: int where [status_simps]: "BH_ELF_PLAN_ERR_HEADER_SIZE = -101"
definition BH_ELF_PLAN_ERR_MAGIC :: int where [status_simps]: "BH_ELF_PLAN_ERR_MAGIC = -102"
definition BH_ELF_PLAN_ERR_CLASS :: int where [status_simps]: "BH_ELF_PLAN_ERR_CLASS = -103"
definition BH_ELF_PLAN_ERR_TYPE :: int where [status_simps]: "BH_ELF_PLAN_ERR_TYPE = -104"
definition BH_ELF_PLAN_ERR_PARSE_SUMMARY :: int where [status_simps]: "BH_ELF_PLAN_ERR_PARSE_SUMMARY = -105"
definition BH_ELF_PLAN_ERR_SEGMENT_COUNT :: int where [status_simps]: "BH_ELF_PLAN_ERR_SEGMENT_COUNT = -106"
definition BH_ELF_PLAN_ERR_EXTRACT_SEGMENTS :: int where [status_simps]: "BH_ELF_PLAN_ERR_EXTRACT_SEGMENTS = -107"
definition BH_ELF_PLAN_ERR_FILE_MEM_SIZE :: int where [status_simps]: "BH_ELF_PLAN_ERR_FILE_MEM_SIZE = -108"
definition BH_ELF_PLAN_ERR_ALIGNMENT :: int where [status_simps]: "BH_ELF_PLAN_ERR_ALIGNMENT = -109"

datatype bh_elf_machine = BH_ELF_MACHINE_X86_64 | BH_ELF_MACHINE_AARCH64 | BH_ELF_MACHINE_RISCV64
  | BH_ELF_MACHINE_ARM32 | BH_ELF_MACHINE_RISCV32

definition BH_ELF_PROT_READ :: u32 where "BH_ELF_PROT_READ = 1"
definition BH_ELF_PROT_WRITE :: u32 where "BH_ELF_PROT_WRITE = 2"
definition BH_ELF_PROT_EXEC :: u32 where "BH_ELF_PROT_EXEC = 4"
definition BH_ELF_PROT_USER :: u32 where "BH_ELF_PROT_USER = 8"

lemmas elf_prot_defs = BH_ELF_PROT_READ_def BH_ELF_PROT_WRITE_def BH_ELF_PROT_EXEC_def BH_ELF_PROT_USER_def

record bh_elf_load_segment =
  ls_virtual_address :: u64
  ls_physical_address :: u64
  ls_file_offset :: u64
  ls_file_size :: u64
  ls_memory_size :: u64
  ls_flags :: u32
  ls_alignment :: u32
  ls_prot :: u32

record bh_user_image_plan =
  pl_entry_point :: u64
  pl_segment_count :: u32
  pl_segments :: "bh_elf_load_segment list"
  pl_stack_size :: u64
  pl_guard_size :: u64
  pl_startup_page_size :: u64

definition zero_load_segment :: bh_elf_load_segment where
  "zero_load_segment = \<lparr>ls_virtual_address = 0, ls_physical_address = 0, ls_file_offset = 0, ls_file_size = 0,
     ls_memory_size = 0, ls_flags = 0, ls_alignment = 0, ls_prot = 0\<rparr>"

definition plan_zero :: bh_user_image_plan where
  "plan_zero = \<lparr>pl_entry_point = 0, pl_segment_count = 0, pl_segments = replicate 16 zero_load_segment,
     pl_stack_size = 0, pl_guard_size = 0, pl_startup_page_size = 0\<rparr>"

fun machine_matches :: "u16 \<Rightarrow> bh_elf_machine \<Rightarrow> bool" where
  "machine_matches m BH_ELF_MACHINE_X86_64 \<longleftrightarrow> m = 62"
| "machine_matches m BH_ELF_MACHINE_AARCH64 \<longleftrightarrow> m = 183"
| "machine_matches m BH_ELF_MACHINE_RISCV64 \<longleftrightarrow> m = 243"
| "machine_matches m BH_ELF_MACHINE_RISCV32 \<longleftrightarrow> m = 243"
| "machine_matches m BH_ELF_MACHINE_ARM32 \<longleftrightarrow> m = 40"

definition plan_prot :: "u32 \<Rightarrow> u32" where
  "plan_prot flags = BH_ELF_PROT_USER OR (if flags AND 4 \<noteq> 0 then BH_ELF_PROT_READ else 0) OR
     (if flags AND 2 \<noteq> 0 then BH_ELF_PROT_WRITE else 0) OR (if flags AND 1 \<noteq> 0 then BH_ELF_PROT_EXEC else 0)"

definition plan_segment :: "elf_segment \<Rightarrow> bh_elf_load_segment" where
  "plan_segment seg = \<lparr>ls_virtual_address = sg_virtual_address seg, ls_physical_address = sg_physical_address seg,
     ls_file_offset = sg_file_offset seg, ls_file_size = sg_file_size seg, ls_memory_size = sg_memory_size seg,
     ls_flags = sg_flags seg, ls_alignment = ucast (sg_alignment seg), ls_prot = plan_prot (sg_flags seg)\<rparr>"

text \<open>The checks of one segment, in the order of the code: an error, or whether the entry point lies in it.\<close>

definition plan_check_segment :: "nat \<Rightarrow> u64 \<Rightarrow> u64 \<Rightarrow> u64 \<Rightarrow> elf_segment \<Rightarrow> int + bool" where
  "plan_check_segment sz user_base user_limit entry seg =
     (let v_start = sg_virtual_address seg; v_end = v_start + sg_memory_size seg;
          is_write = sg_flags seg AND 2 \<noteq> 0; is_exec = sg_flags seg AND 1 \<noteq> 0
      in if sg_file_size seg > sg_memory_size seg then Inl BH_ELF_PLAN_ERR_FILE_MEM_SIZE
         else if unat (sg_file_offset seg) > sz \<or> unat (sg_file_size seg) > sz - unat (sg_file_offset seg)
         then Inl BH_ELF_PLAN_ERR_BOUNDS
         else if v_end < v_start then Inl BH_ELF_PLAN_ERR_BOUNDS
         else if v_start < user_base \<or> v_end > user_limit then Inl BH_ELF_PLAN_ERR_BOUNDS
         else if is_write \<and> is_exec then Inl BH_ELF_PLAN_ERR_WX
         else if sg_alignment seg > 1 \<and> sg_virtual_address seg mod sg_alignment seg \<noteq> sg_file_offset seg mod sg_alignment seg
         then Inl BH_ELF_PLAN_ERR_ALIGNMENT
         else Inr (entry \<ge> v_start \<and> entry < v_start + sg_memory_size seg \<and> is_exec))"

fun plan_segments_loop ::
    "nat \<Rightarrow> u64 \<Rightarrow> u64 \<Rightarrow> elf_segment list \<Rightarrow> nat list \<Rightarrow> bool \<Rightarrow> bh_user_image_plan \<Rightarrow> (int + bool) \<times> bh_user_image_plan" where
  "plan_segments_loop sz user_base user_limit raw [] entry_validated plan = (Inr entry_validated, plan)"
| "plan_segments_loop sz user_base user_limit raw (i # is) entry_validated plan =
     (case plan_check_segment sz user_base user_limit (pl_entry_point plan) (raw ! i) of
        Inl err \<Rightarrow> (Inl err, plan)
      | Inr hit \<Rightarrow> plan_segments_loop sz user_base user_limit raw is (entry_validated \<or> hit)
          (plan\<lparr>pl_segments := (pl_segments plan)[i := plan_segment (raw ! i)]\<rparr>))"

definition plan_overlap :: "bh_elf_load_segment list \<Rightarrow> nat \<Rightarrow> bool" where
  "plan_overlap segs n \<longleftrightarrow> list_ex (\<lambda>i. list_ex (\<lambda>j.
      ls_virtual_address (segs ! i) < ls_virtual_address (segs ! j) + ls_memory_size (segs ! j) \<and>
      ls_virtual_address (segs ! j) < ls_virtual_address (segs ! i) + ls_memory_size (segs ! i)) [Suc i..<n]) [0..<n]"

definition plan_expected_class :: "bh_elf_machine \<Rightarrow> u8" where
  "plan_expected_class m = (if m = BH_ELF_MACHINE_ARM32 \<or> m = BH_ELF_MACHINE_RISCV32 then 1 else 2)"

text \<open>The part of the function after the header checks, on a plan that is already zero.\<close>

definition plan_build ::
    "u8 list \<Rightarrow> u64 \<Rightarrow> u64 \<Rightarrow> elf_segment list \<Rightarrow> (int \<times> bh_user_image_plan) option" where
  "plan_build bytes user_base user_limit raw0 = do {
     (st, sm) \<leftarrow> elf_parse_image (Some bytes) (Some zero_summary);
     (case sm of None \<Rightarrow> Some (BH_ELF_PLAN_ERR_PARSE_SUMMARY, plan_zero)
      | Some summary \<Rightarrow>
        if st \<noteq> ELF_PARSE_OK then Some (BH_ELF_PLAN_ERR_PARSE_SUMMARY, plan_zero)
        else do {
          (st, count) \<leftarrow> elf_get_load_segment_count (Some bytes) (Some 0);
          (case count of None \<Rightarrow> Some (BH_ELF_PLAN_ERR_SEGMENT_COUNT, plan_zero)
           | Some seg_count \<Rightarrow>
             if st \<noteq> ELF_PARSE_OK \<or> seg_count = 0 then Some (BH_ELF_PLAN_ERR_SEGMENT_COUNT, plan_zero)
             else if seg_count > 16 then Some (BH_ELF_PLAN_ERR_LIMIT, plan_zero)
             else do {
               (st, raw, extracted) \<leftarrow> elf_extract_load_segments (Some bytes) (Some raw0) 16 (Some 0);
               (case raw of None \<Rightarrow> Some (BH_ELF_PLAN_ERR_EXTRACT_SEGMENTS, plan_zero)
                | Some segs \<Rightarrow>
                  if st \<noteq> ELF_PARSE_OK \<or> extracted \<noteq> Some seg_count then Some (BH_ELF_PLAN_ERR_EXTRACT_SEGMENTS, plan_zero)
                  else let plan = plan_zero\<lparr>pl_entry_point := es_entry_point summary, pl_segment_count := of_nat seg_count,
                                     pl_stack_size := 64 * 1024, pl_guard_size := 4 * 1024, pl_startup_page_size := 4 * 1024\<rparr>
                  in (case plan_segments_loop (length bytes) user_base user_limit segs [0..<seg_count] False plan of
                        (Inl err, plan) \<Rightarrow> Some (err, plan)
                      | (Inr entry_validated, plan) \<Rightarrow>
                          if plan_overlap (pl_segments plan) seg_count then Some (BH_ELF_PLAN_ERR_OVERLAP, plan)
                          else if \<not> entry_validated then Some (BH_ELF_PLAN_ERR_ENTRY, plan)
                          else Some (BH_ELF_PLAN_SUCCESS, plan))) }) }) }"

text \<open>
  The array \<open>raw0\<close> is the uninitialised local array \<^verbatim>\<open>raw_segments\<close>: its contents are an argument.
\<close>

definition bh_elf_generate_load_plan_for_machine ::
    "elf_segment list \<Rightarrow> u8 list option \<Rightarrow> u64 \<Rightarrow> u64 \<Rightarrow> bh_elf_machine \<Rightarrow> bh_user_image_plan option \<Rightarrow>
     (int \<times> bh_user_image_plan option) option" where
  "bh_elf_generate_load_plan_for_machine raw0 img user_base user_limit machine out_plan =
     (case (img, out_plan) of
        (Some bytes, Some _) \<Rightarrow>
          if length bytes < 64 then Some (BH_ELF_PLAN_ERR_HEADER_SIZE, Some plan_zero)
          else do {
            m0 \<leftarrow> fetch bytes 0 1; m1 \<leftarrow> fetch bytes 1 1; m2 \<leftarrow> fetch bytes 2 1; m3 \<leftarrow> fetch bytes 3 1;
            if (m0 :: u8) \<noteq> 0x7f \<or> (m1 :: u8) \<noteq> 0x45 \<or> (m2 :: u8) \<noteq> 0x4C \<or> (m3 :: u8) \<noteq> 0x46
            then Some (BH_ELF_PLAN_ERR_MAGIC, Some plan_zero)
            else do {
              elf_class \<leftarrow> fetch bytes 4 1; data \<leftarrow> (fetch bytes 5 1 :: u8 option);
              e_type \<leftarrow> (fetch bytes 16 2 :: u16 option); e_machine \<leftarrow> fetch bytes 18 2;
              if elf_class \<noteq> plan_expected_class machine \<or> data \<noteq> 1 then Some (BH_ELF_PLAN_ERR_CLASS, Some plan_zero)
              else if \<not> machine_matches e_machine machine then Some (BH_ELF_PLAN_ERR_UNSUPPORTED, Some plan_zero)
              else if e_type \<noteq> 2 \<and> e_type \<noteq> 3 then Some (BH_ELF_PLAN_ERR_TYPE, Some plan_zero)
              else do { (st, plan) \<leftarrow> plan_build bytes user_base user_limit raw0; Some (st, Some plan) } } }
      | (_, None) \<Rightarrow> Some (BH_ELF_PLAN_ERR_MALFORMED, None)
      | (_, Some _) \<Rightarrow> Some (BH_ELF_PLAN_ERR_MALFORMED, Some plan_zero))"

text \<open>The wrapper passes the machine the kernel is built for, here the argument \<open>host\<close>.\<close>

definition bh_elf_generate_load_plan ::
    "bh_elf_machine \<Rightarrow> elf_segment list \<Rightarrow> u8 list option \<Rightarrow> u64 \<Rightarrow> u64 \<Rightarrow> bh_user_image_plan option \<Rightarrow>
     (int \<times> bh_user_image_plan option) option" where
  "bh_elf_generate_load_plan host raw0 img user_base user_limit out_plan =
     bh_elf_generate_load_plan_for_machine raw0 img user_base user_limit host out_plan"

end
