(* ===== verification/Elf_Image_Inv.thy ===== *)
theory Elf_Image_Inv
  imports Elf_Image
begin

text \<open>
  What the ELF parser and the load plan guarantee. The parser accepts exactly the images that satisfy
  \<open>elf_parsed\<close>, which says that the header table lies in the image; hence every later read does. The
  extraction returns exactly the loadable headers, and the plan exists exactly for the images that
  satisfy \<open>elf_loadable\<close>, where all conditions are on natural numbers, without wrap-around.
\<close>

unbundle bit_operations_syntax

section \<open>Reads stay inside the image\<close>

lemma fetch_Some: "off + n \<le> length bytes \<Longrightarrow> fetch bytes off n = Some (le_word (take n (drop off bytes)))"
  by (simp add: fetch_def)

text \<open>The size of a file header and of a program header of a class.\<close>

definition ehdr_size :: "u8 \<Rightarrow> nat" where
  "ehdr_size c = (if c = 1 then 52 else 64)"

definition phdr_size :: "u8 \<Rightarrow> nat" where
  "phdr_size c = (if c = 1 then 32 else 56)"

definition elf_ehdr_at :: "u8 list \<Rightarrow> u8 \<Rightarrow> elf_ehdr option" where
  "elf_ehdr_at bytes c = (if c = 1 then elf32_ehdr bytes else elf64_ehdr bytes)"

lemma elf_ehdr_at_Some: "ehdr_size c \<le> length bytes \<Longrightarrow> \<exists>e. elf_ehdr_at bytes c = Some e"
  by (auto simp: elf_ehdr_at_def ehdr_size_def elf32_ehdr_def elf64_ehdr_def fetch_Some split: if_splits)

lemma elf_phdr_at_Some: "off + phdr_size c \<le> length bytes \<Longrightarrow> \<exists>p. elf_phdr_at bytes c off = Some p \<and> fetch bytes off 4 = Some (ph_type p)"
  by (auto simp: elf_phdr_at_def phdr_size_def elf32_phdr_def elf64_phdr_def fetch_Some split: if_splits)

text \<open>What the parser has established when it accepts: the class, and that the header table is in the image.\<close>

definition elf_parsed :: "u8 list \<Rightarrow> u8 \<Rightarrow> elf_summary \<Rightarrow> bool" where
  "elf_parsed bytes c s \<longleftrightarrow> 16 \<le> length bytes \<and> take 4 bytes = [0x7f, 0x45, 0x4C, 0x46] \<and> fetch bytes 4 1 = Some c \<and> (c = 1 \<or> c = 2) \<and>
     fetch bytes 5 1 = Some (1 :: u8) \<and> fetch bytes 6 1 = Some (1 :: u8) \<and> ehdr_size c \<le> length bytes \<and>
     (\<exists>e. elf_ehdr_at bytes c = Some e \<and> eh_version e = 1 \<and> (eh_type e = 2 \<or> eh_type e = 3) \<and> phdr_size c \<le> unat (eh_phentsize e) \<and>
        unat (eh_phoff e) + unat (eh_phentsize e) * unat (eh_phnum e) \<le> length bytes \<and>
        s = \<lparr>es_entry_point = eh_entry e, es_program_header_count = eh_phnum e, es_program_header_offset = eh_phoff e,
             es_program_header_entry_size = eh_phentsize e\<rparr>)"

lemma le_word_byte: "le_word [b] = (b :: u8)"
  by (simp add: le_word.simps)

lemma magic_iff:
  assumes "4 \<le> length bytes"
  shows "take 4 bytes = [0x7f, 0x45, 0x4C, 0x46] \<longleftrightarrow> fetch bytes 0 1 = Some (0x7f :: u8) \<and> fetch bytes 1 1 = Some (0x45 :: u8) \<and>
    fetch bytes 2 1 = Some (0x4C :: u8) \<and> fetch bytes 3 1 = Some (0x46 :: u8)"
proof -
  have f: "fetch bytes i 1 = Some (bytes ! i)" if "i < 4" for i
    using that assms by (simp add: fetch_Some take_Suc_conv_app_nth hd_drop_conv_nth le_word_byte numeral_eq_Suc)
  obtain a b c d r where "bytes = a # b # c # d # r"
    using assms by (auto simp: numeral_eq_Suc Suc_le_length_iff)
  then show ?thesis using f by (simp add: numeral_eq_Suc)
qed

lemma check_ehdr_ok:
  "elf_check_ehdr bytes n e s0 = (ELF_PARSE_OK, s) \<longleftrightarrow>
     eh_version e = 1 \<and> (eh_type e = 2 \<or> eh_type e = 3) \<and> n \<le> unat (eh_phentsize e) \<and>
     unat (eh_phoff e) + unat (eh_phentsize e) * unat (eh_phnum e) \<le> length bytes \<and>
     s = \<lparr>es_entry_point = eh_entry e, es_program_header_count = eh_phnum e, es_program_header_offset = eh_phoff e,
          es_program_header_entry_size = eh_phentsize e\<rparr>"
  by (auto simp: elf_check_ehdr_def Let_def)

lemma check_ehdr_result: "(case elf_check_ehdr bytes n e s0 of (st, sm) \<Rightarrow> Some (st, Some sm)) = Some (ELF_PARSE_OK, Some s) \<longleftrightarrow>
    elf_check_ehdr bytes n e s0 = (ELF_PARSE_OK, s)"
  by (auto split: prod.splits)

lemma elf_parse_total: "\<exists>st s. elf_parse_image (Some bytes) (Some s0) = Some (st, Some s)"
proof (cases "length bytes < 16")
  case False
  have "\<exists>e. elf32_ehdr bytes = Some e" if "\<not> length bytes < 52" using elf_ehdr_at_Some [of 1 bytes] that by (simp add: ehdr_size_def elf_ehdr_at_def)
  moreover have "\<exists>e. elf64_ehdr bytes = Some e" if "\<not> length bytes < 64" using elf_ehdr_at_Some [of 2 bytes] that by (simp add: ehdr_size_def elf_ehdr_at_def)
  ultimately show ?thesis using False by (auto simp: elf_parse_image_def fetch_Some split: prod.splits)
qed (simp add: elf_parse_image_def)

lemma elf_parse_ok:
  "elf_parse_image (Some bytes) (Some s0) = Some (ELF_PARSE_OK, Some s) \<longleftrightarrow> (\<exists>c. elf_parsed bytes c s)"
proof (cases "length bytes < 16")
  case False
  let ?c = "le_word (take 1 (drop 4 bytes)) :: u8"
  have c: "fetch bytes 4 1 = Some ?c" using False by (simp add: fetch_Some)
  have e: "\<exists>e. elf_ehdr_at bytes ?c = Some e" if "ehdr_size ?c \<le> length bytes" by (rule elf_ehdr_at_Some [OF that])
  have m: "take 4 bytes = [0x7f, 0x45, 0x4C, 0x46] \<longleftrightarrow> fetch bytes 0 1 = Some (0x7f :: u8) \<and> fetch bytes 1 1 = Some (0x45 :: u8) \<and>
      fetch bytes 2 1 = Some (0x4C :: u8) \<and> fetch bytes 3 1 = Some (0x46 :: u8)" using magic_iff False by simp
  show ?thesis
    unfolding elf_parsed_def m using False e
    by (auto simp: elf_parse_image_def fetch_Some elf_ehdr_at_def ehdr_size_def phdr_size_def Let_def check_ehdr_result check_ehdr_ok split: if_splits)
qed (auto simp: elf_parse_image_def elf_parsed_def)

section \<open>The segments of an image\<close>

definition phdr_nth :: "u8 list \<Rightarrow> u8 \<Rightarrow> elf_summary \<Rightarrow> nat \<Rightarrow> elf_phdr" where
  "phdr_nth bytes c s i = the (elf_phdr_at bytes c (unat (es_program_header_offset s) + i * unat (es_program_header_entry_size s)))"

definition elf_loads_of :: "u8 list \<Rightarrow> u8 \<Rightarrow> elf_summary \<Rightarrow> nat list \<Rightarrow> elf_phdr list" where
  "elf_loads_of bytes c s is = filter (\<lambda>p. ph_type p = 1) (map (phdr_nth bytes c s) is)"

definition elf_loads :: "u8 list \<Rightarrow> u8 \<Rightarrow> elf_summary \<Rightarrow> elf_phdr list" where
  "elf_loads bytes c s = elf_loads_of bytes c s [0..<unat (es_program_header_count s)]"

text \<open>Every program header of the table is read from inside the image.\<close>

lemma phdr_in_image:
  assumes "elf_parsed bytes c s" and "length bytes < 2 ^ 31" and i: "i < unat (es_program_header_count s)"
  shows "\<exists>off. elf_phdr_offset s i = Some off \<and> elf_phdr_at bytes c off = Some (phdr_nth bytes c s i) \<and>
    fetch bytes off 4 = Some (ph_type (phdr_nth bytes c s i))"
proof -
  let ?p = "unat (es_program_header_offset s)" and ?n = "unat (es_program_header_entry_size s)" and ?k = "unat (es_program_header_count s)"
  have b: "phdr_size c \<le> ?n" "?p + ?n * ?k \<le> length bytes" using assms(1) by (auto simp: elf_parsed_def)
  have "Suc i * ?n \<le> ?k * ?n" using i by (intro mult_le_mono1) simp
  then have in_table: "?p + i * ?n + ?n \<le> length bytes" using b(2) by (simp add: mult.commute)
  then have "unat (es_program_header_offset s + of_nat (i * ?n)) = ?p + i * ?n"
    using assms(2) by (simp add: unat_word_ariths(1) unsigned_of_nat take_bit_nat_eq_self del: of_nat_mult)
  then have "elf_phdr_offset s i = Some (?p + i * ?n)" using in_table assms(2) by (simp add: elf_phdr_offset_def)
  then show ?thesis using elf_phdr_at_Some [of "?p + i * ?n" c bytes] in_table b(1) by (auto simp: phdr_nth_def)
qed

lemma count_loads:
  assumes "elf_parsed bytes c s" and "length bytes < 2 ^ 31"
  shows "set is \<subseteq> {..<unat (es_program_header_count s)} \<Longrightarrow> elf_count_loads bytes s is n = Some (n + length (elf_loads_of bytes c s is))"
proof (induction "is" arbitrary: n)
  case (Cons i "is")
  then show ?case using phdr_in_image [OF assms, of i] by (auto simp: elf_loads_of_def)
qed (simp add: elf_loads_of_def)

text \<open>
  The extraction, started with \<open>n\<close> segments written: it fails exactly when a loadable segment does not
  pass its checks, and otherwise writes the segments in order.
\<close>

definition segs_put :: "elf_segment list \<Rightarrow> nat \<Rightarrow> elf_phdr list \<Rightarrow> elf_segment list" where
  "segs_put segs n ps = take n segs @ map elf_segment_of ps @ drop (n + length ps) segs"

lemma segs_put_Cons:
  "n < length segs \<Longrightarrow> segs_put (segs[n := elf_segment_of p]) (n + 1) ps = segs_put segs n (p # ps)"
  by (simp add: segs_put_def take_Suc_conv_app_nth)

lemma extract_loop:
  assumes "elf_parsed bytes c s" and "length bytes < 2 ^ 31"
  shows "set is \<subseteq> {..<unat (es_program_header_count s)} \<Longrightarrow> n + length (elf_loads_of bytes c s is) \<le> cap \<Longrightarrow> cap \<le> length segs \<Longrightarrow>
    (if \<forall>p \<in> set (elf_loads_of bytes c s is). elf_segment_fits bytes p \<and> elf_segment_aligned p
     then elf_extract_loop bytes c s cap is segs n = Some (ELF_PARSE_OK, segs_put segs n (elf_loads_of bytes c s is), n + length (elf_loads_of bytes c s is))
     else \<exists>segs'. elf_extract_loop bytes c s cap is segs n = Some (ELF_PARSE_ERR_MALFORMED, segs', 0))"
proof (induction "is" arbitrary: segs n)
  case (Cons i "is")
  let ?p = "phdr_nth bytes c s i" and ?ls = "elf_loads_of bytes c s is"
  obtain off where off: "elf_phdr_offset s i = Some off" "elf_phdr_at bytes c off = Some ?p"
    using phdr_in_image [OF assms, of i] Cons.prems(1) by auto
  have l: "elf_loads_of bytes c s (i # is) = (if ph_type ?p = 1 then ?p # ?ls else ?ls)" by (simp add: elf_loads_of_def)
  show ?case
  proof (cases "n \<ge> cap")
    case True
    then have "length (elf_loads_of bytes c s (i # is)) = 0" using Cons.prems(2) by linarith
    then have "elf_loads_of bytes c s (i # is) = []" by simp
    then show ?thesis using True by (simp add: segs_put_def)
  next
    case False
    show ?thesis
    proof (cases "ph_type ?p = 1")
      case load: True
      have "n + 1 + length ?ls \<le> cap" "cap \<le> length (segs[n := elf_segment_of ?p])" using Cons.prems(2,3) load l by auto
      moreover have "set is \<subseteq> {..<unat (es_program_header_count s)}" using Cons.prems(1) by simp
      ultimately have ih: "if \<forall>p \<in> set ?ls. elf_segment_fits bytes p \<and> elf_segment_aligned p
        then elf_extract_loop bytes c s cap is (segs[n := elf_segment_of ?p]) (n + 1) = Some (ELF_PARSE_OK, segs_put segs n (?p # ?ls), n + length (?p # ?ls))
        else \<exists>segs'. elf_extract_loop bytes c s cap is (segs[n := elf_segment_of ?p]) (n + 1) = Some (ELF_PARSE_ERR_MALFORMED, segs', 0)"
        using Cons.IH [of "n + 1" "segs[n := elf_segment_of ?p]"] False Cons.prems(3) segs_put_Cons [of n segs ?p ?ls] by (auto split: if_split_asm)
      show ?thesis
        unfolding l using ih off False load by (cases "\<forall>p \<in> set ?ls. elf_segment_fits bytes p \<and> elf_segment_aligned p") auto
    next
      case no: False
      then show ?thesis using Cons.IH [of n segs] Cons.prems off False by (auto simp: l)
    qed
  qed
qed (simp add: elf_loads_of_def segs_put_def)

section \<open>Alignment\<close>

text \<open>The test \<open>a & (a - 1)\<close> for powers of two.\<close>

lemma nat_power_of_two: "(n :: nat) > 0 \<Longrightarrow> n AND (n - 1) = 0 \<Longrightarrow> \<exists>k. n = 2 ^ k"
proof (induction n rule: less_induct)
  case (less n)
  show ?case
  proof (cases "even n")
    case True
    then obtain v where v: "n = 2 * v" "v > 0" using less.prems(1) by auto
    have "n - 1 = 2 * (v - 1) + 1" using v by auto
    then have "v AND (v - 1) = 0" using less.prems(2) v and_nat_unfold [of "2 * v" "2 * (v - 1) + 1"] by (simp split: if_split_asm)
    then obtain k where "v = 2 ^ k" using less.IH [of v] v by auto
    then show ?thesis using v(1) by (intro exI [of _ "Suc k"]) simp
  next
    case False
    then obtain v where v: "n = 2 * v + 1" by (elim oddE)
    then have "v = 0" using less.prems(2) and_nat_unfold [of "2 * v + 1" "2 * v"] by (simp split: if_split_asm)
    then show ?thesis using v by (intro exI [of _ 0]) simp
  qed
qed

lemma word_power_of_two:
  fixes w :: u64
  assumes "w \<noteq> 0" and "w AND (w - 1) = 0"
  obtains k where "k < 64" "w = 2 ^ k"
proof -
  have pos: "0 < unat w" using assms(1) by (simp add: unat_gt_0)
  have "unat (w - 1) = unat w - 1" using assms(1) by (simp add: unat_minus_one)
  then have "unat w AND (unat w - 1) = 0" using assms(2) by (metis unat_0 unsigned_and_eq)
  then obtain k where k: "unat w = 2 ^ k" using nat_power_of_two [OF pos] by auto
  moreover have "k < 64"
  proof (rule ccontr)
    assume "\<not> k < 64"
    then have "(2 :: nat) ^ 64 \<le> 2 ^ k" by (intro power_increasing) auto
    moreover have "unat w < 2 ^ 64" using unsigned_less [of w, where 'a = nat] by simp
    ultimately show False using k by simp
  qed
  moreover have "w = 2 ^ k" using k of_nat_unat [of w] by (metis of_nat_numeral of_nat_power ucast_id)
  ultimately show thesis using that by blast
qed

text \<open>
  The plan checks the alignment again, with the alignment cut to 32 bits. That never fails for
  a segment the parser has accepted.
\<close>

lemma cut_alignment_ok:
  assumes "elf_segment_aligned p" and "sg_alignment (elf_segment_of p) > 1"
  shows "ph_vaddr p mod sg_alignment (elf_segment_of p) = ph_offset p mod sg_alignment (elf_segment_of p)"
proof -
  have t: "sg_alignment (elf_segment_of p) = take_bit 32 (ph_align p)"
    by (rule bit_word_eqI) (auto simp: elf_segment_of_def bit_ucast_iff bit_take_bit_iff)
  have nz: "ph_align p \<noteq> 0" "ph_align p \<noteq> 1" using assms(2) t by auto
  then have a: "ph_align p AND (ph_align p - 1) = 0" "ph_vaddr p mod ph_align p = ph_offset p mod ph_align p"
    using assms(1) by (auto simp: elf_segment_aligned_def)
  obtain k where k: "k < 64" "ph_align p = 2 ^ k" using word_power_of_two [OF nz(1) a(1)] by blast
  have "k < 32"
  proof (rule ccontr)
    assume "\<not> k < 32"
    then have "take_bit 32 (ph_align p) = 0" unfolding k by (auto intro: bit_word_eqI simp: bit_take_bit_iff bit_exp_iff)
    then show False using assms(2) t by simp
  qed
  then have "take_bit 32 (ph_align p) = ph_align p" unfolding k by (auto intro!: bit_word_eqI simp: bit_take_bit_iff bit_exp_iff)
  then show ?thesis using a(2) t by simp
qed

section \<open>What a plan promises\<close>

text \<open>
  The conditions on an image, on natural numbers, so without wrap-around. A segment: its bytes are in the
  file, it needs at least that much memory, all of it between the bounds of user space, it is not both
  writable and executable, and it is aligned.
\<close>

definition seg_loadable :: "u8 list \<Rightarrow> u64 \<Rightarrow> u64 \<Rightarrow> elf_phdr \<Rightarrow> bool" where
  "seg_loadable bytes user_base user_limit p \<longleftrightarrow>
     unat (ph_offset p) + unat (ph_filesz p) \<le> length bytes \<and> unat (ph_filesz p) \<le> unat (ph_memsz p) \<and>
     unat user_base \<le> unat (ph_vaddr p) \<and> unat (ph_vaddr p) + unat (ph_memsz p) \<le> unat user_limit \<and>
     \<not> (ph_flags p AND 2 \<noteq> 0 \<and> ph_flags p AND 1 \<noteq> 0) \<and> elf_segment_aligned p"

definition seg_apart :: "elf_phdr \<Rightarrow> elf_phdr \<Rightarrow> bool" where
  "seg_apart p q \<longleftrightarrow> \<not> (unat (ph_vaddr p) < unat (ph_vaddr q) + unat (ph_memsz q) \<and> unat (ph_vaddr q) < unat (ph_vaddr p) + unat (ph_memsz p))"

definition seg_enters :: "u64 \<Rightarrow> elf_phdr \<Rightarrow> bool" where
  "seg_enters entry p \<longleftrightarrow> unat (ph_vaddr p) \<le> unat entry \<and> unat entry < unat (ph_vaddr p) + unat (ph_memsz p) \<and> ph_flags p AND 1 \<noteq> 0"

definition plan_for :: "elf_summary \<Rightarrow> elf_phdr list \<Rightarrow> bh_user_image_plan" where
  "plan_for s ps = \<lparr>pl_entry_point = es_entry_point s, pl_segment_count = of_nat (length ps),
     pl_segments = map (plan_segment \<circ> elf_segment_of) ps @ replicate (16 - length ps) zero_load_segment,
     pl_stack_size = 64 * 1024, pl_guard_size = 4 * 1024, pl_startup_page_size = 4 * 1024\<rparr>"

definition elf_loadable :: "u8 list \<Rightarrow> u64 \<Rightarrow> u64 \<Rightarrow> bh_elf_machine \<Rightarrow> bh_user_image_plan \<Rightarrow> bool" where
  "elf_loadable bytes user_base user_limit machine plan \<longleftrightarrow>
     (\<exists>s ps m. elf_parsed bytes (plan_expected_class machine) s \<and> 64 \<le> length bytes \<and> fetch bytes 18 2 = Some m \<and> machine_matches m machine \<and>
        ps = elf_loads bytes (plan_expected_class machine) s \<and> ps \<noteq> [] \<and> length ps \<le> 16 \<and>
        (\<forall>p \<in> set ps. seg_loadable bytes user_base user_limit p) \<and>
        (\<forall>i < length ps. \<forall>j < length ps. i < j \<longrightarrow> seg_apart (ps ! i) (ps ! j)) \<and>
        (\<exists>p \<in> set ps. seg_enters (es_entry_point s) p) \<and> plan = plan_for s ps)"

lemma no_wrap: "\<not> (a :: u64) + b < a \<longleftrightarrow> unat a + unat b < 2 ^ 64"
  using no_olen_add_nat [of a b] by (simp add: not_less)

lemma unat_no_wrap: "unat (a :: u64) + unat b < 2 ^ 64 \<Longrightarrow> unat (a + b) = unat a + unat b"
  by (simp add: unat_word_ariths(1))

lemma unat_u64: "unat (x :: u64) < 2 ^ 64"
  using unsigned_less [of x, where 'a = nat] by simp

lemma segment_fits_iff: "elf_segment_fits bytes p \<longleftrightarrow>
    unat (ph_offset p) + unat (ph_filesz p) \<le> length bytes \<and> unat (ph_filesz p) \<le> unat (ph_memsz p)"
  by (auto simp: elf_segment_fits_def word_less_nat_alt)

lemma plan_check_segment_cases:
  assumes "elf_segment_fits bytes p" "elf_segment_aligned p"
  shows "if seg_loadable bytes b l p then plan_check_segment (length bytes) b l entry (elf_segment_of p) = Inr (seg_enters entry p)
    else \<exists>e. e \<noteq> BH_ELF_PLAN_SUCCESS \<and> plan_check_segment (length bytes) b l entry (elf_segment_of p) = Inl e"
proof -
  have f: "sg_file_offset (elf_segment_of p) = ph_offset p" "sg_file_size (elf_segment_of p) = ph_filesz p" "sg_memory_size (elf_segment_of p) = ph_memsz p"
    "sg_virtual_address (elf_segment_of p) = ph_vaddr p" "sg_flags (elf_segment_of p) = ph_flags p"
    by (simp_all add: elf_segment_of_def)
  have al: "\<not> (sg_alignment (elf_segment_of p) > 1 \<and> ph_vaddr p mod sg_alignment (elf_segment_of p) \<noteq> ph_offset p mod sg_alignment (elf_segment_of p))"
    using cut_alignment_ok [OF assms(2)] by auto
  have fit: "\<not> ph_filesz p > ph_memsz p" "\<not> (unat (ph_offset p) > length bytes \<or> unat (ph_filesz p) > length bytes - unat (ph_offset p))"
    using assms(1) by (auto simp: elf_segment_fits_def)
  show ?thesis
  proof (cases "ph_vaddr p + ph_memsz p < ph_vaddr p")
    case True
    then have "\<not> unat (ph_vaddr p) + unat (ph_memsz p) \<le> unat l" using no_wrap unat_u64 [of l] by force
    then show ?thesis using True fit by (auto simp: plan_check_segment_def Let_def f seg_loadable_def status_simps)
  next
    case False
    then have w: "unat (ph_vaddr p + ph_memsz p) = unat (ph_vaddr p) + unat (ph_memsz p)" using no_wrap unat_no_wrap by blast
    have "seg_loadable bytes b l p \<longleftrightarrow> \<not> (ph_vaddr p < b \<or> ph_vaddr p + ph_memsz p > l) \<and> \<not> (ph_flags p AND 2 \<noteq> 0 \<and> ph_flags p AND 1 \<noteq> 0)"
      using assms unfolding segment_fits_iff by (auto simp: seg_loadable_def word_less_nat_alt w)
    moreover have "seg_enters entry p \<longleftrightarrow> entry \<ge> ph_vaddr p \<and> entry < ph_vaddr p + ph_memsz p \<and> ph_flags p AND 1 \<noteq> 0"
      by (auto simp: seg_enters_def word_less_nat_alt word_le_nat_alt w)
    ultimately show ?thesis using False fit al by (auto simp: plan_check_segment_def Let_def f status_simps)
  qed
qed

definition plan_put :: "bh_user_image_plan \<Rightarrow> nat \<Rightarrow> elf_phdr list \<Rightarrow> bh_user_image_plan" where
  "plan_put plan n ps = plan\<lparr>pl_segments := take n (pl_segments plan) @ map (plan_segment \<circ> elf_segment_of) ps @ drop (n + length ps) (pl_segments plan)\<rparr>"

lemma plan_put_Cons:
  "n < length (pl_segments plan) \<Longrightarrow>
   plan_put (plan\<lparr>pl_segments := (pl_segments plan)[n := plan_segment (elf_segment_of p)]\<rparr>) (Suc n) ps = plan_put plan n (p # ps)"
  by (simp add: plan_put_def take_Suc_conv_app_nth)

lemma plan_segments_loop_cases:
  assumes "\<forall>p \<in> set ps. elf_segment_fits bytes p \<and> elf_segment_aligned p"
    and "\<forall>i < length ps. raw ! (n + i) = elf_segment_of (ps ! i)" and "n + length ps \<le> length (pl_segments plan)"
  shows "if \<forall>p \<in> set ps. seg_loadable bytes b l p
    then plan_segments_loop (length bytes) b l raw [n..<n + length ps] ev plan =
      (Inr (ev \<or> (\<exists>p \<in> set ps. seg_enters (pl_entry_point plan) p)), plan_put plan n ps)
    else \<exists>e plan'. e \<noteq> BH_ELF_PLAN_SUCCESS \<and> plan_segments_loop (length bytes) b l raw [n..<n + length ps] ev plan = (Inl e, plan')"
  using assms
proof (induction ps arbitrary: n ev plan)
  case (Cons p ps)
  let ?plan = "plan\<lparr>pl_segments := (pl_segments plan)[n := plan_segment (elf_segment_of p)]\<rparr>"
  have r: "raw ! n = elf_segment_of p" "\<forall>i < length ps. raw ! (Suc n + i) = elf_segment_of (ps ! i)"
    using Cons.prems(2) by (auto simp: All_less_Suc2)
  have u: "[n..<n + length (p # ps)] = n # [Suc n..<Suc n + length ps]" using upt_conv_Cons [of n "n + length (p # ps)"] by simp
  have step: "plan_segments_loop (length bytes) b l raw [n..<n + length (p # ps)] ev plan =
      (if seg_loadable bytes b l p
       then plan_segments_loop (length bytes) b l raw [Suc n..<Suc n + length ps] (ev \<or> seg_enters (pl_entry_point plan) p) ?plan
       else (case plan_check_segment (length bytes) b l (pl_entry_point plan) (elf_segment_of p) of Inl e \<Rightarrow> (Inl e, plan) | Inr _ \<Rightarrow> undefined))"
    using plan_check_segment_cases [of bytes p b l "pl_entry_point plan"] Cons.prems(1) r(1) unfolding u by (auto split: if_splits)
  show ?case
  proof (cases "seg_loadable bytes b l p")
    case True
    have "n < length (pl_segments plan)" using Cons.prems(3) by simp
    then show ?thesis
      using Cons.IH [of "Suc n" ?plan "ev \<or> seg_enters (pl_entry_point plan) p"] Cons.prems(1,3) r(2) True
      unfolding step by (auto simp: plan_put_Cons split: if_splits)
  next
    case False
    then show ?thesis
      using plan_check_segment_cases [of bytes p b l "pl_entry_point plan"] Cons.prems(1) unfolding step by (auto split: if_splits)
  qed
qed (simp add: plan_put_def)

text \<open>The overlap loops see exactly the pairs of segments that are not apart.\<close>

lemma plan_overlap_iff:
  assumes "\<forall>p \<in> set ps. unat (ph_vaddr p) + unat (ph_memsz p) < 2 ^ 64" and "\<forall>i < length ps. segs ! i = plan_segment (elf_segment_of (ps ! i))"
  shows "plan_overlap segs (length ps) \<longleftrightarrow> \<not> (\<forall>i < length ps. \<forall>j < length ps. i < j \<longrightarrow> seg_apart (ps ! i) (ps ! j))"
proof -
  have w: "unat (ls_virtual_address (segs ! i) + ls_memory_size (segs ! i)) = unat (ph_vaddr (ps ! i)) + unat (ph_memsz (ps ! i))"
    "ls_virtual_address (segs ! i) = ph_vaddr (ps ! i)" if "i < length ps" for i
    using assms that unat_no_wrap by (auto simp: plan_segment_def elf_segment_of_def)
  have pair: "ls_virtual_address (segs ! i) < ls_virtual_address (segs ! j) + ls_memory_size (segs ! j) \<and>
      ls_virtual_address (segs ! j) < ls_virtual_address (segs ! i) + ls_memory_size (segs ! i) \<longleftrightarrow> \<not> seg_apart (ps ! i) (ps ! j)"
    if "i < length ps" "j < length ps" for i j
    using w(1) [OF that(1)] w(1) [OF that(2)] by (simp add: word_less_nat_alt seg_apart_def w(2) that)
  have "plan_overlap segs (length ps) \<longleftrightarrow> (\<exists>i \<in> {0..<length ps}. \<exists>j \<in> {Suc i..<length ps}. \<not> seg_apart (ps ! i) (ps ! j))"
    unfolding plan_overlap_def list_ex_iff set_upt by (intro bex_cong refl) (rule pair, simp_all)
  also have "\<dots> \<longleftrightarrow> (\<exists>i < length ps. \<exists>j < length ps. i < j \<and> \<not> seg_apart (ps ! i) (ps ! j))"
    by (meson Suc_leI Suc_le_lessD atLeastLessThan_iff le_less_trans less_imp_le zero_le)
  finally show ?thesis by blast
qed

lemma parsed_run: "elf_parsed bytes c s \<Longrightarrow> elf_parse_image (Some bytes) (Some zero_summary) = Some (ELF_PARSE_OK, Some s)"
  using elf_parse_ok by blast

lemma count_all:
  assumes "elf_parsed bytes c s" and "length bytes < 2 ^ 31"
  shows "elf_get_load_segment_count (Some bytes) (Some 0) = Some (ELF_PARSE_OK, Some (length (elf_loads bytes c s)))"
  using parsed_run [OF assms(1)] count_loads [OF assms, of "[0..<unat (es_program_header_count s)]" 0]
  by (simp add: elf_get_load_segment_count_def elf_loads_def atLeast0LessThan)

lemma extract_all:
  assumes "elf_parsed bytes c s" and "length bytes < 2 ^ 31" and "length raw0 = 16" and "length (elf_loads bytes c s) \<le> 16"
  shows "if \<forall>p \<in> set (elf_loads bytes c s). elf_segment_fits bytes p \<and> elf_segment_aligned p
    then elf_extract_load_segments (Some bytes) (Some raw0) 16 (Some 0) =
      Some (ELF_PARSE_OK, Some (segs_put raw0 0 (elf_loads bytes c s)), Some (length (elf_loads bytes c s)))
    else \<exists>segs'. elf_extract_load_segments (Some bytes) (Some raw0) 16 (Some 0) = Some (ELF_PARSE_ERR_MALFORMED, Some segs', Some 0)"
proof -
  have "fetch bytes 4 1 = Some c" using assms(1) by (simp add: elf_parsed_def)
  then have run: "elf_extract_load_segments (Some bytes) (Some raw0) 16 (Some 0) = do {
      (st, segs', n) \<leftarrow> elf_extract_loop bytes c s 16 [0..<unat (es_program_header_count s)] raw0 0; Some (st, Some segs', Some n) }"
    using parsed_run [OF assms(1)] by (simp add: elf_extract_load_segments_def)
  show ?thesis
    using extract_loop [OF assms(1,2), of "[0..<unat (es_program_header_count s)]" 0 16 raw0] assms(3,4)
    unfolding run elf_loads_def by (auto simp: atLeast0LessThan split: if_split_asm)
qed

text \<open>The checks over all segments, given that the extraction has succeeded.\<close>

definition plan_start :: "elf_summary \<Rightarrow> nat \<Rightarrow> bh_user_image_plan" where
  "plan_start s n = plan_zero\<lparr>pl_entry_point := es_entry_point s, pl_segment_count := of_nat n,
     pl_stack_size := 64 * 1024, pl_guard_size := 4 * 1024, pl_startup_page_size := 4 * 1024\<rparr>"

definition plan_ok :: "u8 list \<Rightarrow> u64 \<Rightarrow> u64 \<Rightarrow> elf_summary \<Rightarrow> elf_phdr list \<Rightarrow> bool" where
  "plan_ok bytes b l s ps \<longleftrightarrow> (\<forall>p \<in> set ps. seg_loadable bytes b l p) \<and>
     (\<forall>i < length ps. \<forall>j < length ps. i < j \<longrightarrow> seg_apart (ps ! i) (ps ! j)) \<and> (\<exists>p \<in> set ps. seg_enters (es_entry_point s) p)"

definition plan_checks :: "u8 list \<Rightarrow> u64 \<Rightarrow> u64 \<Rightarrow> elf_segment list \<Rightarrow> nat \<Rightarrow> bh_user_image_plan \<Rightarrow> (int \<times> bh_user_image_plan) option" where
  "plan_checks bytes b l raw n plan = (case plan_segments_loop (length bytes) b l raw [0..<n] False plan of
        (Inl err, plan) \<Rightarrow> Some (err, plan)
      | (Inr ev, plan) \<Rightarrow> if plan_overlap (pl_segments plan) n then Some (BH_ELF_PLAN_ERR_OVERLAP, plan)
                         else if \<not> ev then Some (BH_ELF_PLAN_ERR_ENTRY, plan) else Some (BH_ELF_PLAN_SUCCESS, plan))"

lemma plan_checks_cases:
  assumes fits: "\<forall>p \<in> set ps. elf_segment_fits bytes p \<and> elf_segment_aligned p" and n: "length ps \<le> 16"
  shows "\<exists>st plan. plan_checks bytes b l (segs_put raw0 0 ps) (length ps) (plan_start s (length ps)) = Some (st, plan) \<and>
    (st = BH_ELF_PLAN_SUCCESS \<longleftrightarrow> plan_ok bytes b l s ps) \<and> (st = BH_ELF_PLAN_SUCCESS \<longrightarrow> plan = plan_for s ps)"
proof -
  let ?plan = "plan_start s (length ps)"
  have pf: "plan_put ?plan 0 ps = plan_for s ps" by (simp add: plan_put_def plan_for_def plan_zero_def plan_start_def)
  have raw: "\<forall>i < length ps. segs_put raw0 0 ps ! (0 + i) = elf_segment_of (ps ! i)" by (simp add: segs_put_def nth_append)
  have len: "0 + length ps \<le> length (pl_segments ?plan)" using n by (simp add: plan_zero_def plan_start_def)
  note lp = plan_segments_loop_cases [OF fits raw len, of b l False]
  show ?thesis
  proof (cases "\<forall>p \<in> set ps. seg_loadable bytes b l p")
    case False
    then obtain e plan' where "e \<noteq> BH_ELF_PLAN_SUCCESS"
      "plan_segments_loop (length bytes) b l (segs_put raw0 0 ps) [0..<length ps] False ?plan = (Inl e, plan')"
      using lp by (auto split: if_split_asm)
    moreover have "\<not> plan_ok bytes b l s ps" using False by (simp add: plan_ok_def)
    ultimately show ?thesis by (simp add: plan_checks_def)
  next
    case ok: True
    have en: "pl_entry_point ?plan = es_entry_point s" by (simp add: plan_start_def)
    have run: "plan_segments_loop (length bytes) b l (segs_put raw0 0 ps) [0..<length ps] False ?plan =
        (Inr (\<exists>p \<in> set ps. seg_enters (es_entry_point s) p), plan_for s ps)" using lp ok pf en by simp
    have "\<forall>p \<in> set ps. unat (ph_vaddr p) + unat (ph_memsz p) < 2 ^ 64"
    proof
      fix p assume "p \<in> set ps"
      then show "unat (ph_vaddr p) + unat (ph_memsz p) < 2 ^ 64" using ok unat_u64 [of l] by (auto simp: seg_loadable_def)
    qed
    moreover have "\<forall>i < length ps. pl_segments (plan_for s ps) ! i = plan_segment (elf_segment_of (ps ! i))"
      by (simp add: plan_for_def nth_append)
    ultimately have ov: "plan_overlap (pl_segments (plan_for s ps)) (length ps) \<longleftrightarrow>
        \<not> (\<forall>i < length ps. \<forall>j < length ps. i < j \<longrightarrow> seg_apart (ps ! i) (ps ! j))" by (rule plan_overlap_iff)
    show ?thesis unfolding plan_checks_def run prod.case sum.case ov plan_ok_def using ok by (auto simp: status_simps)
  qed
qed

text \<open>The part of the function after the header checks.\<close>

lemma plan_build_cases:
  assumes p: "elf_parsed bytes c s" and l: "length bytes < 2 ^ 31" and r: "length raw0 = 16"
  shows "\<exists>st plan. plan_build bytes b u raw0 = Some (st, plan) \<and>
    (st = BH_ELF_PLAN_SUCCESS \<longleftrightarrow> elf_loads bytes c s \<noteq> [] \<and> length (elf_loads bytes c s) \<le> 16 \<and> plan_ok bytes b u s (elf_loads bytes c s)) \<and>
    (st = BH_ELF_PLAN_SUCCESS \<longrightarrow> plan = plan_for s (elf_loads bytes c s))"
proof -
  let ?ps = "elf_loads bytes c s"
  note run = parsed_run [OF p] count_all [OF p l]
  show ?thesis
  proof (cases "?ps = [] \<or> length ?ps > 16")
    case True
    then show ?thesis using run by (auto simp: plan_build_def status_simps)
  next
    case n: False
    show ?thesis
    proof (cases "\<forall>p \<in> set ?ps. elf_segment_fits bytes p \<and> elf_segment_aligned p")
      case False
      then obtain segs' where "elf_extract_load_segments (Some bytes) (Some raw0) 16 (Some 0) = Some (ELF_PARSE_ERR_MALFORMED, Some segs', Some 0)"
        using extract_all [OF p l r] n by (auto split: if_split_asm)
      moreover have "\<not> plan_ok bytes b u s ?ps" using False by (auto simp: plan_ok_def seg_loadable_def segment_fits_iff)
      ultimately show ?thesis using run n by (auto simp: plan_build_def status_simps)
    next
      case fits: True
      then have "elf_extract_load_segments (Some bytes) (Some raw0) 16 (Some 0) = Some (ELF_PARSE_OK, Some (segs_put raw0 0 ?ps), Some (length ?ps))"
        using extract_all [OF p l r] n by simp
      then have "plan_build bytes b u raw0 = plan_checks bytes b u (segs_put raw0 0 ?ps) (length ?ps) (plan_start s (length ?ps))"
        using run n by (simp add: plan_build_def plan_checks_def plan_start_def Let_def)
      then show ?thesis using plan_checks_cases [OF fits, of b u raw0 s] n by auto
    qed
  qed
qed

lemma unparsed_run:
  assumes "\<nexists>c s. elf_parsed bytes c s"
  shows "\<exists>st s. st \<noteq> ELF_PARSE_OK \<and> elf_parse_image (Some bytes) (Some zero_summary) = Some (st, Some s)"
proof -
  obtain st s where r: "elf_parse_image (Some bytes) (Some zero_summary) = Some (st, Some s)" using elf_parse_total by blast
  moreover have "st \<noteq> ELF_PARSE_OK" using r assms elf_parse_ok by blast
  ultimately show ?thesis by blast
qed

lemma unparsed_build:
  assumes "\<nexists>c s. elf_parsed bytes c s"
  shows "plan_build bytes b u raw0 = Some (BH_ELF_PLAN_ERR_PARSE_SUMMARY, plan_zero)"
  using unparsed_run [OF assms] by (auto simp: plan_build_def)

lemma plan_machine_run:
  assumes "length bytes < 2 ^ 31" and "length raw0 = 16"
  shows "\<exists>st plan. bh_elf_generate_load_plan_for_machine raw0 (Some bytes) b u machine (Some p0) = Some (st, Some plan) \<and>
    (st = BH_ELF_PLAN_SUCCESS \<longrightarrow> elf_loadable bytes b u machine plan) \<and> (elf_loadable bytes b u machine plan' \<longrightarrow> st = BH_ELF_PLAN_SUCCESS \<and> plan = plan')"
proof (cases "length bytes < 64")
  case True
  then show ?thesis by (auto simp: bh_elf_generate_load_plan_for_machine_def elf_loadable_def status_simps)
next
  case len: False
  let ?c = "le_word (take 1 (drop 4 bytes)) :: u8" and ?m = "le_word (take 2 (drop 18 bytes)) :: u16"
  have f: "fetch bytes 4 1 = Some ?c" "fetch bytes 18 2 = Some ?m" using len by (simp_all add: fetch_Some)
  have magic: "take 4 bytes = [0x7f, 0x45, 0x4C, 0x46] \<longleftrightarrow> fetch bytes 0 1 = Some (0x7f :: u8) \<and> fetch bytes 1 1 = Some (0x45 :: u8) \<and>
      fetch bytes 2 1 = Some (0x4C :: u8) \<and> fetch bytes 3 1 = Some (0x46 :: u8)" using magic_iff len by simp
  show ?thesis
  proof (cases "\<exists>s. elf_parsed bytes (plan_expected_class machine) s \<and> machine_matches ?m machine")
    case True
    then obtain s where s: "elf_parsed bytes (plan_expected_class machine) s" and m: "machine_matches ?m machine" by blast
    have uniq: "s' = s" if "elf_parsed bytes (plan_expected_class machine) s'" for s' using parsed_run [OF that] parsed_run [OF s] by simp
    obtain ty where ty: "fetch bytes 16 2 = Some ty" "ty = 2 \<or> ty = (3 :: u16)"
      using s len by (auto simp: elf_parsed_def elf_ehdr_at_def elf32_ehdr_def elf64_ehdr_def fetch_Some split: if_splits)
    have "bh_elf_generate_load_plan_for_machine raw0 (Some bytes) b u machine (Some p0) =
        do { (st, plan) \<leftarrow> plan_build bytes b u raw0; Some (st, Some plan) }"
      using s len m ty f unfolding elf_parsed_def magic by (auto simp: bh_elf_generate_load_plan_for_machine_def)
    moreover have "elf_loadable bytes b u machine pl \<longleftrightarrow> elf_loads bytes (plan_expected_class machine) s \<noteq> [] \<and>
        length (elf_loads bytes (plan_expected_class machine) s) \<le> 16 \<and> plan_ok bytes b u s (elf_loads bytes (plan_expected_class machine) s) \<and>
        pl = plan_for s (elf_loads bytes (plan_expected_class machine) s)"
      (is "_ \<longleftrightarrow> ?ok pl") for pl
    proof
      assume "elf_loadable bytes b u machine pl"
      then obtain s' where "elf_parsed bytes (plan_expected_class machine) s'" and ok: "elf_loads bytes (plan_expected_class machine) s' \<noteq> []"
        "length (elf_loads bytes (plan_expected_class machine) s') \<le> 16" "plan_ok bytes b u s' (elf_loads bytes (plan_expected_class machine) s')"
        "pl = plan_for s' (elf_loads bytes (plan_expected_class machine) s')"
        unfolding elf_loadable_def plan_ok_def by blast
      then show "?ok pl" using uniq by blast
    next
      assume "?ok pl"
      then show "elf_loadable bytes b u machine pl"
        unfolding elf_loadable_def plan_ok_def using s m f(2) len by (intro exI [of _ s] exI [of _ ?m] exI [of _ "elf_loads bytes (plan_expected_class machine) s"]) simp
    qed
    ultimately show ?thesis using plan_build_cases [OF s assms, of b u] by auto
  next
    case no: False
    then have "\<not> elf_loadable bytes b u machine pl" for pl using f(2) by (auto simp: elf_loadable_def)
    moreover have "\<exists>st plan. st \<noteq> BH_ELF_PLAN_SUCCESS \<and> bh_elf_generate_load_plan_for_machine raw0 (Some bytes) b u machine (Some p0) = Some (st, Some plan)"
    proof (cases "\<exists>c s. elf_parsed bytes c s")
      case True
      then have "\<not> (?c = plan_expected_class machine \<and> machine_matches ?m machine)" using no f(1) by (auto simp: elf_parsed_def)
      then show ?thesis using len f by (auto simp: bh_elf_generate_load_plan_for_machine_def fetch_Some status_simps)
    next
      case False
      show ?thesis using len unparsed_build [OF False] by (auto simp: bh_elf_generate_load_plan_for_machine_def fetch_Some status_simps)
    qed
    ultimately show ?thesis by blast
  qed
qed

lemma extract_loop_total:
  assumes "elf_parsed bytes c s" and "length bytes < 2 ^ 31"
  shows "set is \<subseteq> {..<unat (es_program_header_count s)} \<Longrightarrow> \<exists>st segs' k. elf_extract_loop bytes c s cap is segs n = Some (st, segs', k)"
proof (induction "is" arbitrary: segs n)
  case (Cons i "is")
  then show ?case using phdr_in_image [OF assms, of i] by auto
qed simp

lemma count_total:
  assumes "length bytes < 2 ^ 31"
  shows "\<exists>st n. elf_get_load_segment_count (Some bytes) (Some n0) = Some (st, Some n)"
proof (cases "\<exists>c s. elf_parsed bytes c s")
  case True
  then obtain c s where s: "elf_parsed bytes c s" by blast
  then show ?thesis using parsed_run [OF s] count_loads [OF s assms, of "[0..<unat (es_program_header_count s)]" 0]
    by (simp add: elf_get_load_segment_count_def atLeast0LessThan)
next
  case False
  from unparsed_run [OF False] show ?thesis by (auto simp: elf_get_load_segment_count_def)
qed

lemma extract_total:
  assumes "length bytes < 2 ^ 31"
  shows "\<exists>st segs' n. elf_extract_load_segments (Some bytes) (Some segs) cap (Some n0) = Some (st, Some segs', Some n)"
proof (cases "\<exists>c s. elf_parsed bytes c s")
  case True
  then obtain c s where s: "elf_parsed bytes c s" by blast
  then have "fetch bytes 4 1 = Some c" by (simp add: elf_parsed_def)
  then show ?thesis using parsed_run [OF s] extract_loop_total [OF s assms, of "[0..<unat (es_program_header_count s)]" cap segs 0]
    by (auto simp: elf_extract_load_segments_def atLeast0LessThan)
next
  case False
  from unparsed_run [OF False] show ?thesis by (auto simp: elf_extract_load_segments_def)
qed

section \<open>Properties\<close>

text \<open>
  C4: No image can make the loader read outside it. For every image of less than 2 GiB, whatever bytes it
  has, the parser, the count and the extraction of the loadable segments and the whole generation of the
  load plan run to an answer without a read beyond the image and without an overflow of
  the offset computation. The bound is needed: the product of a header's index and size is
  computed in \<^verbatim>\<open>int\<close>.
\<close>

theorem elf_reads_in_bounds:
  assumes "length bytes < 2 ^ 31" and "length raw0 = 16"
  shows "(\<exists>st s. elf_parse_image (Some bytes) (Some s0) = Some (st, Some s)) \<and>
    (\<exists>st n. elf_get_load_segment_count (Some bytes) (Some n0) = Some (st, Some n)) \<and>
    (\<exists>st segs' n. elf_extract_load_segments (Some bytes) (Some segs) cap (Some n0) = Some (st, Some segs', Some n)) \<and>
    (\<exists>st plan. bh_elf_generate_load_plan_for_machine raw0 (Some bytes) user_base user_limit machine (Some p0) = Some (st, Some plan))"
  using elf_parse_total count_total [OF assms(1)] extract_total [OF assms(1)] plan_machine_run [OF assms] by blast

text \<open>
  C3: The load plan is exact. A plan is produced if and only if the image is a valid executable for the
  machine that has between 1 and 16 loadable segments, each of which lies in the file, lies in user
  space without wrapping around, is large enough, is aligned and is not both writable and executable,
  no two of which share an address, and one of which is executable and contains the entry point. The plan
  then lists exactly these segments, in order, with the protection their flags ask for.
\<close>

theorem elf_plan_exact:
  assumes "length bytes < 2 ^ 31" and "length raw0 = 16"
  shows "bh_elf_generate_load_plan_for_machine raw0 (Some bytes) user_base user_limit machine (Some p0) = Some (BH_ELF_PLAN_SUCCESS, Some plan)
    \<longleftrightarrow> elf_loadable bytes user_base user_limit machine plan"
  using plan_machine_run [OF assms, of user_base user_limit machine p0 plan] by auto

text \<open>A small executable: one readable and executable segment of a page at \<open>0x400000\<close>.\<close>

definition sample_elf :: "u8 list" where
  "sample_elf =
    [127, 69, 76, 70, 2, 1, 1, 0, 0, 0, 0, 0, 0, 0, 0, 0, 2, 0, 62, 0, 1, 0, 0, 0, 120, 0, 64, 0, 0, 0, 0, 0,
     64, 0, 0, 0, 0, 0, 0, 0, 0, 0, 0, 0, 0, 0, 0, 0, 0, 0, 0, 0, 64, 0, 56, 0, 1, 0, 0, 0, 0, 0, 0, 0, 1, 0,
     0, 0, 5, 0, 0, 0, 0, 0, 0, 0, 0, 0, 0, 0, 0, 0, 64, 0, 0, 0, 0, 0, 0, 0, 64, 0, 0, 0, 0, 0, 120, 0, 0, 0,
     0, 0, 0, 0, 0, 16, 0, 0, 0, 0, 0, 0, 0, 16, 0, 0, 0, 0, 0, 0]"

definition sample_raw :: "elf_segment list" where
  "sample_raw = replicate 16 \<lparr>sg_virtual_address = 0, sg_physical_address = 0, sg_file_offset = 0, sg_file_size = 0,
     sg_memory_size = 0, sg_flags = 0, sg_alignment = 0\<rparr>"

lemma sample_elf_size: "length sample_elf < 2 ^ 31" "length sample_raw = 16"
  by (simp_all add: sample_elf_def sample_raw_def)

definition sample_summary :: elf_summary where
  "sample_summary = \<lparr>es_entry_point = 0x400078, es_program_header_count = 1, es_program_header_offset = 64,
     es_program_header_entry_size = 56\<rparr>"

definition sample_phdr :: elf_phdr where
  "sample_phdr = \<lparr>ph_type = 1, ph_flags = 5, ph_offset = 0, ph_vaddr = 0x400000, ph_paddr = 0x400000,
     ph_filesz = 120, ph_memsz = 4096, ph_align = 4096\<rparr>"

lemma sample_elf_fields:
  "elf64_ehdr sample_elf = Some \<lparr>eh_type = 2, eh_version = 1, eh_entry = 0x400078, eh_phoff = 64, eh_phentsize = 56, eh_phnum = 1\<rparr>"
  "elf64_phdr sample_elf 64 = Some sample_phdr"
  by (simp_all add: elf64_ehdr_def elf64_phdr_def fetch_def sample_elf_def sample_phdr_def)

lemma sample_elf_parsed: "elf_parsed sample_elf 2 sample_summary"
  unfolding elf_parsed_def elf_ehdr_at_def
  using sample_elf_fields(1) by (simp add: fetch_def sample_elf_def ehdr_size_def phdr_size_def sample_summary_def)

lemma sample_elf_loadable:
  "elf_loadable sample_elf 0x400000 0x3FFFFFFFFF BH_ELF_MACHINE_X86_64 (plan_for sample_summary [sample_phdr])"
proof -
  have c: "plan_expected_class BH_ELF_MACHINE_X86_64 = 2" by (simp add: plan_expected_class_def)
  have ps: "elf_loads sample_elf 2 sample_summary = [sample_phdr]"
    using sample_elf_fields(2)
    by (simp add: elf_loads_def elf_loads_of_def phdr_nth_def elf_phdr_at_def sample_summary_def sample_phdr_def)
  have m: "fetch sample_elf 18 2 = Some (62 :: u16)" "64 \<le> length sample_elf" "length sample_elf = 120"
    by (simp_all add: fetch_def sample_elf_def)
  have seg: "seg_loadable sample_elf 0x400000 0x3FFFFFFFFF sample_phdr" "seg_enters (es_entry_point sample_summary) sample_phdr"
    by (simp_all add: seg_loadable_def seg_enters_def m(3) sample_phdr_def sample_summary_def elf_segment_aligned_def)
  show ?thesis
    unfolding elf_loadable_def c
    by (intro exI [of _ sample_summary] exI [of _ "[sample_phdr]"] exI [of _ 62]) (simp add: sample_elf_parsed ps m seg)
qed

theorem elf_plan_exact_witness:
  "\<exists>plan. bh_elf_generate_load_plan_for_machine sample_raw (Some sample_elf) 0x400000 0x3FFFFFFFFF BH_ELF_MACHINE_X86_64 (Some plan_zero)
     = Some (BH_ELF_PLAN_SUCCESS, Some plan)"
  using elf_plan_exact [OF sample_elf_size] sample_elf_loadable by blast

theorem elf_reads_in_bounds_witness:
  "\<exists>st segs n. elf_extract_load_segments (Some sample_elf) (Some sample_raw) 16 (Some 0) = Some (st, Some segs, Some n)"
  using elf_reads_in_bounds [OF sample_elf_size] by blast

end
