(* ===== verification/Spec2Isabelle.thy ===== *)
theory Spec2Isabelle
  imports Ds_Bitmap Ds_Handle_Table Ds_Ring Ds_Range_Tree Ds_Registry Ds_Refcount Ds_Seqlock Ds_Cpumask
    Cap_Validate Cap_Revoke_Inv Ipc_Endpoint_Inv Elf_Image_Inv
begin

text \<open>
  A verification of the capability system, the synchronous IPC, the image loader's checks and the data
  structure library of the Bharat-OS kernel.

  \<^bold>\<open>The program.\<close> Bharat-OS is a multikernel written in C (src/core/kernel): every core runs an instance
  of the kernel, and the instances exchange messages over uRPC channels. Authority is held in capability
  tables, one per process, owned by a core (src/core/kernel/src/cap). A capability is a slot of
  a table; user code names it by a handle made of a slot number and a generation. Capabilities are granted,
  delegated within a core or by a transaction with another core, sent in messages, and revoked together with
  everything derived from them. IPC endpoints (src/core/kernel/src/ipc/endpoint_ipc.c) are the objects
  of the most used capabilities: a message of up to 128 bytes with up to two capabilities is passed from
  a sender to a receiver that may block. Services check requests through the capability library
  (src/core/lib/cap) and the kernel's authority resolver. A program starts from an ELF image that the
  kernel first turns into a load plan (src/core/lib/elf). All of this stands on small data structures
  (src/core/kernel/src/ds).

  \<^bold>\<open>The theories.\<close>
  \<^item> \<^verbatim>\<open>Prelude\<close>: machine integers, status codes (include/kernel/status.h), facts on words, bytes and scans.
  \<^item> \<^verbatim>\<open>Interfaces\<close>: the contracts as locales: a set of small numbers, a pool of identifiers, a bounded queue, and a system
    with an invariant. Each is interpreted on the model of the component that provides it.
  \<^item> \<^verbatim>\<open>Ds_*\<close>: one theory per file of src/core/kernel/src/ds: bitmap, identifier allocator, handle table, ring,
    range table, registry, reference count, sequence lock, CPU mask. The last two concurrent ones
    are step relations over the atomic steps of the code; the ring refines a bounded queue.
  \<^item> \<^verbatim>\<open>Urpc\<close>: message words, rings and channels of the transport (src/core/kernel/src/urpc).
  \<^item> \<^verbatim>\<open>Cap_Types\<close>, \<^verbatim>\<open>Cap_Policy\<close>, \<^verbatim>\<open>Kernel_State\<close>: entries, tables, locators, transactions and their
    packing (capability.h, cap_internal.h), the transfer policy (cap_policy.c), and the record \<open>kstate\<close> with
    the global arrays of the C files: tables, registry, transactions, endpoints, threads and transport.
  \<^item> \<^verbatim>\<open>Ipc_Refs\<close>: endpoint references and their counting, closing and reclaiming.
  \<^item> \<^verbatim>\<open>Cap_Cspace\<close>, \<^verbatim>\<open>Cap_Space_Inv\<close>: the operations of cap_cspace.c, and the invariant \<open>caps_wf\<close> that
    each of them keeps, with lookup after grant, attenuation by delegation, and capture with installation.
  \<^item> \<^verbatim>\<open>Cap_Validate\<close>: validation, pinning, typed lookups and the resolver (cap_dispatch.c, cap_lookup.h) and the
    authorisation of service requests (src/core/lib/cap).
  \<^item> \<^verbatim>\<open>Cap_Tx\<close>: the handlers of cross-core requests and acknowledgements, and delegation across cores.
  \<^item> \<^verbatim>\<open>Cap_Revoke\<close>, \<^verbatim>\<open>Cap_Revoke_Inv\<close>: cap_revoke.c with all its walks, and what a revocation does to the
    derivation tree.
  \<^item> \<^verbatim>\<open>Ipc_Endpoint\<close>, \<^verbatim>\<open>Ipc_Endpoint_Inv\<close>: the rest of endpoint_ipc.c, and delivery, authorisation
    of senders, creation and calls that do not wait.
  \<^item> \<^verbatim>\<open>Elf_Image\<close>, \<^verbatim>\<open>Elf_Image_Inv\<close>: elf_parser.c and elf_load_plan.c, and what a load plan guarantees.

  \<^bold>\<open>How the model corresponds to the code.\<close> A C function is a definition of the same name, a struct a
  record, an enum a datatype or named constants. An argument that the code compares with NULL is an option. A
  function that changes state takes the state and returns it. An out-parameter is an option of its contents,
  returned updated. Early returns are branches. A loop that stops at the first hit is \<^const>\<open>find\<close>
  over the index range. Locks are no-ops in the model of one operation; where the code gives a lock back or
  waits, what others may do meanwhile is an argument of the definition: \<open>wait\<close> for the wait for
  acknowledgements, \<open>pin_wait\<close> for the wait for pins to drain, and the record \<open>ipc_env\<close> for blocked
  senders and receivers. The core that runs is the argument \<open>cpu\<close>. Identifiers, masks, counters and
  generations are words, so their wrap-around is that of the code; sizes and indices are natural
  numbers with a wrap-around written out where the C expression has one.

  \<^bold>\<open>Loops and bounds.\<close> Loops over arrays are structural. The walks of a revocation and the blocking loops
  need not end; they are partial functions in the option type, where \<open>None\<close> is a run that does not
  return. That they return is proved: the property of revocation concludes that a revocation in a well-formed
  tree returns, and the property of calls that do not wait that these return. There is no fuel. In
  \<^verbatim>\<open>Elf_Image\<close> the value \<open>None\<close> is a read outside the image or an overflow of a signed product; both are
  excluded for images below 2 GiB, a bound that the code needs.

  \<^bold>\<open>What the theorems show.\<close> For the data structures: functional behaviour on every branch, invariants kept,
  and refinement of the contracts. For capabilities: rights only shrink along any chain of delegations and
  transfers; a handle finds exactly its live capability; a revocation frees exactly the subtree and never
  adds authority; locks are taken in one global order; a service request is authorised exactly by a matching
  capability. For IPC: a message arrives with its bytes and its capability; a sender that waited is checked
  again when the message is stored. For images: a plan exists exactly for the images that are safe to map.
  Each theorem that has hypotheses is applied to a concrete state in its witness.

  \<^bold>\<open>What modelling showed.\<close> Several lemmas record behaviour that differs from what the code means to do:
  \<open>revoke_leaf_marks_uncle\<close>, \<open>cap_delegate_timeout_no_rollback\<close>, \<open>urpc_never_delivers\<close>,
  \<open>cap_grant_dead_handle\<close>, \<open>resolver_admin_right_unchecked\<close>, \<open>wake_one_drops_running_waiter\<close>,
  \<open>endpoint_closed_undercount\<close> and two about the range table.

  \<^bold>\<open>Not modelled.\<close> The weak memory model: interleavings are sequentially consistent. The machine: assembly,
  page tables, interrupts, context switches, device registers, boot (src/core/arch, hal, boot, drivers).
  The multi-producer queue, whose correctness rests on the memory model, and the RCU stub. Scheduling
  policies and migration; blocking and waking are modelled as far as IPC uses them. Audit logging, tracing and
  console output. User-space services, stacks and personalities, except the capability library through which
  they authorise requests. Tests, tools and third-party code.
\<close>

end
